(* ===== verification/Prelude.thy ===== *)
theory Prelude imports Main "HOL-Library.Word" begin

text \<open>
  The lemmas and names every component of the development shares: the machine types of the
  target, the collections of simplification rules the component proofs are written with, the
  little-endian reading of byte lists, and a few facts on words, lists and maps the library
  does not state in the form needed here.

  The modelled target is the default build of \<^verbatim>\<open>CMakeLists.txt\<close> (MinGW-w64, 64 bit):
  \<^verbatim>\<open>size_t\<close> and pointers have 64 bits, \<^verbatim>\<open>uint32_t\<close> has 32 and
  \<^verbatim>\<open>uint8_t\<close> has 8.
\<close>

unbundle bit_operations_syntax

section \<open>Machine types\<close>

type_synonym u8 = "8 word"
type_synonym u16 = "16 word"
type_synonym u32 = "32 word"
type_synonym u64 = "64 word"

text \<open>\<^verbatim>\<open>size_t\<close> of the 64-bit build.\<close>

type_synonym size_t = "64 word"

text \<open>An address in the flat address space; 0 is \<^verbatim>\<open>NULL\<close>.\<close>

type_synonym addr = nat

abbreviation (input) NULL :: addr where
  "NULL \<equiv> 0"

section \<open>Collections of rules\<close>

text \<open>
  \<open>frames\<close> holds the equations saying what an operation leaves alone, \<open>abs_simps\<close> the
  equations that move an abstraction function over an operation.
\<close>

named_theorems frames
named_theorems abs_simps

section \<open>Words\<close>

lemma and_one_if: "(c :: 'a :: len word) AND 1 = (if bit c 0 then 1 else 0)"
  by (simp add: and_one_eq mod_2_eq_odd bit_0)

lemma not_bit_length: "LENGTH('a) \<le> n \<Longrightarrow> \<not> bit (w :: 'a :: len word) n"
  using bit_imp_le_length by (metis not_le)

lemma unat_of_nat_small: "n < 2 ^ LENGTH('a) \<Longrightarrow> unat (of_nat n :: 'a :: len word) = n"
  by (simp add: unat_of_nat take_bit_nat_eq_self)

lemma unat_le_word: "unat a \<le> unat b \<longleftrightarrow> a \<le> (b :: 'a :: len word)"
  by (simp add: word_le_nat_alt)

lemma unat_add_small:
  "unat a + unat b < 2 ^ LENGTH('a) \<Longrightarrow> unat (a + b :: 'a :: len word) = unat a + unat b"
  by (simp add: unat_word_ariths)

lemma unat_sub_small:
  "unat b \<le> unat a \<Longrightarrow> unat (a - b :: 'a :: len word) = unat a - unat b"
  by (simp add: unat_sub word_le_nat_alt)

lemma bit_times_two: "bit ((w :: 'a :: len word) * 2) n \<longleftrightarrow> n < LENGTH('a) \<and> 0 < n \<and> bit w (n - 1)"
  using bit_double_iff [of w n] by (auto simp: mult.commute)

lemma xor_left_cancel: "c XOR a = c XOR b \<longleftrightarrow> a = (b :: 'a :: len word)"
  by (metis xor.assoc xor.left_neutral xor_self_eq)

text \<open>Clearing the low bits rounds down to a multiple of a power of two.\<close>

lemma and_not_mask_shift: "w AND NOT (mask k) = push_bit k (drop_bit k (w :: 'a :: len word))"
  by (rule bit_word_eqI) (auto simp: bit_simps)

lemma unat_and_not_mask: "unat (w AND NOT (mask k) :: 'a :: len word) = unat w div 2 ^ k * 2 ^ k"
proof -
  have "unat w div 2 ^ k * 2 ^ k \<le> unat w" by simp
  also have "unat w < 2 ^ LENGTH('a)" by simp
  finally show ?thesis
    by (simp only: and_not_mask_shift unsigned_push_bit_eq unat_drop_bit_eq)
      (simp add: push_bit_eq_mult drop_bit_eq_div take_bit_nat_eq_self)
qed

section \<open>Little-endian byte lists\<close>

text \<open>
  \<open>le_bytes k n\<close> are the \<open>k\<close> bytes a little-endian machine stores for the number
  \<open>n\<close>; \<open>le_nat\<close> reads them back.
\<close>

fun le_bytes :: "nat \<Rightarrow> nat \<Rightarrow> u8 list" where
  "le_bytes 0 n = []"
| "le_bytes (Suc k) n = of_nat n # le_bytes k (n div 256)"

fun le_nat :: "u8 list \<Rightarrow> nat" where
  "le_nat [] = 0"
| "le_nat (b # bs) = unat b + 256 * le_nat bs"

lemma length_le_bytes [simp]: "length (le_bytes k n) = k"
  by (induction k n rule: le_bytes.induct) simp_all

lemma le_nat_le_bytes: "le_nat (le_bytes k n) = n mod 256 ^ k"
proof (induction k n rule: le_bytes.induct)
  case (1 n)
  show ?case by simp
next
  case (2 k n)
  then show ?case
    by (simp add: unat_of_nat take_bit_eq_mod mod_mult2_eq)
qed

lemma le_nat_le_bytes_small [simp]: "n < 256 ^ k \<Longrightarrow> le_nat (le_bytes k n) = n"
  by (simp add: le_nat_le_bytes)

lemma unat_u8_less [simp]: "unat (b :: u8) < 256"
  using unsigned_less [where w = b, where ?'a = nat] by simp

lemma le_nat_less: "le_nat bs < 256 ^ length bs"
proof (induction bs)
  case Nil
  show ?case by simp
next
  case (Cons b bs)
  have step: "a < 256 \<Longrightarrow> l + 1 \<le> p \<Longrightarrow> a + 256 * l < 256 * p" for a l p :: nat
    by simp
  show ?case using step [of "unat b" "le_nat bs" "256 ^ length bs"] Cons by simp
qed

lemma digit_inj:
  "a < 256 \<Longrightarrow> c < 256 \<Longrightarrow> a + 256 * p = c + 256 * q \<Longrightarrow> a = c \<and> p = (q :: nat)"
  by (metis add.right_neutral div_less div_mult_self2 mod_less mod_mult_self2 zero_neq_numeral)

lemma le_nat_inj: "length xs = length ys \<Longrightarrow> le_nat xs = le_nat ys \<Longrightarrow> xs = ys"
proof (induction xs ys rule: list_induct2)
  case Nil
  show ?case by simp
next
  case (Cons x xs y ys)
  have "unat x = unat y \<and> le_nat xs = le_nat ys"
    by (rule digit_inj) (use Cons.prems in simp_all)
  with Cons.IH show ?case by (simp add: word_unat_eq_iff)
qed

end
