(* ===== verification/Rtos_Types.thy ===== *)
theory Rtos_Types imports Prelude begin

text \<open>
  The types and configuration constants of \<^verbatim>\<open>include/rtos_types.h\<close>. The macros
  \<^verbatim>\<open>RTOS_ENTER_CRITICAL\<close> and \<^verbatim>\<open>RTOS_EXIT_CRITICAL\<close> expand to nothing on
  every target, so they have no counterpart in the models of the functions that use them.
\<close>

datatype rtos_status =
    RTOS_OK
  | RTOS_ERROR
  | RTOS_ERROR_TIMEOUT
  | RTOS_ERROR_NO_MEMORY
  | RTOS_ERROR_INVALID_PARAM
  | RTOS_ERROR_BUSY
  | RTOS_ERROR_NOT_READY

datatype task_state =
    TASK_STATE_READY
  | TASK_STATE_RUNNING
  | TASK_STATE_BLOCKED
  | TASK_STATE_SUSPENDED
  | TASK_STATE_DELETED

definition NUM_PRIORITY_LEVELS :: nat where
  "NUM_PRIORITY_LEVELS = 32"

definition MAX_TASKS :: nat where
  "MAX_TASKS = 16"

definition TASK_STACK_SIZE :: nat where
  "TASK_STACK_SIZE = 1024"

definition HEAP_SIZE :: nat where
  "HEAP_SIZE = 64 * 1024"

type_synonym tick_t = u32

end
