(* ===== verification/Address_Space.thy ===== *)
theory Address_Space imports Rtos_Types begin

text \<open>
  The flat, byte-addressed memory the C objects with an address live in: the heap array, the
  structures allocated in it, and the buffers callers pass. A C structure is read and written
  field by field at the offsets the 64-bit ABI gives its members; every access is the pair
  \<open>rd\<close>/\<open>wr\<close> of a little-endian number of some bytes, so that two rules (the bytes written
  are read back; a disjoint range is not touched) carry all layout reasoning.
\<close>

section \<open>Byte ranges\<close>

type_synonym memory = "addr \<Rightarrow> u8"

definition bytes_at :: "memory \<Rightarrow> addr \<Rightarrow> nat \<Rightarrow> u8 list" where
  "bytes_at m a n = map (\<lambda>i. m (a + i)) [0..<n]"

definition rd :: "memory \<Rightarrow> addr \<Rightarrow> nat \<Rightarrow> nat" where
  "rd m a n = le_nat (bytes_at m a n)"

definition wr :: "memory \<Rightarrow> addr \<Rightarrow> nat \<Rightarrow> nat \<Rightarrow> memory" where
  "wr m a n v = (\<lambda>x. if a \<le> x \<and> x < a + n then le_bytes n v ! (x - a) else m x)"

text \<open>\<^verbatim>\<open>memset\<close> and \<^verbatim>\<open>memcpy\<close> of the C library (the latter for ranges that do not
  overlap, the only case C defines).\<close>

definition memset :: "memory \<Rightarrow> addr \<Rightarrow> u8 \<Rightarrow> nat \<Rightarrow> memory" where
  "memset m a c n = (\<lambda>x. if a \<le> x \<and> x < a + n then c else m x)"

definition memcpy :: "memory \<Rightarrow> addr \<Rightarrow> addr \<Rightarrow> nat \<Rightarrow> memory" where
  "memcpy m dst src n = (\<lambda>x. if dst \<le> x \<and> x < dst + n then m (src + (x - dst)) else m x)"

lemma length_bytes_at [simp]: "length (bytes_at m a n) = n"
  by (simp add: bytes_at_def)

lemma nth_bytes_at [simp]: "i < n \<Longrightarrow> bytes_at m a n ! i = m (a + i)"
  by (simp add: bytes_at_def)

lemma bytes_at_eq_iff: "bytes_at m a n = bytes_at m' b n \<longleftrightarrow> (\<forall>i<n. m (a + i) = m' (b + i))"
  by (auto simp: list_eq_iff_nth_eq)

lemma bytes_at_cong: "(\<And>x. a \<le> x \<Longrightarrow> x < a + n \<Longrightarrow> m x = m' x) \<Longrightarrow> bytes_at m a n = bytes_at m' a n"
  by (simp add: bytes_at_eq_iff)

lemma bytes_at_memset: "bytes_at (memset m a c n) a n = replicate n c"
  by (simp add: list_eq_iff_nth_eq memset_def)

lemma bytes_at_memcpy: "bytes_at (memcpy m dst src n) dst n = bytes_at m src n"
  by (simp add: bytes_at_eq_iff memcpy_def)

lemma rd_cong: "(\<And>x. a \<le> x \<Longrightarrow> x < a + n \<Longrightarrow> m x = m' x) \<Longrightarrow> rd m a n = rd m' a n"
  unfolding rd_def by (metis bytes_at_cong)

lemma rd_less: "rd m a n < 256 ^ n"
  using le_nat_less [of "bytes_at m a n"] by (simp add: rd_def)

lemma bytes_at_wr: "bytes_at (wr m a n v) a n = le_bytes n v"
  by (simp add: list_eq_iff_nth_eq wr_def)

lemma rd_wr_same: "v < 256 ^ n \<Longrightarrow> rd (wr m a n v) a n = v"
  by (simp add: rd_def bytes_at_wr)

lemma wr_other [frames]: "x < a \<or> a + n \<le> x \<Longrightarrow> wr m a n v x = m x"
  by (auto simp: wr_def)

lemma rd_wr_other: "a + n \<le> b \<or> b + k \<le> a \<Longrightarrow> rd (wr m b k v) a n = rd m a n"
  by (rule rd_cong) (auto simp: wr_def)

lemma memset_other [frames]: "x < a \<or> a + n \<le> x \<Longrightarrow> memset m a c n x = m x"
  by (auto simp: memset_def)

lemma memcpy_other [frames]: "x < a \<or> a + n \<le> x \<Longrightarrow> memcpy m a b n x = m x"
  by (auto simp: memcpy_def)

section \<open>Members of structures\<close>

text \<open>\<^verbatim>\<open>size_t\<close> (8 bytes), \<^verbatim>\<open>uint32_t\<close> (4), \<^verbatim>\<open>bool\<close> (1) and pointers (8).\<close>

definition rd_size :: "memory \<Rightarrow> addr \<Rightarrow> size_t" where
  "rd_size m a = of_nat (rd m a 8)"

definition wr_size :: "memory \<Rightarrow> addr \<Rightarrow> size_t \<Rightarrow> memory" where
  "wr_size m a v = wr m a 8 (unat v)"

definition rd_u32 :: "memory \<Rightarrow> addr \<Rightarrow> u32" where
  "rd_u32 m a = of_nat (rd m a 4)"

definition wr_u32 :: "memory \<Rightarrow> addr \<Rightarrow> u32 \<Rightarrow> memory" where
  "wr_u32 m a v = wr m a 4 (unat v)"

definition rd_bool :: "memory \<Rightarrow> addr \<Rightarrow> bool" where
  "rd_bool m a \<longleftrightarrow> rd m a 1 \<noteq> 0"

definition wr_bool :: "memory \<Rightarrow> addr \<Rightarrow> bool \<Rightarrow> memory" where
  "wr_bool m a b = wr m a 1 (if b then 1 else 0)"

definition rd_ptr :: "memory \<Rightarrow> addr \<Rightarrow> addr" where
  "rd_ptr m a = rd m a 8"

definition wr_ptr :: "memory \<Rightarrow> addr \<Rightarrow> addr \<Rightarrow> memory" where
  "wr_ptr m a p = wr m a 8 p"

lemmas access_defs = rd_size_def wr_size_def rd_u32_def wr_u32_def rd_bool_def wr_bool_def
  rd_ptr_def wr_ptr_def

lemma unat_u64_less: "unat (w :: u64) < 256 ^ 8"
  using unsigned_less [where w = w, where ?'a = nat] by simp

lemma unat_u32_less: "unat (w :: u32) < 256 ^ 4"
  using unsigned_less [where w = w, where ?'a = nat] by simp

lemma rd_wr_size_same [simp]: "rd_size (wr_size m a v) a = v"
  by (simp add: access_defs rd_wr_same unat_u64_less del: power_numeral)

lemma rd_wr_u32_same [simp]: "rd_u32 (wr_u32 m a v) a = v"
  by (simp add: access_defs rd_wr_same unat_u32_less del: power_numeral)

lemma rd_wr_bool_same [simp]: "rd_bool (wr_bool m a v) a = v"
  by (simp add: access_defs rd_wr_same)

lemma rd_wr_ptr_same [simp]: "p < 2 ^ 64 \<Longrightarrow> rd_ptr (wr_ptr m a p) a = p"
  by (simp add: access_defs rd_wr_same)

text \<open>Reading a member looks at its own bytes only, writing it changes no others.\<close>

lemma rd_size_cong: "(\<And>x. a \<le> x \<Longrightarrow> x < a + 8 \<Longrightarrow> m x = m' x) \<Longrightarrow> rd_size m a = rd_size m' a"
  using rd_cong [of a 8 m m'] by (simp add: rd_size_def)

lemma rd_u32_cong: "(\<And>x. a \<le> x \<Longrightarrow> x < a + 4 \<Longrightarrow> m x = m' x) \<Longrightarrow> rd_u32 m a = rd_u32 m' a"
  using rd_cong [of a 4 m m'] by (simp add: rd_u32_def)

lemma rd_bool_cong: "m a = m' a \<Longrightarrow> rd_bool m a = rd_bool m' a"
  by (simp add: rd_bool_def rd_def bytes_at_def)

lemma rd_ptr_cong: "(\<And>x. a \<le> x \<Longrightarrow> x < a + 8 \<Longrightarrow> m x = m' x) \<Longrightarrow> rd_ptr m a = rd_ptr m' a"
  using rd_cong [of a 8 m m'] by (simp add: rd_ptr_def)

lemma wr_size_other [frames]: "x < a \<or> a + 8 \<le> x \<Longrightarrow> wr_size m a v x = m x"
  by (simp add: access_defs wr_other)

lemma wr_u32_other [frames]: "x < a \<or> a + 4 \<le> x \<Longrightarrow> wr_u32 m a v x = m x"
  by (simp add: access_defs wr_other)

lemma wr_bool_other [frames]: "x \<noteq> a \<Longrightarrow> wr_bool m a v x = m x"
  by (auto simp: wr_bool_def wr_def)

lemma wr_ptr_other [frames]: "x < a \<or> a + 8 \<le> x \<Longrightarrow> wr_ptr m a v x = m x"
  by (simp add: access_defs wr_other)

lemma rd_ptr_less: "rd_ptr m a < 2 ^ 64"
  using rd_less [of m a 8] by (simp add: rd_ptr_def)

end
