(* ===== verification/Heap.thy ===== *)
theory Heap imports Address_Space "HOL-Library.Monad_Syntax" begin

text \<open>
  The heap allocator of \<^verbatim>\<open>src/kernel/memory.c\<close> over the byte memory: block headers live
  in the heap array itself, in front of their payload, and are linked in address order. The
  statics of the file are the record \<open>heap_state\<close>; \<open>heap_memory\<close> is the address at which
  the linker placed the array.

  The loops over the list are partial functions: \<open>None\<close> is a loop that never ends, which a
  corrupted list can produce. \<open>Heap_Blocks\<close> shows it does not happen on a well-formed heap.
\<close>

section \<open>Headers\<close>

text \<open>\<^verbatim>\<open>memory_block_t\<close> as the 64-bit ABI lays it out: \<open>size\<close> at 0, \<open>is_free\<close> at 8,
  \<open>next\<close> at 16, \<open>magic\<close> at 24; 32 bytes in all.\<close>

definition MEMORY_MAGIC :: u32 where
  "MEMORY_MAGIC = 0xDEADBEEF"

definition sizeof_block :: nat where
  "sizeof_block = 32"

definition blk_size :: "memory \<Rightarrow> addr \<Rightarrow> size_t" where
  "blk_size m b = rd_size m b"

definition blk_is_free :: "memory \<Rightarrow> addr \<Rightarrow> bool" where
  "blk_is_free m b = rd_bool m (b + 8)"

definition blk_next :: "memory \<Rightarrow> addr \<Rightarrow> addr" where
  "blk_next m b = rd_ptr m (b + 16)"

definition blk_magic :: "memory \<Rightarrow> addr \<Rightarrow> u32" where
  "blk_magic m b = rd_u32 m (b + 24)"

definition set_blk_size :: "addr \<Rightarrow> size_t \<Rightarrow> memory \<Rightarrow> memory" where
  "set_blk_size b v m = wr_size m b v"

definition set_blk_is_free :: "addr \<Rightarrow> bool \<Rightarrow> memory \<Rightarrow> memory" where
  "set_blk_is_free b v m = wr_bool m (b + 8) v"

definition set_blk_next :: "addr \<Rightarrow> addr \<Rightarrow> memory \<Rightarrow> memory" where
  "set_blk_next b v m = wr_ptr m (b + 16) v"

definition set_blk_magic :: "addr \<Rightarrow> u32 \<Rightarrow> memory \<Rightarrow> memory" where
  "set_blk_magic b v m = wr_u32 m (b + 24) v"

section \<open>State\<close>

record memory_stats =
  total_heap_size :: size_t
  used_heap_size :: size_t
  free_heap_size :: size_t
  largest_free_block :: size_t
  num_allocations :: u32
  num_frees :: u32
  fragmentation_percent :: u32

record heap_state =
  mem :: memory
  heap_memory :: addr
  heap_head :: addr
  memory_initialized :: bool
  global_stats :: memory_stats

definition memory_init :: "heap_state \<Rightarrow> heap_state" where
  "memory_init s =
     (if memory_initialized s then s
      else let b = heap_memory s;
               sz = of_nat HEAP_SIZE - of_nat sizeof_block;
               m = (set_blk_magic b MEMORY_MAGIC o set_blk_next b NULL o set_blk_is_free b True o
                    set_blk_size b sz) (mem s)
           in s\<lparr>mem := m, heap_head := b, memory_initialized := True,
                global_stats := \<lparr>total_heap_size = of_nat HEAP_SIZE,
                                 used_heap_size = of_nat sizeof_block,
                                 free_heap_size = blk_size m b,
                                 largest_free_block = blk_size m b,
                                 num_allocations = 0, num_frees = 0,
                                 fragmentation_percent = 0\<rparr>\<rparr>)"

section \<open>Allocation\<close>

definition align_size :: "size_t \<Rightarrow> size_t" where
  "align_size sz = (sz + 3) AND NOT 3"

definition SIZE_MAX :: size_t where
  "SIZE_MAX = 0xFFFFFFFFFFFFFFFF"

text \<open>The loop of \<^verbatim>\<open>find_best_fit\<close>, with its three local variables.\<close>

partial_function (option) find_best_fit_loop ::
    "memory \<Rightarrow> size_t \<Rightarrow> addr \<Rightarrow> addr \<Rightarrow> size_t \<Rightarrow> addr option" where
  "find_best_fit_loop m sz current best_fit min_diff =
     (if current = NULL then Some best_fit
      else if blk_is_free m current \<and> sz \<le> blk_size m current
              \<and> blk_size m current - sz < min_diff
      then find_best_fit_loop m sz (blk_next m current) current (blk_size m current - sz)
      else find_best_fit_loop m sz (blk_next m current) best_fit min_diff)"

definition find_best_fit :: "heap_state \<Rightarrow> size_t \<Rightarrow> addr option" where
  "find_best_fit s sz = find_best_fit_loop (mem s) sz (heap_head s) NULL SIZE_MAX"

definition split_block :: "memory \<Rightarrow> addr \<Rightarrow> size_t \<Rightarrow> memory" where
  "split_block m block sz =
     (if sz + of_nat sizeof_block + 32 \<le> blk_size m block
      then let new_block = block + sizeof_block + unat sz;
               m1 = set_blk_size new_block (blk_size m block - sz - of_nat sizeof_block) m;
               m2 = set_blk_is_free new_block True m1;
               m3 = set_blk_next new_block (blk_next m2 block) m2;
               m4 = set_blk_magic new_block MEMORY_MAGIC m3;
               m5 = set_blk_size block sz m4
           in set_blk_next block new_block m5
      else m)"

definition count_alloc :: "size_t \<Rightarrow> memory_stats \<Rightarrow> memory_stats" where
  "count_alloc sz st =
     st\<lparr>num_allocations := num_allocations st + 1,
        used_heap_size := used_heap_size st + (sz + of_nat sizeof_block),
        free_heap_size := free_heap_size st - (sz + of_nat sizeof_block)\<rparr>"

definition rtos_malloc :: "heap_state \<Rightarrow> size_t \<Rightarrow> (heap_state \<times> addr) option" where
  "rtos_malloc s size0 =
     (if \<not> memory_initialized s \<or> size0 = 0 then Some (s, NULL)
      else let sz = align_size size0 in
        do { block \<leftarrow> find_best_fit s sz;
             if block = NULL then Some (s, NULL)
             else let m1 = split_block (mem s) block sz;
                      m2 = set_blk_is_free block False m1
                  in Some (s\<lparr>mem := m2,
                             global_stats := count_alloc (blk_size m2 block) (global_stats s)\<rparr>,
                           block + sizeof_block) })"

section \<open>Release\<close>

partial_function (option) merge_loop :: "addr \<Rightarrow> memory \<Rightarrow> memory option" where
  "merge_loop current m =
     (if current \<noteq> NULL \<and> blk_next m current \<noteq> NULL
      then if blk_is_free m current \<and> blk_is_free m (blk_next m current)
           then let m1 = set_blk_size current
                           (blk_size m current +
                             (of_nat sizeof_block + blk_size m (blk_next m current))) m
                in merge_loop current
                     (set_blk_next current (blk_next m1 (blk_next m1 current)) m1)
           else merge_loop (blk_next m current) m
      else Some m)"

definition merge_free_blocks :: "heap_state \<Rightarrow> memory \<Rightarrow> memory option" where
  "merge_free_blocks s m = merge_loop (heap_head s) m"

definition count_free :: "size_t \<Rightarrow> memory_stats \<Rightarrow> memory_stats" where
  "count_free sz st =
     st\<lparr>num_frees := num_frees st + 1,
        used_heap_size := used_heap_size st - (sz + of_nat sizeof_block),
        free_heap_size := free_heap_size st + (sz + of_nat sizeof_block)\<rparr>"

definition rtos_free :: "heap_state \<Rightarrow> addr \<Rightarrow> heap_state option" where
  "rtos_free s ptr =
     (if \<not> memory_initialized s \<or> ptr = NULL then Some s
      else let block = ptr - sizeof_block in
        if blk_magic (mem s) block \<noteq> MEMORY_MAGIC then Some s
        else if blk_is_free (mem s) block then Some s
        else let m1 = set_blk_is_free block True (mem s) in
          do { m2 \<leftarrow> merge_free_blocks s m1;
               Some (s\<lparr>mem := m2,
                       global_stats := count_free (blk_size m1 block) (global_stats s)\<rparr>) })"

section \<open>Derived operations\<close>

definition rtos_calloc :: "heap_state \<Rightarrow> size_t \<Rightarrow> size_t \<Rightarrow> (heap_state \<times> addr) option" where
  "rtos_calloc s num sz =
     (let total_size = num * sz in
      do { (s1, ptr) \<leftarrow> rtos_malloc s total_size;
           if ptr \<noteq> NULL then Some (s1\<lparr>mem := memset (mem s1) ptr 0 (unat total_size)\<rparr>, ptr)
           else Some (s1, ptr) })"

definition rtos_realloc :: "heap_state \<Rightarrow> addr \<Rightarrow> size_t \<Rightarrow> (heap_state \<times> addr) option" where
  "rtos_realloc s ptr new_size =
     (if ptr = NULL then rtos_malloc s new_size
      else if new_size = 0 then do { s1 \<leftarrow> rtos_free s ptr; Some (s1, NULL) }
      else let block = ptr - sizeof_block in
        if new_size \<le> blk_size (mem s) block then Some (s, ptr)
        else do { (s1, new_ptr) \<leftarrow> rtos_malloc s new_size;
                  if new_ptr = NULL then Some (s1, NULL)
                  else let s2 = s1\<lparr>mem := memcpy (mem s1) new_ptr ptr
                                             (unat (blk_size (mem s1) block))\<rparr>
                       in do { s3 \<leftarrow> rtos_free s2 ptr; Some (s3, new_ptr) } })"

section \<open>Statistics\<close>

text \<open>The walk of \<^verbatim>\<open>calculate_fragmentation\<close>: largest free block and sum of free sizes.\<close>

partial_function (option) fragmentation_loop ::
    "memory \<Rightarrow> addr \<Rightarrow> size_t \<Rightarrow> size_t \<Rightarrow> (size_t \<times> size_t) option" where
  "fragmentation_loop m current largest_free total_free =
     (if current = NULL then Some (largest_free, total_free)
      else if blk_is_free m current
      then fragmentation_loop m (blk_next m current)
             (if largest_free < blk_size m current then blk_size m current else largest_free)
             (total_free + blk_size m current)
      else fragmentation_loop m (blk_next m current) largest_free total_free)"

text \<open>
  The percentage is computed in \<^verbatim>\<open>double\<close> arithmetic; \<open>percent\<close> is that computation,
  \<^verbatim>\<open>(uint32_t)((1.0 - (double)largest / total) * 100.0)\<close>, a parameter of the model.
\<close>

definition calculate_fragmentation ::
    "(size_t \<Rightarrow> size_t \<Rightarrow> u32) \<Rightarrow> heap_state \<Rightarrow> memory_stats \<Rightarrow> memory_stats option" where
  "calculate_fragmentation percent s st =
     do { (largest_free, total_free) \<leftarrow> fragmentation_loop (mem s) (heap_head s) 0 0;
          Some (st\<lparr>largest_free_block := largest_free,
                   fragmentation_percent :=
                     (if 0 < total_free then percent largest_free total_free else 0)\<rparr>) }"

text \<open>\<open>stats\<close> is the record the pointer argument points to, \<open>None\<close> for a null pointer.\<close>

definition memory_get_stats ::
    "(size_t \<Rightarrow> size_t \<Rightarrow> u32) \<Rightarrow> heap_state \<Rightarrow> memory_stats option \<Rightarrow> memory_stats option option" where
  "memory_get_stats percent s stats =
     (if stats = None \<or> \<not> memory_initialized s then Some stats
      else do { out \<leftarrow> calculate_fragmentation percent s (global_stats s); Some (Some out) })"

text \<open>The loops are executed by their defining equations.\<close>

declare find_best_fit_loop.simps [code]
declare merge_loop.simps [code]
declare fragmentation_loop.simps [code]

end
