(* ===== verification/Heap_Blocks.thy ===== *)
theory Heap_Blocks imports Heap begin

text \<open>
  The abstract view of the heap: the list of its blocks in address order, each an address, a
  payload size and a free flag. \<open>chain\<close> relates the linked headers in memory to such a list;
  the loops of the allocator are then functions on lists: \<open>best_fit\<close>, \<open>take_block\<close>,
  \<open>coalesce\<close>.
\<close>

section \<open>Headers as cells\<close>

lemmas hdr_defs = blk_size_def blk_is_free_def blk_next_def blk_magic_def
  set_blk_size_def set_blk_is_free_def set_blk_next_def set_blk_magic_def

lemma hdr_read_own [simp]:
  "blk_size (set_blk_size b v m) b = v"
  "blk_is_free (set_blk_is_free b f m) b = f"
  "p < 2 ^ 64 \<Longrightarrow> blk_next (set_blk_next b p m) b = p"
  "blk_magic (set_blk_magic b g m) b = g"
  by (simp_all add: hdr_defs)

lemma hdr_write_other [frames]:
  "x < b \<or> b + 32 \<le> x \<Longrightarrow> set_blk_size b v m x = m x"
  "x < b \<or> b + 32 \<le> x \<Longrightarrow> set_blk_is_free b f m x = m x"
  "x < b \<or> b + 32 \<le> x \<Longrightarrow> set_blk_next b p m x = m x"
  "x < b \<or> b + 32 \<le> x \<Longrightarrow> set_blk_magic b g m x = m x"
  by (auto simp: hdr_defs frames)

lemma hdr_field_other [simp]:
  "blk_size (set_blk_is_free b f m) b = blk_size m b"
  "blk_size (set_blk_next b p m) b = blk_size m b"
  "blk_size (set_blk_magic b g m) b = blk_size m b"
  "blk_is_free (set_blk_size b v m) b = blk_is_free m b"
  "blk_is_free (set_blk_next b p m) b = blk_is_free m b"
  "blk_is_free (set_blk_magic b g m) b = blk_is_free m b"
  "blk_next (set_blk_size b v m) b = blk_next m b"
  "blk_next (set_blk_is_free b f m) b = blk_next m b"
  "blk_next (set_blk_magic b g m) b = blk_next m b"
  "blk_magic (set_blk_size b v m) b = blk_magic m b"
  "blk_magic (set_blk_is_free b f m) b = blk_magic m b"
  "blk_magic (set_blk_next b p m) b = blk_magic m b"
  by (auto simp: hdr_defs frames intro!: rd_size_cong rd_u32_cong rd_bool_cong rd_ptr_cong)

text \<open>Two memories that agree on a header agree on its fields.\<close>

definition same_on :: "addr \<Rightarrow> nat \<Rightarrow> memory \<Rightarrow> memory \<Rightarrow> bool" where
  "same_on b n m m' \<longleftrightarrow> (\<forall>x. b \<le> x \<and> x < b + n \<longrightarrow> m' x = m x)"

lemma hdr_same:
  assumes "same_on b 32 m m'"
  shows "blk_size m' b = blk_size m b" "blk_is_free m' b = blk_is_free m b"
    "blk_next m' b = blk_next m b" "blk_magic m' b = blk_magic m b"
  using assms by (auto simp: hdr_defs same_on_def
      intro!: rd_size_cong rd_u32_cong rd_bool_cong rd_ptr_cong)

lemma same_on_writes:
  assumes "b + 32 \<le> a \<or> a + n \<le> b"
  shows "same_on a n m (set_blk_size b v m)" "same_on a n m (set_blk_is_free b f m)"
    "same_on a n m (set_blk_next b p m)" "same_on a n m (set_blk_magic b g m)"
  using assms by (auto simp: same_on_def frames)

lemma hdr_other [simp]:
  assumes "b + 32 \<le> a \<or> a + 32 \<le> b"
  shows
  "blk_size (set_blk_size b v m) a = blk_size m a"
  "blk_size (set_blk_is_free b f m) a = blk_size m a"
  "blk_size (set_blk_next b p m) a = blk_size m a"
  "blk_size (set_blk_magic b g m) a = blk_size m a"
  "blk_is_free (set_blk_size b v m) a = blk_is_free m a"
  "blk_is_free (set_blk_is_free b f m) a = blk_is_free m a"
  "blk_is_free (set_blk_next b p m) a = blk_is_free m a"
  "blk_is_free (set_blk_magic b g m) a = blk_is_free m a"
  "blk_next (set_blk_size b v m) a = blk_next m a"
  "blk_next (set_blk_is_free b f m) a = blk_next m a"
  "blk_next (set_blk_next b p m) a = blk_next m a"
  "blk_next (set_blk_magic b g m) a = blk_next m a"
  "blk_magic (set_blk_size b v m) a = blk_magic m a"
  "blk_magic (set_blk_is_free b f m) a = blk_magic m a"
  "blk_magic (set_blk_next b p m) a = blk_magic m a"
  "blk_magic (set_blk_magic b g m) a = blk_magic m a"
  using same_on_writes [OF assms] by (simp_all add: hdr_same)

section \<open>The block list\<close>

text \<open>A block: header address, payload size, free flag.\<close>

type_synonym blk = "addr \<times> nat \<times> bool"

abbreviation blk_addr :: "blk \<Rightarrow> addr" where
  "blk_addr \<equiv> fst"

definition hdr :: "memory \<Rightarrow> addr \<Rightarrow> nat \<Rightarrow> bool \<Rightarrow> addr \<Rightarrow> bool" where
  "hdr m b n f q \<longleftrightarrow> blk_size m b = of_nat n \<and> n < 2 ^ 64 \<and> blk_is_free m b = f
     \<and> blk_next m b = q \<and> blk_magic m b = MEMORY_MAGIC"

text \<open>
  \<open>chain m a e z bs\<close>: the headers of \<open>bs\<close> lie one after the other from \<open>a\<close> up to \<open>e\<close>, each
  linked to the next, the last to \<open>z\<close>.
\<close>

fun chain :: "memory \<Rightarrow> addr \<Rightarrow> addr \<Rightarrow> addr \<Rightarrow> blk list \<Rightarrow> bool" where
  "chain m a e z [] \<longleftrightarrow> a = e"
| "chain m a e z ((b, n, f) # bs) \<longleftrightarrow>
     b = a \<and> hdr m a n f (if bs = [] then z else a + 32 + n) \<and> chain m (a + 32 + n) e z bs"

text \<open>The pointer the code holds to the rest of the list.\<close>

definition ptr_of :: "blk list \<Rightarrow> addr" where
  "ptr_of bs = (case bs of [] \<Rightarrow> NULL | b # _ \<Rightarrow> blk_addr b)"

lemma ptr_of_simps [simp]: "ptr_of [] = 0" "ptr_of (b # bs) = fst b"
  by (simp_all add: ptr_of_def)

lemma chain_le: "chain m a e z bs \<Longrightarrow> a \<le> e"
  by (induction bs arbitrary: a) (auto, fastforce)

lemma chain_append:
  "chain m a e z (xs @ ys) \<longleftrightarrow>
     (\<exists>c. chain m a c (if ys = [] then z else c) xs \<and> chain m c e z ys)"
proof (induction xs arbitrary: a)
  case Nil
  show ?case by auto
next
  case (Cons x xs)
  obtain b n f where x: "x = (b, n, f)" by (cases x)
  show ?case
    by (cases "ys = []"; cases "xs = []") (auto simp: x Cons.IH [of "a + 32 + n"])
qed

lemma chain_next: "chain m a e z ((b, n, f) # bs) \<Longrightarrow> z = 0 \<Longrightarrow> blk_next m b = ptr_of bs"
  by (cases bs) (auto simp: hdr_def)

text \<open>Every block of a chain lies inside it, header and payload.\<close>

lemma chain_mem:
  "chain m a e z bs \<Longrightarrow> (b, n, f) \<in> set bs \<Longrightarrow> a \<le> b \<and> b + 32 + n \<le> e \<and> blk_size m b = of_nat n
     \<and> blk_is_free m b = f \<and> blk_magic m b = MEMORY_MAGIC"
proof (induction bs arbitrary: a)
  case Nil
  then show ?case by simp
next
  case (Cons x xs)
  obtain b' n' f' where x: "x = (b', n', f')" by (cases x)
  from Cons.prems(1) have c: "chain m (a + 32 + n') e z xs" by (simp add: x)
  show ?case
  proof (cases "(b, n, f) \<in> set xs")
    case True
    with Cons.IH [OF c] show ?thesis by simp
  next
    case False
    with Cons.prems chain_le [OF c] show ?thesis by (auto simp: x hdr_def)
  qed
qed

text \<open>A chain only depends on the bytes of its headers.\<close>

lemma chain_cong:
  "(\<And>b n f. (b, n, f) \<in> set bs \<Longrightarrow> same_on b 32 m m') \<Longrightarrow> chain m a e z bs \<Longrightarrow> chain m' a e z bs"
proof (induction bs arbitrary: a)
  case Nil
  then show ?case by simp
next
  case (Cons x xs)
  obtain b n f where x: "x = (b, n, f)" by (cases x)
  have "same_on b 32 m m'" using Cons.prems(1) [of b n f] by (simp add: x)
  note h = hdr_same [OF this]
  have "chain m' (a + 32 + n) e z xs"
  proof (rule Cons.IH)
    show "same_on b' 32 m m'" if "(b', n', f') \<in> set xs" for b' n' f'
      using Cons.prems(1) [of b' n' f'] that by simp
    show "chain m (a + 32 + n) e z xs" using Cons.prems(2) by (simp add: x)
  qed
  then show ?case using Cons.prems(2) h by (auto simp: x hdr_def)
qed

lemma chain_same_on:
  assumes "chain m a e z bs" and "same_on a (e - a) m m'"
  shows "chain m' a e z bs"
  using assms(1)
proof (rule chain_cong [rotated])
  fix b n f
  assume "(b, n, f) \<in> set bs"
  with chain_mem [OF assms(1) this] assms(2) show "same_on b 32 m m'"
    by (auto simp: same_on_def)
qed

section \<open>Best fit\<close>

text \<open>
  \<open>best_fit k bs b n\<close>: block \<open>b\<close> of size \<open>n\<close> is free, large enough for \<open>k\<close> bytes, no free
  block that is large enough is smaller, and \<open>b\<close> is the first of its size.
\<close>

definition best_fit :: "nat \<Rightarrow> blk list \<Rightarrow> addr \<Rightarrow> nat \<Rightarrow> bool" where
  "best_fit k bs b n \<longleftrightarrow> (b, n, True) \<in> set bs \<and> k \<le> n
     \<and> (\<forall>(b', n', f) \<in> set bs. f \<and> k \<le> n' \<longrightarrow> n < n' \<or> n = n' \<and> b \<le> b')"

definition no_fit :: "nat \<Rightarrow> blk list \<Rightarrow> bool" where
  "no_fit k bs \<longleftrightarrow> (\<forall>(b, n, f) \<in> set bs. f \<longrightarrow> n < k)"

lemma best_fit_Cons: "best_fit k bs b n \<Longrightarrow> (f \<and> k \<le> n' \<Longrightarrow> n < n') \<Longrightarrow> best_fit k ((b', n', f) # bs) b n"
  by (auto simp: best_fit_def)

lemma best_fit_le: "best_fit k bs b n \<Longrightarrow> (b', n', f) \<in> set bs \<Longrightarrow> f \<Longrightarrow> k \<le> n' \<Longrightarrow> n \<le> n'"
  by (fastforce simp: best_fit_def)

text \<open>The selection of the loop over the block list: \<open>best\<close> is the candidate so far and \<open>d\<close> what it wastes.
  The loop computes it, and it is the best fit.\<close>

fun pick :: "nat \<Rightarrow> nat \<Rightarrow> addr \<Rightarrow> blk list \<Rightarrow> addr" where
  "pick k d best [] = best"
| "pick k d best ((b, n, f) # bs) = (if f \<and> k \<le> n \<and> n - k < d then pick k (n - k) b bs else pick k d best bs)"

lemma find_best_fit_loop_pick:
  assumes "chain m a e 0 bs" and "0 < a" and "e \<le> 2 ^ 64"
  shows "find_best_fit_loop m sz (ptr_of bs) best md = Some (pick (unat sz) (unat md) best bs)"
  using assms
proof (induction bs arbitrary: a best md)
  case Nil
  show ?case by (simp add: find_best_fit_loop.simps)
next
  case (Cons x xs)
  obtain n f where x: "x = (a, n, f)" using Cons.prems(1) by (cases x) auto
  have c: "chain m (a + 32 + n) e 0 xs" and h: "hdr m a n f (ptr_of xs)"
    using Cons.prems(1) by (cases xs; auto simp: x)+
  have n: "unat (blk_size m a) = n" and next_a: "blk_next m a = ptr_of xs" and f: "blk_is_free m a = f"
    using h by (simp_all add: hdr_def unat_of_nat_small)
  have cond: "f \<and> unat sz \<le> n \<and> n - unat sz < unat md \<longleftrightarrow>
      blk_is_free m a \<and> sz \<le> blk_size m a \<and> blk_size m a - sz < md"
    by (auto simp: f n word_le_nat_alt word_less_nat_alt unat_sub_small)
  have d: "unat (blk_size m a - sz) = n - unat sz" if "sz \<le> blk_size m a"
    using that by (simp add: n unat_sub_small word_le_nat_alt)
  have IH: "find_best_fit_loop m sz (ptr_of xs) best' md' = Some (pick (unat sz) (unat md') best' xs)" for best' md'
    by (rule Cons.IH [OF c]) (use Cons.prems(3) in simp_all)
  show ?case
    using Cons.prems(2) by (simp add: find_best_fit_loop.simps [of m sz a] x next_a cond IH d)
qed

lemma pick_best:
  assumes "sorted_wrt (<) (map fst bs)"
  shows "if \<exists>(b, n, f) \<in> set bs. f \<and> k \<le> n \<and> n - k < d
    then \<exists>n. best_fit k bs (pick k d best bs) n \<and> n - k < d else pick k d best bs = best"
  using assms
proof (induction k d best bs rule: pick.induct)
  case (2 k d best b n f bs)
  let ?some = "\<lambda>d. \<exists>(b, n, f) \<in> set bs. f \<and> k \<le> n \<and> n - k < d"
  have later: "b < b'" if "(b', n', f') \<in> set bs" for b' n' f' using that "2.prems" by force
  have sorted: "sorted_wrt (<) (map fst bs)" using "2.prems" by simp
  show ?case
  proof (cases "f \<and> k \<le> n \<and> n - k < d")
    case True
    show ?thesis
    proof (cases "?some (n - k)")
      case better: True
      with "2.IH"(1) [OF True sorted] obtain n1 where n1: "best_fit k bs (pick k (n - k) b bs) n1" "n1 - k < n - k" by auto
      then have "n1 < n" "n1 - k < d" using True by linarith+
      with best_fit_Cons [OF n1(1), of f n b] True show ?thesis by auto
    next
      case False
      with "2.IH"(1) [OF True sorted] have "pick k (n - k) b bs = b" by (simp split: if_splits)
      moreover have "best_fit k ((b, n, f) # bs) b n" using True False later by (fastforce simp: best_fit_def)
      ultimately show ?thesis using True by auto
    qed
  next
    case False
    show ?thesis
    proof (cases "?some d")
      case True
      with "2.IH"(2) [OF False sorted] obtain n1 where n1: "best_fit k bs (pick k d best bs) n1" "n1 - k < d" by auto
      then have "k \<le> n1" by (simp add: best_fit_def)
      with False n1(2) have "f \<and> k \<le> n \<Longrightarrow> n1 < n" by auto
      from best_fit_Cons [OF n1(1) this] n1(2) False True show ?thesis by auto
    next
      case none: False
      with "2.IH"(2) [OF False sorted] False show ?thesis by auto
    qed
  qed
qed simp

lemma chain_sorted: "chain m a e z bs \<Longrightarrow> sorted_wrt (<) (map fst bs)"
proof (induction bs arbitrary: a)
  case (Cons x xs)
  obtain n f where x: "x = (a, n, f)" using Cons.prems by (cases x) auto
  have c: "chain m (a + 32 + n) e z xs" using Cons.prems by (simp add: x)
  have "a < b" if "(b, n', f') \<in> set xs" for b n' f' using chain_mem [OF c that] by simp
  with Cons.IH [OF c] show ?case by (auto simp: x)
qed simp

lemma find_best_fit_loop_chain:
  assumes "chain m a e 0 bs" and "0 < a" and "e \<le> 2 ^ 64"
  shows "\<exists>r. find_best_fit_loop m sz (ptr_of bs) best md = Some r \<and>
     (if \<exists>(b, n, f) \<in> set bs. f \<and> unat sz \<le> n \<and> n - unat sz < unat md
      then \<exists>n. best_fit (unat sz) bs r n
      else r = best)"
  using find_best_fit_loop_pick [OF assms] pick_best [OF chain_sorted [OF assms(1)], of "unat sz" "unat md" best]
  by (auto split: if_splits)

section \<open>Splitting\<close>

text \<open>What \<^verbatim>\<open>split_block\<close> and clearing the free flag do to the list.\<close>

fun take_block :: "addr \<Rightarrow> nat \<Rightarrow> blk list \<Rightarrow> blk list" where
  "take_block b k [] = []"
| "take_block b k ((b', n, f) # bs) =
     (if b' = b
      then (if k + 64 \<le> n then [(b, k, False), (b + 32 + k, n - k - 32, True)] else [(b, n, False)]) @ bs
      else (b', n, f) # take_block b k bs)"

lemma take_block_append:
  "b \<notin> fst ` set xs \<Longrightarrow> take_block b k (xs @ ys) = xs @ take_block b k ys"
  by (induction b k xs rule: take_block.induct) auto

definition take_mem :: "memory \<Rightarrow> addr \<Rightarrow> size_t \<Rightarrow> memory" where
  "take_mem m b sz = set_blk_is_free b False (split_block m b sz)"

lemma take_mem_other:
  assumes "blk_size m b = of_nat n" and "n < 2 ^ 63" and "unat sz \<le> n"
    and "x < b \<or> b + 32 + n \<le> x"
  shows "take_mem m b sz x = m x"
proof -
  have "x < b \<or> b + 32 \<le> x" using assms(4) by auto
  moreover have "x < b + 32 + unat sz \<or> b + 32 + unat sz + 32 \<le> x"
    if "sz + 64 \<le> blk_size m b"
  proof -
    have "unat sz + 64 \<le> n"
      using that assms(1,2,3) by (simp add: word_le_nat_alt unat_of_nat_small unat_add_small)
    with assms(4) show ?thesis by auto
  qed
  ultimately show ?thesis
    by (simp add: take_mem_def split_block_def sizeof_block_def Let_def frames add.assoc)
qed

lemma split_cond:
  "blk_size m b = of_nat n \<Longrightarrow> n < 2 ^ 63 \<Longrightarrow> unat sz \<le> n \<Longrightarrow>
   sz + of_nat sizeof_block + 32 \<le> blk_size m b \<longleftrightarrow> unat sz + 64 \<le> n"
  by (simp add: word_le_nat_alt unat_of_nat_small unat_add_small sizeof_block_def add.assoc)

lemma take_mem_hdr:
  assumes h: "hdr m b n f q" and n: "n < 2 ^ 63" "unat sz \<le> n" and e: "b + 32 + n < 2 ^ 64"
  shows "chain (take_mem m b sz) b (b + 32 + n) q (take_block b (unat sz) [(b, n, f)])"
proof (cases "unat sz + 64 \<le> n")
  case False
  then show ?thesis using h n split_cond [of m b n sz]
    by (simp add: take_mem_def split_block_def hdr_def)
next
  case True
  let ?nb = "b + 32 + unat sz"
  from h have sz: "blk_size m b = of_nat n" by (simp add: hdr_def)
  have rest: "of_nat n - sz - 32 = (of_nat (n - unat sz - 32) :: size_t)"
    using True n by simp
  have small: "n - unat sz - 32 < 2 ^ 64" using n by simp
  have q: "q < 2 ^ 64" using h rd_ptr_less by (auto simp: hdr_def blk_next_def)
  have apart: "b + 32 \<le> ?nb" by simp
  from True show ?thesis using h n e apart small q split_cond [OF sz n]
    by (simp add: take_mem_def split_block_def hdr_def sizeof_block_def Let_def rest)
qed

lemma chain_take:
  assumes c: "chain m a e z bs" and b: "(b, n, f) \<in> set bs"
    and n: "n < 2 ^ 63" "unat sz \<le> n" and e: "e < 2 ^ 64"
  shows "chain (take_mem m b sz) a e z (take_block b (unat sz) bs)"
proof -
  from b obtain xs ys where bs: "bs = xs @ (b, n, f) # ys" by (meson split_list)
  let ?q = "if ys = [] then z else b + 32 + n"
  from c have c1: "chain m a b b xs" and h: "hdr m b n f ?q" and c2: "chain m (b + 32 + n) e z ys"
    by (auto simp: bs chain_append)
  have sz: "blk_size m b = of_nat n" using h by (simp add: hdr_def)
  note other = take_mem_other [OF sz n]
  have e1: "b + 32 + n \<le> e" using chain_le [OF c2] .
  have "chain (take_mem m b sz) a b b xs"
    by (rule chain_same_on [OF c1]) (use chain_le [OF c1] in \<open>auto simp: same_on_def other\<close>)
  moreover have "chain (take_mem m b sz) (b + 32 + n) e z ys"
    by (rule chain_same_on [OF c2]) (auto simp: same_on_def other)
  moreover define mid where "mid = take_block b (unat sz) [(b, n, f)]"
  then have "mid \<noteq> []" and "chain (take_mem m b sz) b (b + 32 + n) ?q mid"
    using take_mem_hdr [OF h n] e1 e by auto
  moreover have "b \<notin> fst ` set xs" using chain_mem [OF c1] by force
  then have "take_block b (unat sz) bs = xs @ mid @ ys"
    by (simp add: bs take_block_append mid_def)
  ultimately show ?thesis by (cases "ys = []") (auto simp: chain_append)
qed

section \<open>Merging\<close>

fun coalesce :: "blk list \<Rightarrow> blk list" where
  "coalesce [] = []"
| "coalesce [x] = [x]"
| "coalesce ((b, n, f) # (b', n', f') # bs) =
     (if f \<and> f' then coalesce ((b, n + 32 + n', True) # bs)
      else (b, n, f) # coalesce ((b', n', f') # bs))"

lemma coalesce_Nil_iff [simp]: "coalesce bs = [] \<longleftrightarrow> bs = []"
  by (induction bs rule: coalesce.induct) auto

text \<open>\<open>hdr_frame\<close>: bytes outside headers, and the flag and magic of every header, are kept.\<close>

definition hdr_frame :: "blk list \<Rightarrow> memory \<Rightarrow> memory \<Rightarrow> bool" where
  "hdr_frame bs m m' \<longleftrightarrow>
     (\<forall>x. (\<forall>(b, n, f) \<in> set bs. x < b \<or> b + 32 \<le> x) \<longrightarrow> m' x = m x) \<and>
     (\<forall>(b, n, f) \<in> set bs. blk_is_free m' b = blk_is_free m b \<and> blk_magic m' b = blk_magic m b)"

lemma hdr_frame_refl: "hdr_frame bs m m"
  by (simp add: hdr_frame_def)

lemma hdr_frame_absorb:
  assumes fr: "hdr_frame ((a, k, True) # bs) m1 m'"
    and out: "\<And>x. x < a \<or> a + 32 \<le> x \<Longrightarrow> m1 x = m x"
    and own: "blk_is_free m1 a = blk_is_free m a" "blk_magic m1 a = blk_magic m a"
    and later: "\<And>d l g. (d, l, g) \<in> set bs \<Longrightarrow> c + 32 \<le> d"
    and c: "a + 32 \<le> c"
  shows "hdr_frame ((a, n, f) # (c, n', f') # bs) m m'"
proof -
  have bytes: "m' x = m x" if "x < a \<or> a + 32 \<le> x" "\<forall>(b, n, f) \<in> set bs. x < b \<or> b + 32 \<le> x" for x
    using fr that out by (simp add: hdr_frame_def)
  have "same_on c 32 m m'"
    unfolding same_on_def
  proof (intro allI impI bytes; clarify?)
    fix x d l g
    assume "c \<le> x" "x < c + 32" "(d, l, g) \<in> set bs" "\<not> d + 32 \<le> x"
    with later show "x < d" by fastforce
  qed (use c in auto)
  note at_c = hdr_same [OF this]
  have "blk_is_free m' d = blk_is_free m d \<and> blk_magic m' d = blk_magic m d" if "(d, l, g) \<in> set bs" for d l g
  proof -
    have "same_on d 32 m m1" using later [OF that] c out by (auto simp: same_on_def)
    note hdr_same [OF this]
    with fr that show ?thesis by (auto simp: hdr_frame_def)
  qed
  with bytes at_c fr own show ?thesis by (auto simp: hdr_frame_def)
qed

text \<open>The two kinds of round: absorb the next block, or go on to it.\<close>

lemma merge_absorb:
  assumes c: "chain m a e 0 ((a, n, True) # (a + 32 + n, n', True) # bs)" and a: "0 < a" "e \<le> 2 ^ 64"
  defines "m1 \<equiv> set_blk_next a (ptr_of bs) (set_blk_size a (of_nat (n + 32 + n')) m)"
  shows "merge_loop a m = merge_loop a m1" and "chain m1 a e 0 ((a, n + 32 + n', True) # bs)"
    and "hdr_frame ((a, n + 32 + n', True) # bs) m1 m' \<Longrightarrow> hdr_frame ((a, n, True) # (a + 32 + n, n', True) # bs) m m'"
proof -
  let ?c = "a + 32 + n"
  have h: "hdr m a n True ?c" and h': "hdr m ?c n' True (ptr_of bs)" and c': "chain m (?c + 32 + n') e 0 bs"
    using c by (cases bs; auto)+
  have q: "ptr_of bs < 2 ^ 64" using h' rd_ptr_less [of m "?c + 16"] by (simp add: hdr_def blk_next_def)
  show "merge_loop a m = merge_loop a m1"
    using h h' a(1) by (subst merge_loop.simps) (simp add: m1_def hdr_def sizeof_block_def ac_simps)
  have other: "m1 x = m x" if "x < a \<or> a + 32 \<le> x" for x using that by (simp add: m1_def frames)
  have "chain m1 (?c + 32 + n') e 0 bs" by (rule chain_same_on [OF c']) (auto simp: same_on_def other)
  moreover have "hdr m1 a (n + 32 + n') True (ptr_of bs)"
    using h q chain_le [OF c'] a(2) by (simp add: m1_def hdr_def)
  ultimately show "chain m1 a e 0 ((a, n + 32 + n', True) # bs)" using c by (cases bs) (auto simp: ac_simps)
  show "hdr_frame ((a, n, True) # (?c, n', True) # bs) m m'" if "hdr_frame ((a, n + 32 + n', True) # bs) m1 m'"
  proof (rule hdr_frame_absorb [OF that])
    show "m1 x = m x" if "x < a \<or> a + 32 \<le> x" for x using that other by simp
    show "blk_is_free m1 a = blk_is_free m a" "blk_magic m1 a = blk_magic m a" by (simp_all add: m1_def)
    show "?c + 32 \<le> d" if "(d, k, g) \<in> set bs" for d k g using chain_mem [OF c' that] by simp
  qed simp_all
qed

lemma merge_keep:
  assumes h: "hdr m a n f (a + 32 + n)" and m': "chain m' (a + 32 + n) e 0 bs'" "bs' \<noteq> []"
    and fr: "hdr_frame bs m m'" and later: "\<And>d k g. (d, k, g) \<in> set bs \<Longrightarrow> a + 32 \<le> d"
  shows "chain m' a e 0 ((a, n, f) # bs')" and "hdr_frame ((a, n, f) # bs) m m'"
proof -
  have "m' x = m x" if "x < a + 32" for x
  proof -
    have "\<forall>(d, k, g) \<in> set bs. x < d \<or> d + 32 \<le> x" using later that by (auto intro: order_less_le_trans)
    with fr show ?thesis by (simp add: hdr_frame_def)
  qed
  then have same: "same_on a 32 m m'" by (simp add: same_on_def)
  show "chain m' a e 0 ((a, n, f) # bs')" using m' h hdr_same [OF same] by (cases bs') (auto simp: hdr_def)
  show "hdr_frame ((a, n, f) # bs) m m'" using fr hdr_same [OF same] by (auto simp: hdr_frame_def)
qed

lemma merge_loop_chain:
  assumes "chain m a e 0 bs" and "0 < a" and "e \<le> 2 ^ 64"
  shows "\<exists>m'. merge_loop (ptr_of bs) m = Some m' \<and> chain m' a e 0 (coalesce bs) \<and> hdr_frame bs m m'"
  using assms
proof (induction bs arbitrary: a m rule: coalesce.induct)
  case 1
  then show ?case by (simp add: merge_loop.simps hdr_frame_refl)
next
  case (2 x)
  then show ?case
    by (cases x) (auto simp: merge_loop.simps [of _ m] hdr_def hdr_frame_refl)
next
  case (3 b n f b' n' f' bs)
  have b [simp]: "b = a" "b' = a + 32 + n" using "3.prems"(1) by auto
  show ?case
  proof (cases "f \<and> f'")
    case True
    then have "chain m a e 0 ((a, n, True) # (a + 32 + n, n', True) # bs)" using "3.prems"(1) by simp
    note ab = merge_absorb [OF this "3.prems"(2,3)]
    from "3.IH"(1) [OF True _ "3.prems"(2,3)] ab(2) obtain m' where
      m': "merge_loop a (set_blk_next a (ptr_of bs) (set_blk_size a (of_nat (n + 32 + n')) m)) = Some m'"
        "chain m' a e 0 (coalesce ((a, n + 32 + n', True) # bs))"
        "hdr_frame ((a, n + 32 + n', True) # bs) (set_blk_next a (ptr_of bs) (set_blk_size a (of_nat (n + 32 + n')) m)) m'"
      by auto
    with ab(1) ab(3) [OF m'(3)] True show ?thesis by simp
  next
    case False
    have h: "hdr m a n f (a + 32 + n)" and f': "blk_is_free m (a + 32 + n) = f'"
      and c': "chain m (a + 32 + n) e 0 ((b', n', f') # bs)"
      using "3.prems"(1) by (cases bs; auto simp: hdr_def)+
    have step: "merge_loop a m = merge_loop (a + 32 + n) m"
      using "3.prems"(2) False h f' by (subst merge_loop.simps) (auto simp: hdr_def)
    from "3.IH"(2) [OF False c' _ "3.prems"(3)] obtain m' where
      m': "merge_loop (a + 32 + n) m = Some m'" "chain m' (a + 32 + n) e 0 (coalesce ((b', n', f') # bs))"
      "hdr_frame ((b', n', f') # bs) m m'" by auto
    have later: "a + 32 \<le> d" if "(d, k, g) \<in> set ((b', n', f') # bs)" for d k g
      using chain_mem [OF c' that] by simp
    have "coalesce ((b', n', f') # bs) \<noteq> []" by (cases bs) (auto split: if_splits)
    from merge_keep [OF h m'(2) this m'(3) later] step m'(1) False show ?thesis by auto
  qed
qed

end
