(* ===== verification/Heap_Inv.thy ===== *)
theory Heap_Inv imports Heap_Blocks begin

text \<open>
  The invariant of the heap and its preservation: \<open>heap_ok s bs\<close> says that the heap of \<open>s\<close> is
  the block list \<open>bs\<close>, with no two free blocks next to each other, sizes that are multiples of
  four, and the accounting statistics in step with the list. \<open>heap_blocks\<close> computes the list
  from the state, \<open>heap_inv\<close> is the invariant as a predicate of the state alone.
\<close>

section \<open>Lists without adjacent free blocks\<close>

definition hd_free :: "blk list \<Rightarrow> bool" where
  "hd_free bs = (case bs of [] \<Rightarrow> False | (_, _, f) # _ \<Rightarrow> f)"

lemma hd_free_simps [simp]: "\<not> hd_free []" "hd_free ((b, n, f) # bs) = f"
  by (simp_all add: hd_free_def)

fun separated :: "blk list \<Rightarrow> bool" where
  "separated [] \<longleftrightarrow> True"
| "separated ((b, n, f) # bs) \<longleftrightarrow> \<not> (f \<and> hd_free bs) \<and> separated bs"

lemma hd_free_coalesce [simp]: "hd_free (coalesce bs) = hd_free bs"
  by (induction bs rule: coalesce.induct) auto

lemma separated_coalesce: "separated (coalesce bs)"
proof (induction bs rule: coalesce.induct)
  case (2 x)
  then show ?case by (cases x) simp
qed auto

lemma coalesce_separated: "separated bs \<Longrightarrow> coalesce bs = bs"
  by (induction bs rule: coalesce.induct) auto

lemma hd_free_take: "hd_free (take_block b k bs) \<Longrightarrow> hd_free bs"
  by (cases "(b, k, bs)" rule: take_block.cases) (auto split: if_splits)

lemma separated_take:
  "separated bs \<Longrightarrow> (b, n, True) \<in> set bs \<Longrightarrow> distinct (map fst bs) \<Longrightarrow> separated (take_block b k bs)"
  by (induction b k bs rule: take_block.induct) (auto dest: hd_free_take simp: image_iff split_beta)

section \<open>Bytes in allocated blocks\<close>

fun alloc_total :: "blk list \<Rightarrow> nat" where
  "alloc_total [] = 0"
| "alloc_total ((b, n, f) # bs) = (if f then 0 else n + 32) + alloc_total bs"

definition set_free :: "addr \<Rightarrow> blk list \<Rightarrow> blk list" where
  "set_free b bs = map (\<lambda>(b', n, f). (b', n, f \<or> b' = b)) bs"

lemma set_free_simps [simp]:
  "set_free b [] = []"
  "set_free b ((b', n, f) # bs) = (b', n, f \<or> b' = b) # set_free b bs"
  "set_free b bs = [] \<longleftrightarrow> bs = []"
  "map fst (set_free b bs) = map fst bs"
  by (auto simp: set_free_def comp_def split_beta)

lemma set_free_id: "b \<notin> fst ` set bs \<Longrightarrow> set_free b bs = bs"
  by (induction bs) auto

lemma alloc_total_coalesce: "alloc_total (coalesce bs) = alloc_total bs"
  by (induction bs rule: coalesce.induct) auto

lemma alloc_total_free:
  "(b, n, False) \<in> set bs \<Longrightarrow> distinct (map fst bs) \<Longrightarrow>
   alloc_total bs = alloc_total (set_free b bs) + n + 32"
proof (induction bs)
  case (Cons x bs)
  then show ?case
    by (cases x) (auto simp: set_free_id image_iff split_beta)
qed simp

lemma alloc_total_take:
  "(b, n, True) \<in> set bs \<Longrightarrow> distinct (map fst bs) \<Longrightarrow>
   alloc_total (take_block b k bs) = alloc_total bs + (if k + 64 \<le> n then k else n) + 32"
  by (induction b k bs rule: take_block.induct) (auto simp: image_iff split_beta)

definition aligned :: "blk list \<Rightarrow> bool" where
  "aligned bs \<longleftrightarrow> (\<forall>(b, n, f) \<in> set bs. 4 dvd n)"

lemma aligned_simps [simp]:
  "aligned []"
  "aligned ((b, n, f) # bs) \<longleftrightarrow> 4 dvd n \<and> aligned bs"
  by (auto simp: aligned_def)

lemma aligned_coalesce: "aligned bs \<Longrightarrow> aligned (coalesce bs)"
  by (induction bs rule: coalesce.induct) (auto intro!: dvd_add)

lemma aligned_set_free: "aligned bs \<Longrightarrow> aligned (set_free b bs)"
  by (induction bs) auto

lemma aligned_take: "aligned bs \<Longrightarrow> 4 dvd k \<Longrightarrow> aligned (take_block b k bs)"
  by (induction b k bs rule: take_block.induct) (auto intro!: dvd_diff_nat)

section \<open>Setting the free flag\<close>

lemma chain_distinct: "chain m a e z bs \<Longrightarrow> distinct (map fst bs)"
proof (induction bs arbitrary: a)
  case (Cons x xs)
  obtain b n f where x: "x = (b, n, f)" by (cases x)
  from Cons.prems have c: "chain m (a + 32 + n) e z xs" and b: "b = a" by (simp_all add: x)
  have "a \<notin> fst ` set xs" using chain_mem [OF c] by fastforce
  with Cons.IH [OF c] b show ?case by (simp add: x)
qed simp

lemma chain_set_free:
  "chain m a e z bs \<Longrightarrow> b \<in> fst ` set bs \<Longrightarrow> chain (set_blk_is_free b True m) a e z (set_free b bs)"
proof (induction bs arbitrary: a)
  case (Cons x xs)
  obtain b' n f where x: "x = (b', n, f)" by (cases x)
  from Cons.prems(1) have c: "chain m (a + 32 + n) e z xs"
    and h: "hdr m a n f (if xs = [] then z else a + 32 + n)" and b': "b' = a" by (simp_all add: x)
  show ?case
  proof (cases "b = a")
    case True
    have "b \<notin> fst ` set xs" using chain_mem [OF c] True by fastforce
    moreover have "chain (set_blk_is_free b True m) (a + 32 + n) e z xs"
      by (rule chain_same_on [OF c]) (auto simp: same_on_def frames True)
    ultimately show ?thesis using h True by (simp add: x b' set_free_id hdr_def)
  next
    case False
    then have "b \<in> fst ` set xs" using Cons.prems(2) by (simp add: x b')
    moreover from this have "a + 32 \<le> b" using chain_mem [OF c] by fastforce
    ultimately show ?thesis using h Cons.IH [OF c] False by (auto simp: x b' hdr_def)
  qed
qed simp

section \<open>The invariant\<close>

text \<open>
  The statistics the allocator keeps: used bytes are the first header plus every allocated block
  with its header, and used and free bytes add up to the size of the heap.
\<close>

definition stats_ok :: "memory_stats \<Rightarrow> blk list \<Rightarrow> bool" where
  "stats_ok st bs \<longleftrightarrow> used_heap_size st = of_nat (32 + alloc_total bs)
     \<and> used_heap_size st + free_heap_size st = of_nat HEAP_SIZE
     \<and> total_heap_size st = of_nat HEAP_SIZE"

definition heap_ok :: "heap_state \<Rightarrow> blk list \<Rightarrow> bool" where
  "heap_ok s bs \<longleftrightarrow> memory_initialized s \<and> 0 < heap_memory s
     \<and> heap_memory s + HEAP_SIZE < 2 ^ 64 \<and> heap_head s = heap_memory s \<and> bs \<noteq> []
     \<and> chain (mem s) (heap_memory s) (heap_memory s + HEAP_SIZE) 0 bs
     \<and> separated bs \<and> aligned bs \<and> stats_ok (global_stats s) bs"

text \<open>The list computed from the state; 2048 headers fill the whole array.\<close>

fun walk :: "nat \<Rightarrow> memory \<Rightarrow> addr \<Rightarrow> blk list" where
  "walk 0 m p = []"
| "walk (Suc k) m p =
     (if p = NULL then [] else (p, unat (blk_size m p), blk_is_free m p) # walk k m (blk_next m p))"

definition heap_blocks :: "heap_state \<Rightarrow> blk list" where
  "heap_blocks s = walk 2048 (mem s) (heap_head s)"

definition heap_inv :: "heap_state \<Rightarrow> bool" where
  "heap_inv s \<longleftrightarrow> heap_ok s (heap_blocks s)"

lemma chain_length: "chain m a e z bs \<Longrightarrow> 32 * length bs \<le> e - a"
proof (induction bs arbitrary: a)
  case (Cons x xs)
  obtain b n f where x: "x = (b, n, f)" by (cases x)
  from Cons.prems have c: "chain m (a + 32 + n) e z xs" by (simp add: x)
  from Cons.IH [OF c] chain_le [OF c] show ?case by (simp add: x)
qed simp

lemma walk_chain: "chain m a e 0 bs \<Longrightarrow> 0 < a \<Longrightarrow> length bs \<le> k \<Longrightarrow> walk k m (ptr_of bs) = bs"
proof (induction bs arbitrary: a k)
  case Nil
  then show ?case by (cases k) auto
next
  case (Cons x xs)
  obtain b n f where x: "x = (b, n, f)" by (cases x)
  obtain k' where k: "k = Suc k'" using Cons.prems(3) by (cases k) auto
  from Cons.prems have c: "chain m (a + 32 + n) e 0 xs" and h: "hdr m a n f (ptr_of xs)" and b: "b = a"
    by (cases xs; auto simp: x)+
  from Cons.IH [OF c, of k'] h Cons.prems(2,3) show ?case
    by (simp add: x k b hdr_def unat_of_nat_small)
qed

lemma heap_ok_ptr: "heap_ok s bs \<Longrightarrow> heap_head s = ptr_of bs"
  by (cases bs) (auto simp: heap_ok_def)

lemma heap_ok_blocks: "heap_ok s bs \<Longrightarrow> heap_blocks s = bs"
proof -
  assume ok: "heap_ok s bs"
  then have c: "chain (mem s) (heap_memory s) (heap_memory s + HEAP_SIZE) 0 bs" and "0 < heap_memory s"
    by (simp_all add: heap_ok_def)
  moreover have "length bs \<le> 2048" using chain_length [OF c] by (simp add: HEAP_SIZE_def)
  ultimately show ?thesis
    unfolding heap_blocks_def heap_ok_ptr [OF ok] by (rule walk_chain)
qed

lemma heap_inv_iff: "heap_inv s \<longleftrightarrow> (\<exists>bs. heap_ok s bs)"
  using heap_ok_blocks by (auto simp: heap_inv_def)

lemma heap_ok_mem:
  assumes "heap_ok s bs" and "(b, n, f) \<in> set bs"
  shows "heap_memory s \<le> b" "b + 32 + n \<le> heap_memory s + HEAP_SIZE" "n < 2 ^ 63" "0 < b"
    "blk_size (mem s) b = of_nat n" "blk_is_free (mem s) b = f" "blk_magic (mem s) b = MEMORY_MAGIC"
  using chain_mem [of "mem s" "heap_memory s" "heap_memory s + HEAP_SIZE" 0 bs b n f] assms
  by (auto simp: heap_ok_def HEAP_SIZE_def)

lemma heap_ok_chain: "heap_ok s bs \<Longrightarrow> chain (mem s) (heap_memory s) (heap_memory s + HEAP_SIZE) 0 bs"
  by (simp add: heap_ok_def)

lemma heap_ok_distinct: "heap_ok s bs \<Longrightarrow> distinct (map fst bs)"
  using chain_distinct heap_ok_chain by blast

text \<open>Blocks of a heap do not overlap.\<close>

lemma chain_disjoint:
  "chain m a e z bs \<Longrightarrow> (b, n, f) \<in> set bs \<Longrightarrow> (c, k, g) \<in> set bs \<Longrightarrow>
   (b, n, f) = (c, k, g) \<or> b + 32 + n \<le> c \<or> c + 32 + k \<le> b"
proof (induction bs arbitrary: a)
  case (Cons x xs)
  obtain b' n' f' where x: "x = (b', n', f')" by (cases x)
  from Cons.prems(1) have c: "chain m (a + 32 + n') e z xs" and b': "b' = a" by (simp_all add: x)
  from Cons.prems(2,3) Cons.IH [OF c] chain_mem [OF c] show ?case
    by (auto simp: x b')
qed simp

lemmas heap_ok_disjoint = chain_disjoint [OF heap_ok_chain]

section \<open>Rounding up\<close>

lemma unat_align_size_eq: "unat (align_size w) = unat (w + 3) div 4 * 4"
proof -
  have "align_size w = (w + 3) AND NOT (mask 2)"
    by (simp add: align_size_def mask_eq_exp_minus_1)
  then show ?thesis by (simp add: unat_and_not_mask)
qed

lemma align_size_dvd: "4 dvd unat (align_size w)"
  by (simp add: unat_align_size_eq)

lemma unat_align_size:
  assumes "unat w \<le> 2 ^ 64 - 4"
  shows "unat (align_size w) = (unat w + 3) div 4 * 4"
  using assms by (simp add: unat_align_size_eq unat_add_small)

end
