(* ===== verification/Heap_Correct.thy ===== *)
theory Heap_Correct imports Heap_Inv begin

text \<open>
  Correctness of the allocator: on a well-formed heap every operation returns (its loops end),
  keeps the invariant, and acts on the block list as its specification says; the bytes of blocks
  it was not asked about are not touched.
\<close>

section \<open>Initialisation\<close>

definition fresh_heap :: "heap_state \<Rightarrow> bool" where
  "fresh_heap s \<longleftrightarrow> \<not> memory_initialized s \<and> 0 < heap_memory s \<and> heap_memory s + HEAP_SIZE < 2 ^ 64"

lemma memory_init_ok:
  assumes "fresh_heap s"
  shows "heap_ok (memory_init s) [(heap_memory s, HEAP_SIZE - 32, True)]"
  using assms
  by (simp add: fresh_heap_def memory_init_def heap_ok_def hdr_def Let_def sizeof_block_def
      HEAP_SIZE_def stats_ok_def)

lemma memory_init_again: "memory_initialized s \<Longrightarrow> memory_init s = s"
  by (simp add: memory_init_def)

section \<open>malloc\<close>

lemma find_best_fit_ok:
  assumes ok: "heap_ok s bs"
  shows "\<exists>r. find_best_fit s sz = Some r \<and>
     (if no_fit (unat sz) bs then r = NULL else \<exists>n. best_fit (unat sz) bs r n)"
proof -
  have "\<exists>r. find_best_fit_loop (mem s) sz (ptr_of bs) NULL SIZE_MAX = Some r \<and>
     (if \<exists>(b, n, f) \<in> set bs. f \<and> unat sz \<le> n \<and> n - unat sz < unat SIZE_MAX
      then \<exists>n. best_fit (unat sz) bs r n else r = NULL)"
    by (rule find_best_fit_loop_chain [OF heap_ok_chain [OF ok]])
      (use ok in \<open>simp_all add: heap_ok_def\<close>)
  moreover have "(\<exists>(b, n, f) \<in> set bs. f \<and> unat sz \<le> n \<and> n - unat sz < unat SIZE_MAX)
      \<longleftrightarrow> \<not> no_fit (unat sz) bs"
  proof -
    have "n - unat sz < unat SIZE_MAX" if "(b, n, f) \<in> set bs" for b n f
      using heap_ok_mem(3) [OF ok that] by (simp add: SIZE_MAX_def)
    then show ?thesis by (fastforce simp: no_fit_def not_less)
  qed
  ultimately show ?thesis
    unfolding find_best_fit_def heap_ok_ptr [OF ok] by (cases "no_fit (unat sz) bs") auto
qed

text \<open>The state after taking block \<open>b\<close> for an aligned request.\<close>

definition malloc_state :: "heap_state \<Rightarrow> addr \<Rightarrow> size_t \<Rightarrow> heap_state" where
  "malloc_state s b sz =
     s\<lparr>mem := take_mem (mem s) b sz,
       global_stats := count_alloc (blk_size (take_mem (mem s) b sz) b) (global_stats s)\<rparr>"

lemma take_block_mem:
  "(b, n, True) \<in> set bs \<Longrightarrow> distinct (map fst bs) \<Longrightarrow>
   (b, if k + 64 \<le> n then k else n, False) \<in> set (take_block b k bs)"
  by (induction b k bs rule: take_block.induct) (auto simp: image_iff split_beta)

lemma stats_ok_alloc:
  "stats_ok st bs \<Longrightarrow> alloc_total bs' = alloc_total bs + k + 32 \<Longrightarrow> stats_ok (count_alloc (of_nat k) st) bs'"
  by (auto simp: stats_ok_def count_alloc_def sizeof_block_def algebra_simps)

lemma stats_ok_free:
  "stats_ok st bs \<Longrightarrow> alloc_total bs = alloc_total bs' + k + 32 \<Longrightarrow> stats_ok (count_free (of_nat k) st) bs'"
  by (auto simp: stats_ok_def count_free_def sizeof_block_def algebra_simps)

lemma heap_ok_stats: "heap_ok s bs \<Longrightarrow> stats_ok (global_stats s) bs"
  by (simp add: heap_ok_def)

lemma malloc_state_ok:
  assumes ok: "heap_ok s bs" and fit: "best_fit (unat sz) bs b n" and al: "4 dvd unat sz"
  shows "heap_ok (malloc_state s b sz) (take_block b (unat sz) bs)"
proof -
  let ?k = "unat sz" and ?m = "take_mem (mem s) b sz"
  have b: "(b, n, True) \<in> set bs" and k: "?k \<le> n" using fit by (auto simp: best_fit_def)
  note d = heap_ok_distinct [OF ok] and n = heap_ok_mem(3) [OF ok b]
  have c: "chain ?m (heap_memory s) (heap_memory s + HEAP_SIZE) 0 (take_block b ?k bs)"
    by (rule chain_take [OF heap_ok_chain [OF ok] b n k]) (use ok in \<open>simp add: heap_ok_def\<close>)
  have sz: "blk_size ?m b = of_nat (if ?k + 64 \<le> n then ?k else n)"
    using chain_mem [OF c take_block_mem [OF b d]] by simp
  have ne: "take_block b ?k bs \<noteq> []" using take_block_mem [OF b d, of ?k] by auto
  have "stats_ok (count_alloc (blk_size ?m b) (global_stats s)) (take_block b ?k bs)"
    unfolding sz by (rule stats_ok_alloc [OF heap_ok_stats [OF ok]]) (simp add: alloc_total_take [OF b d])
  then show ?thesis
    using ok c ne b d al
    by (simp add: heap_ok_def malloc_state_def separated_take aligned_take)
qed

lemma rtos_malloc_cases:
  assumes ok: "heap_ok s bs" and "size0 \<noteq> 0"
  obtains (none) "no_fit (unat (align_size size0)) bs" "rtos_malloc s size0 = Some (s, NULL)"
  | (some) b n where "best_fit (unat (align_size size0)) bs b n"
      "rtos_malloc s size0 = Some (malloc_state s b (align_size size0), b + 32)"
proof -
  have init: "memory_initialized s" using ok by (simp add: heap_ok_def)
  from find_best_fit_ok [OF ok, of "align_size size0"] obtain r where
    r: "find_best_fit s (align_size size0) = Some r"
    and spec: "if no_fit (unat (align_size size0)) bs then r = NULL
      else \<exists>n. best_fit (unat (align_size size0)) bs r n" by auto
  show thesis
  proof (cases "no_fit (unat (align_size size0)) bs")
    case True
    then show thesis using none spec r init assms(2) by (simp add: rtos_malloc_def)
  next
    case False
    with spec obtain n where n: "best_fit (unat (align_size size0)) bs r n" by auto
    then have "0 < r" using heap_ok_mem(4) [OF ok] by (auto simp: best_fit_def)
    then show thesis using some [OF n] r init assms(2)
      by (simp add: rtos_malloc_def Let_def malloc_state_def take_mem_def sizeof_block_def)
  qed
qed

section \<open>free\<close>

definition free_list :: "addr \<Rightarrow> blk list \<Rightarrow> blk list" where
  "free_list b bs = coalesce (set_free b bs)"

lemma rtos_free_ok:
  assumes ok: "heap_ok s bs" and b: "(b, n, False) \<in> set bs"
  obtains s' where "rtos_free s (b + 32) = Some s'" "heap_ok s' (free_list b bs)"
    "hdr_frame bs (set_blk_is_free b True (mem s)) (mem s')" "heap_memory s' = heap_memory s"
proof -
  let ?m = "set_blk_is_free b True (mem s)"
  have init: "memory_initialized s" using ok by (simp add: heap_ok_def)
  note at_b = heap_ok_mem [OF ok b]
  have "b \<in> fst ` set bs" using b by force
  from chain_set_free [OF heap_ok_chain [OF ok] this]
  have c: "chain ?m (heap_memory s) (heap_memory s + HEAP_SIZE) 0 (set_free b bs)" .
  have head: "heap_head s = ptr_of (set_free b bs)"
    using heap_ok_ptr [OF ok] by (cases bs) auto
  from merge_loop_chain [OF c] ok obtain m' where
    m': "merge_loop (ptr_of (set_free b bs)) ?m = Some m'"
      "chain m' (heap_memory s) (heap_memory s + HEAP_SIZE) 0 (free_list b bs)"
    and fr: "hdr_frame (set_free b bs) ?m m'"
    by (auto simp: heap_ok_def free_list_def)
  define s' where "s' = s\<lparr>mem := m', global_stats := count_free (of_nat n) (global_stats s)\<rparr>"
  have run: "rtos_free s (b + 32) = Some s'"
    using init at_b m'(1)
    by (simp add: rtos_free_def sizeof_block_def Let_def merge_free_blocks_def head s'_def)
  have "alloc_total bs = alloc_total (free_list b bs) + n + 32"
    using alloc_total_free [OF b heap_ok_distinct [OF ok]]
    by (simp add: free_list_def alloc_total_coalesce)
  then have "stats_ok (count_free (of_nat n) (global_stats s)) (free_list b bs)"
    by (rule stats_ok_free [OF heap_ok_stats [OF ok]])
  then have ok': "heap_ok s' (free_list b bs)"
    using ok m'(2)
    by (simp add: heap_ok_def s'_def free_list_def separated_coalesce aligned_coalesce aligned_set_free)
  have "hdr_frame bs ?m m'"
    using fr by (simp add: hdr_frame_def set_free_def split_beta)
  with run ok' show thesis by (intro that [of s']) (simp_all add: s'_def)
qed

end
