(* ===== verification/Allocator.thy ===== *)
theory Allocator imports Address_Space "HOL-Library.Monad_Syntax" begin

text \<open>
  The contract between the heap and its clients. A client sees a map from the pointers it holds
  to the sizes of their blocks (\<open>live\<close>), the memory, and three operations; what it may rely on
  are the laws below. The message queues, semaphores, mutexes, pools and drivers are proved
  against this interface only.
\<close>

section \<open>The interface\<close>

text \<open>\<open>inside p k f\<close>: the memory transformer \<open>f\<close> writes only the \<open>k\<close> bytes from \<open>p\<close> on.\<close>

definition inside :: "addr \<Rightarrow> nat \<Rightarrow> (memory \<Rightarrow> memory) \<Rightarrow> bool" where
  "inside p k f \<longleftrightarrow> (\<forall>m x. x < p \<or> p + k \<le> x \<longrightarrow> f m x = m x)"

lemma inside_comp: "inside p k f \<Longrightarrow> inside p k g \<Longrightarrow> inside p k (\<lambda>m. f (g m))"
  by (simp add: inside_def)

lemma inside_mono: "inside q l f \<Longrightarrow> p \<le> q \<Longrightarrow> q + l \<le> p + k \<Longrightarrow> inside p k f"
  by (auto simp: inside_def)

lemma inside_writes [intro]:
  "p \<le> a \<Longrightarrow> a + 8 \<le> p + k \<Longrightarrow> inside p k (\<lambda>m. wr_size m a v)"
  "p \<le> a \<Longrightarrow> a + 4 \<le> p + k \<Longrightarrow> inside p k (\<lambda>m. wr_u32 m a w)"
  "p \<le> a \<Longrightarrow> a + 1 \<le> p + k \<Longrightarrow> inside p k (\<lambda>m. wr_bool m a b)"
  "p \<le> a \<Longrightarrow> a + 8 \<le> p + k \<Longrightarrow> inside p k (\<lambda>m. wr_ptr m a q)"
  by (auto simp: inside_def frames)

locale allocator =
  fixes malloc :: "'s \<Rightarrow> size_t \<Rightarrow> ('s \<times> addr) option"
    and free :: "'s \<Rightarrow> addr \<Rightarrow> 's option"
    and live :: "'s \<Rightarrow> addr \<Rightarrow> nat option"
    and memory_of :: "'s \<Rightarrow> memory"
    and store :: "(memory \<Rightarrow> memory) \<Rightarrow> 's \<Rightarrow> 's"
    and invar :: "'s \<Rightarrow> bool"
  assumes malloc_total: "invar s \<Longrightarrow> malloc s n \<noteq> None"
    and malloc_null: "malloc s n = Some (s', 0) \<Longrightarrow> invar s \<Longrightarrow> s' = s"
    and malloc_zero: "malloc s 0 = Some (s, 0)"
    and malloc_invar: "malloc s n = Some (s', p) \<Longrightarrow> invar s \<Longrightarrow> invar s'"
    and malloc_live: "malloc s n = Some (s', p) \<Longrightarrow> invar s \<Longrightarrow> p \<noteq> 0 \<Longrightarrow>
          live s p = None \<and> (\<exists>k. live s' = (live s)(p \<mapsto> k) \<and> (unat n \<le> 2 ^ 64 - 4 \<longrightarrow> unat n \<le> k))"
    and malloc_frame: "malloc s n = Some (s', p) \<Longrightarrow> invar s \<Longrightarrow> live s q = Some k \<Longrightarrow>
          q \<le> x \<Longrightarrow> x < q + k \<Longrightarrow> memory_of s' x = memory_of s x"
    and free_null: "free s 0 = Some s"
    and free_live: "invar s \<Longrightarrow> live s p = Some k \<Longrightarrow>
          \<exists>s'. free s p = Some s' \<and> invar s' \<and> live s' = (live s)(p := None)"
    and free_frame: "free s p = Some s' \<Longrightarrow> invar s \<Longrightarrow> live s p = Some j \<Longrightarrow> live s q = Some k \<Longrightarrow>
          q \<le> x \<Longrightarrow> x < q + k \<Longrightarrow> memory_of s' x = memory_of s x"
    and live_disjoint: "invar s \<Longrightarrow> live s p = Some k \<Longrightarrow> live s q = Some l \<Longrightarrow> p \<noteq> q \<Longrightarrow>
          p + k \<le> q \<or> q + l \<le> p"
    and live_range: "invar s \<Longrightarrow> live s p = Some k \<Longrightarrow> 0 < p \<and> p + k < 2 ^ 64"
    and store_memory: "memory_of (store f s) = f (memory_of s)"
    and store_live: "invar s \<Longrightarrow> live s p = Some k \<Longrightarrow> inside p k f \<Longrightarrow>
          invar (store f s) \<and> live (store f s) = live s"
begin

text \<open>The bytes of one live block are not touched by a store into another.\<close>

lemma store_other:
  assumes "invar s" and "live s p = Some k" and "live s q = Some l" and "p \<noteq> q"
    and "inside p k f" and "q \<le> x" and "x < q + l"
  shows "memory_of (store f s) x = memory_of s x"
  using live_disjoint [OF assms(1-4)] assms(5-7) by (auto simp: store_memory inside_def)

lemma malloc_cases:
  assumes "invar s"
  obtains (null) "malloc s n = Some (s, 0)"
  | (block) s' p k where "malloc s n = Some (s', p)" "p \<noteq> 0" "live s p = None"
      "live s' = (live s)(p \<mapsto> k)" "unat n \<le> 2 ^ 64 - 4 \<Longrightarrow> unat n \<le> k" "invar s'"
proof -
  from malloc_total [OF assms, of n] obtain s' p where r: "malloc s n = Some (s', p)" by auto
  show thesis
  proof (cases "p = 0")
    case True
    with r malloc_null assms null show ?thesis by metis
  next
    case False
    with malloc_live [OF r assms] malloc_invar [OF r assms] r block show ?thesis by metis
  qed
qed

text \<open>
  The pattern of the constructors that need two blocks: allocate one, then the other, and give
  the first back when the second fails. Either both are live, or the client holds what it held.
\<close>

definition alloc_pair :: "'s \<Rightarrow> size_t \<Rightarrow> size_t \<Rightarrow> ('s \<times> (addr \<times> addr) option) option" where
  "alloc_pair s n k =
     do { (s1, p) \<leftarrow> malloc s n;
          if p = 0 then Some (s1, None)
          else do { (s2, q) \<leftarrow> malloc s1 k;
                    if q = 0 then do { s3 \<leftarrow> free s2 p; Some (s3, None) }
                    else Some (s2, Some (p, q)) } }"

lemma alloc_pair_cases:
  assumes "invar s"
  obtains (none) s' where "alloc_pair s n k = Some (s', None)" "invar s'" "live s' = live s"
  | (both) s' p q i j where "alloc_pair s n k = Some (s', Some (p, q))" "invar s'" "p \<noteq> q"
      "live s p = None" "live s q = None" "live s' = (live s)(p \<mapsto> i, q \<mapsto> j)" "p \<noteq> 0" "q \<noteq> 0"
      "unat n \<le> 2 ^ 64 - 4 \<Longrightarrow> unat n \<le> i" "unat k \<le> 2 ^ 64 - 4 \<Longrightarrow> unat k \<le> j"
proof (cases rule: malloc_cases [OF assms, of n])
  case 1
  with assms none [of s] show ?thesis by (simp add: alloc_pair_def)
next
  case first: (2 s1 p i)
  show ?thesis
  proof (cases rule: malloc_cases [OF first(6), of k])
    case 1
    from free_live [OF first(6), of p i] first(4) obtain s3 where
      s3: "free s1 p = Some s3" "invar s3" "live s3 = (live s1)(p := None)" by auto
    have "live s3 = live s" using s3(3) first(3,4) by (simp add: fun_upd_idem)
    moreover have "alloc_pair s n k = Some (s3, None)"
      using first 1 s3 by (simp add: alloc_pair_def)
    ultimately show ?thesis using none s3(2) by blast
  next
    case second: (2 s2 q j)
    have "p \<noteq> q" "live s q = None" using second(3) first(4) by (auto split: if_splits)
    then show ?thesis
      using both [of s2 p q i j] first second by (simp add: alloc_pair_def)
  qed
qed

end

end
