(* ===== verification/Heap_Alloc.thy ===== *)
theory Heap_Alloc imports Heap_Correct Allocator begin

text \<open>
  The heap as a provider of the allocator contract: \<open>rtos_malloc\<close> and \<open>rtos_free\<close> satisfy
  every law of the locale \<open>allocator\<close>, with the allocated blocks of the list as the live map.
\<close>

section \<open>The live map\<close>

definition live_of :: "blk list \<Rightarrow> addr \<Rightarrow> nat option" where
  "live_of bs = map_of (map (\<lambda>(b, n, f). (b + 32, n)) (filter (\<lambda>(b, n, f). \<not> f) bs))"

definition heap_live :: "heap_state \<Rightarrow> addr \<Rightarrow> nat option" where
  "heap_live s = live_of (heap_blocks s)"

definition heap_store :: "(memory \<Rightarrow> memory) \<Rightarrow> heap_state \<Rightarrow> heap_state" where
  "heap_store f s = s\<lparr>mem := f (mem s)\<rparr>"

lemma live_of_Some:
  assumes "distinct (map fst bs)"
  shows "live_of bs p = Some n \<longleftrightarrow> 32 \<le> p \<and> (p - 32, n, False) \<in> set bs"
proof -
  have "distinct (map fst (map (\<lambda>(b, n, f). (b + 32, n)) (filter (\<lambda>(b, n, f). \<not> f) bs)))"
    using assms by (induction bs) (auto simp: image_iff split_beta)
  then show ?thesis
    unfolding live_of_def by (subst map_of_eq_Some_iff) (force split: prod.splits)+
qed

lemma live_of_eqI:
  assumes "distinct (map fst bs)"
    and "\<And>p n. m p = Some n \<longleftrightarrow> 32 \<le> p \<and> (p - 32, n, False) \<in> set bs"
  shows "live_of bs = m"
proof
  fix p
  show "live_of bs p = m p"
    using assms(2) [of p] live_of_Some [OF assms(1), of p] by (cases "m p") (auto, metis not_Some_eq)
qed

lemma alloc_take:
  "(b, n, True) \<in> set bs \<Longrightarrow> distinct (map fst bs) \<Longrightarrow>
   (x, l, False) \<in> set (take_block b k bs) \<longleftrightarrow>
     (x, l, False) \<in> set bs \<or> x = b \<and> l = (if k + 64 \<le> n then k else n)"
  by (induction b k bs rule: take_block.induct) (auto simp: image_iff split_beta)

lemma alloc_coalesce: "(x, l, False) \<in> set (coalesce bs) \<longleftrightarrow> (x, l, False) \<in> set bs"
  by (induction bs rule: coalesce.induct) auto

lemma alloc_set_free: "(x, l, False) \<in> set (set_free b bs) \<longleftrightarrow> (x, l, False) \<in> set bs \<and> x \<noteq> b"
  by (induction bs) auto

lemma alloc_free_list: "(x, l, False) \<in> set (free_list b bs) \<longleftrightarrow> (x, l, False) \<in> set bs \<and> x \<noteq> b"
  by (simp add: free_list_def alloc_coalesce alloc_set_free)

lemma heap_live_Some:
  "heap_ok s bs \<Longrightarrow> heap_live s p = Some n \<longleftrightarrow> 32 \<le> p \<and> (p - 32, n, False) \<in> set bs"
  by (simp add: heap_live_def heap_ok_blocks live_of_Some heap_ok_distinct)

lemma heap_live_eqI:
  "heap_ok s bs \<Longrightarrow> (\<And>p n. m p = Some n \<longleftrightarrow> 32 \<le> p \<and> (p - 32, n, False) \<in> set bs) \<Longrightarrow> heap_live s = m"
  unfolding heap_live_def
  by (simp only: heap_ok_blocks) (rule live_of_eqI; simp add: heap_ok_distinct)

section \<open>The laws\<close>

lemma malloc_live_map:
  assumes ok: "heap_ok s bs" and fit: "best_fit (unat sz) bs b n" and al: "4 dvd unat sz"
  shows "heap_live (malloc_state s b sz) =
           (heap_live s)(b + 32 \<mapsto> (if unat sz + 64 \<le> n then unat sz else n))"
    and "heap_live s (b + 32) = None"
proof -
  have b: "(b, n, True) \<in> set bs" using fit by (simp add: best_fit_def)
  note d = heap_ok_distinct [OF ok]
  have used: "(b, l, False) \<notin> set bs" for l
    using eq_key_imp_eq_value [OF d b, of "(l, False)"] by auto
  show free: "heap_live s (b + 32) = None"
    using heap_live_Some [OF ok, of "b + 32"] used by (cases "heap_live s (b + 32)") auto
  show "heap_live (malloc_state s b sz) =
           (heap_live s)(b + 32 \<mapsto> (if unat sz + 64 \<le> n then unat sz else n))"
    by (rule heap_live_eqI [OF malloc_state_ok [OF ok fit al]])
      (use free used in \<open>auto simp: alloc_take [OF b d] heap_live_Some [OF ok] split: if_splits\<close>)
qed

lemma malloc_state_other:
  assumes ok: "heap_ok s bs" and fit: "best_fit (unat sz) bs b n"
    and "x < b \<or> b + 32 + n \<le> x"
  shows "mem (malloc_state s b sz) x = mem s x"
  using take_mem_other [of "mem s" b n sz x] heap_ok_mem [OF ok, of b n True] fit assms(3)
  by (simp add: malloc_state_def best_fit_def)

lemma unat_align_ge: "unat n \<le> 2 ^ 64 - 4 \<Longrightarrow> unat n \<le> unat (align_size n)"
  by (simp add: unat_align_size)

lemma malloc_frame_live:
  assumes ok: "heap_ok s bs" and fit: "best_fit (unat sz) bs b n"
    and q: "heap_live s q = Some k" "q \<le> x" "x < q + k"
  shows "mem (malloc_state s b sz) x = mem s x"
proof (rule malloc_state_other [OF ok fit])
  have b: "(b, n, True) \<in> set bs" using fit by (simp add: best_fit_def)
  have "32 \<le> q" "(q - 32, k, False) \<in> set bs" using q heap_live_Some [OF ok] by auto
  with heap_ok_disjoint [OF ok b this(2)] q(2,3) show "x < b \<or> b + 32 + n \<le> x" by auto
qed

lemma free_frame_live:
  assumes ok: "heap_ok s bs" and b: "(b, n, False) \<in> set bs"
    and fr: "hdr_frame bs (set_blk_is_free b True (mem s)) (mem s')"
    and q: "heap_live s q = Some k" "q \<le> x" "x < q + k"
  shows "mem s' x = mem s x"
proof -
  have q': "32 \<le> q" "(q - 32, k, False) \<in> set bs" using q heap_live_Some [OF ok] by auto
  have apart: "x < d \<or> d + 32 \<le> x" if "(d, l, g) \<in> set bs" for d l g
    using heap_ok_disjoint [OF ok that q'(2)] q' q(2,3) by auto
  then have "mem s' x = set_blk_is_free b True (mem s) x"
    using fr unfolding hdr_frame_def by blast
  with apart [OF b] show ?thesis by (simp add: frames)
qed

lemma heap_inv_obtain:
  assumes "heap_inv s" obtains bs where "heap_ok s bs"
  using assms by (auto simp: heap_inv_def)

lemma heap_invI: "heap_ok s bs \<Longrightarrow> heap_inv s"
  by (auto simp: heap_inv_iff)

lemma heap_store_ok:
  assumes ok: "heap_ok s bs" and p: "heap_live s p = Some k" and f: "inside p k f"
  shows "heap_ok (heap_store f s) bs"
proof -
  have q: "32 \<le> p" "(p - 32, k, False) \<in> set bs" using p heap_live_Some [OF ok] by auto
  have "chain (f (mem s)) (heap_memory s) (heap_memory s + HEAP_SIZE) 0 bs"
  proof (rule chain_cong [OF _ heap_ok_chain [OF ok]])
    fix b n g
    assume "(b, n, g) \<in> set bs"
    from heap_ok_disjoint [OF ok this q(2)] q(1) f show "same_on b 32 (mem s) (f (mem s))"
      by (auto simp: same_on_def inside_def)
  qed
  with ok show ?thesis by (simp add: heap_ok_def heap_store_def)
qed

text \<open>What \<open>rtos_malloc\<close> did when it returned a block.\<close>

lemma rtos_malloc_some:
  assumes ok: "heap_ok s bs" and r: "rtos_malloc s n = Some (s', p)" and p: "p \<noteq> 0"
  obtains b k where "best_fit (unat (align_size n)) bs b k" "p = b + 32" "n \<noteq> 0"
    "s' = malloc_state s b (align_size n)" "heap_ok s' (take_block b (unat (align_size n)) bs)"
proof -
  have n: "n \<noteq> 0" using r p by (auto simp: rtos_malloc_def)
  show thesis
  proof (cases rule: rtos_malloc_cases [OF ok n])
    case 1
    with r p show thesis by simp
  next
    case (2 b k)
    with r malloc_state_ok [OF ok 2(1) align_size_dvd] n show thesis
      by (intro that [of b k]) auto
  qed
qed

lemma rtos_malloc_null:
  assumes ok: "heap_ok s bs" and r: "rtos_malloc s n = Some (s', 0)"
  shows "s' = s"
proof (cases "n = 0")
  case True
  with r show ?thesis by (simp add: rtos_malloc_def)
next
  case False
  then show ?thesis by (cases rule: rtos_malloc_cases [OF ok]) (use r in auto)
qed

lemma rtos_malloc_total: "heap_ok s bs \<Longrightarrow> rtos_malloc s n \<noteq> None"
proof (cases "n = 0")
  case False
  then show "heap_ok s bs \<Longrightarrow> ?thesis" by (metis option.distinct(1) rtos_malloc_cases)
qed (simp add: rtos_malloc_def)

lemma rtos_free_live:
  assumes ok: "heap_ok s bs" and p: "heap_live s p = Some k"
  obtains s' where "rtos_free s p = Some s'" "heap_ok s' (free_list (p - 32) bs)"
    "hdr_frame bs (set_blk_is_free (p - 32) True (mem s)) (mem s')"
    "heap_live s' = (heap_live s)(p := None)"
proof -
  have q: "32 \<le> p" "(p - 32, k, False) \<in> set bs" using p heap_live_Some [OF ok] by auto
  from rtos_free_ok [OF ok q(2)] obtain s' where
    s': "rtos_free s (p - 32 + 32) = Some s'" "heap_ok s' (free_list (p - 32) bs)"
      "hdr_frame bs (set_blk_is_free (p - 32) True (mem s)) (mem s')" by blast
  have "heap_live s' = (heap_live s)(p := None)"
    by (rule heap_live_eqI [OF s'(2)])
      (use q(1) in \<open>auto simp: alloc_free_list heap_live_Some [OF ok]\<close>)
  with s' q(1) show thesis by (intro that [of s']) simp_all
qed

section \<open>The interpretation\<close>

interpretation heap: allocator rtos_malloc rtos_free heap_live mem heap_store heap_inv
proof (unfold_locales, goal_cases)
  case (1 s n)
  then show ?case unfolding heap_inv_iff using rtos_malloc_total by blast
next
  case (2 s n s')
  then show ?case by (auto simp: heap_inv_iff dest: rtos_malloc_null)
next
  case (3 s)
  show ?case by (simp add: rtos_malloc_def)
next
  case (4 s n s' p)
  then show ?case
    by (cases "p = 0")
      (auto simp: heap_inv_iff dest: rtos_malloc_null elim: rtos_malloc_some)
next
  case (5 s n s' p)
  from 5(2) obtain bs where ok: "heap_ok s bs" by (rule heap_inv_obtain)
  from rtos_malloc_some [OF ok 5(1,3)] obtain b k where
    fit: "best_fit (unat (align_size n)) bs b k" and r: "p = b + 32" "s' = malloc_state s b (align_size n)"
    by blast
  have "unat (align_size n) \<le> k" using fit by (simp add: best_fit_def)
  then show ?case
    using malloc_live_map [OF ok fit align_size_dvd] r unat_align_ge [of n] by fastforce
next
  case (6 s n s' p q k x)
  from 6(2) obtain bs where ok: "heap_ok s bs" by (rule heap_inv_obtain)
  show ?case
  proof (cases "p = 0")
    case True
    with rtos_malloc_null [OF ok, of n s'] 6(1) show ?thesis by simp
  next
    case False
    with rtos_malloc_some [OF ok 6(1)] malloc_frame_live [OF ok _ 6(3-5)] show ?thesis by metis
  qed
next
  case (7 s)
  show ?case by (simp add: rtos_free_def)
next
  case (8 s p k)
  from 8(1) obtain bs where ok: "heap_ok s bs" by (rule heap_inv_obtain)
  from rtos_free_live [OF ok 8(2)] show ?case by (metis heap_invI)
next
  case (9 s p s' j q k x)
  from 9(2) obtain bs where ok: "heap_ok s bs" by (rule heap_inv_obtain)
  have "(p - 32, j, False) \<in> set bs" using 9(3) heap_live_Some [OF ok] by auto
  from rtos_free_live [OF ok 9(3)] 9(1) free_frame_live [OF ok this _ 9(4-6)] show ?case
    by (metis option.inject)
next
  case (10 s p k q l)
  from 10(1) obtain bs where ok: "heap_ok s bs" by (rule heap_inv_obtain)
  have "32 \<le> p" "32 \<le> q" "(p - 32, k, False) \<in> set bs" "(q - 32, l, False) \<in> set bs"
    using 10(2,3) heap_live_Some [OF ok] by auto
  with heap_ok_disjoint [OF ok this(3,4)] 10(4) show ?case by auto
next
  case (11 s p k)
  from 11(1) obtain bs where ok: "heap_ok s bs" by (rule heap_inv_obtain)
  have "32 \<le> p" "(p - 32, k, False) \<in> set bs" using 11(2) heap_live_Some [OF ok] by auto
  with heap_ok_mem [OF ok this(2)] ok show ?case by (auto simp: heap_ok_def)
next
  case (12 f s)
  show ?case by (simp add: heap_store_def)
next
  case (13 s p k f)
  from 13(1) obtain bs where ok: "heap_ok s bs" by (rule heap_inv_obtain)
  from heap_store_ok [OF this 13(2,3)] ok show ?case
    by (auto simp: heap_live_def heap_ok_blocks intro: heap_invI)
qed

end
