(* ===== verification/Memory_Pool.thy ===== *)
theory Memory_Pool imports Heap_Alloc begin

text \<open>
  The fixed-size block pools of \<^verbatim>\<open>src/kernel/memory.c\<close>: a pool is a region of the
  heap cut into blocks and a bitmap, also in the heap, with one bit per block (1 is free).

  \<open>pool_ok\<close> is the invariant of a pool; under it the bitmap is a set of free block indices
  (\<open>pool_free_set\<close>), on which \<open>memory_pool_alloc\<close> removes the least element and
  \<open>memory_pool_free\<close> inserts one.
\<close>

section \<open>The model\<close>

record memory_pool =
  pool_start :: addr
  block_size :: size_t
  num_blocks :: size_t
  free_blocks :: size_t
  free_list_bitmap :: addr

text \<open>
  A null pool pointer is \<open>None\<close>. The operations work on the heap and the pool structure and
  return both; \<open>None\<close> as a whole result is behaviour C leaves undefined or a loop that does
  not end.
\<close>

definition memory_pool_create ::
    "heap_state \<Rightarrow> memory_pool option \<Rightarrow> size_t \<Rightarrow> size_t \<Rightarrow>
     (heap_state \<times> memory_pool option \<times> rtos_status) option" where
  "memory_pool_create s pool block_size0 num =
     (case pool of
        None \<Rightarrow> Some (s, None, RTOS_ERROR_INVALID_PARAM)
      | Some p0 \<Rightarrow>
          if block_size0 = 0 \<or> num = 0 then Some (s, Some p0, RTOS_ERROR_INVALID_PARAM)
          else let bsize = align_size block_size0;
                   total_size = bsize * num
               in do {
                 (s1, start) \<leftarrow> rtos_malloc s total_size;
                 let p1 = p0\<lparr>pool_start := start\<rparr>;
                 if start = NULL then Some (s1, Some p1, RTOS_ERROR_NO_MEMORY)
                 else do {
                   let bitmap_size = (num + 7) div 8;
                   (s2, bitmap) \<leftarrow> rtos_malloc s1 bitmap_size;
                   let p2 = p1\<lparr>free_list_bitmap := bitmap\<rparr>;
                   if bitmap = NULL
                   then do { s3 \<leftarrow> rtos_free s2 start; Some (s3, Some p2, RTOS_ERROR_NO_MEMORY) }
                   else Some (s2\<lparr>mem := memset (mem s2) bitmap 0xFF (unat bitmap_size)\<rparr>,
                              Some (p2\<lparr>block_size := bsize, num_blocks := num, free_blocks := num\<rparr>),
                              RTOS_OK) } })"

text \<open>The test, the clearing and the setting of the bit of block \<open>i\<close>; the mask is
  \<^verbatim>\<open>1 << (i % 8)\<close>.\<close>

definition pool_mask :: "nat \<Rightarrow> u8" where
  "pool_mask i = push_bit (i mod 8) 1"

definition pool_test :: "memory \<Rightarrow> addr \<Rightarrow> nat \<Rightarrow> bool" where
  "pool_test m fl i \<longleftrightarrow> m (fl + i div 8) AND pool_mask i \<noteq> 0"

definition pool_clear :: "memory \<Rightarrow> addr \<Rightarrow> nat \<Rightarrow> memory" where
  "pool_clear m fl i = m(fl + i div 8 := m (fl + i div 8) AND NOT (pool_mask i))"

definition pool_set :: "memory \<Rightarrow> addr \<Rightarrow> nat \<Rightarrow> memory" where
  "pool_set m fl i = m(fl + i div 8 := m (fl + i div 8) OR pool_mask i)"

text \<open>The search loop, from index \<open>i\<close> on: the first block whose bit is set.\<close>

function pool_find :: "memory \<Rightarrow> addr \<Rightarrow> nat \<Rightarrow> nat \<Rightarrow> nat option" where
  "pool_find m fl n i =
     (if i < n then if pool_test m fl i then Some i else pool_find m fl n (Suc i) else None)"
  by pat_completeness auto
termination by (relation "measure (\<lambda>(m, fl, n, i). n - i)") auto

declare pool_find.simps [simp del]

definition memory_pool_alloc ::
    "heap_state \<Rightarrow> memory_pool option \<Rightarrow> heap_state \<times> memory_pool option \<times> addr" where
  "memory_pool_alloc s pool =
     (case pool of
        None \<Rightarrow> (s, None, NULL)
      | Some p \<Rightarrow>
          if free_blocks p = 0 then (s, Some p, NULL)
          else (case pool_find (mem s) (free_list_bitmap p) (unat (num_blocks p)) 0 of
                 None \<Rightarrow> (s, Some p, NULL)
               | Some i \<Rightarrow>
                   (s\<lparr>mem := pool_clear (mem s) (free_list_bitmap p) i\<rparr>,
                    Some (p\<lparr>free_blocks := free_blocks p - 1\<rparr>),
                    pool_start p + unat (of_nat i * block_size p))))"

text \<open>The remainder by a block size of zero, which a destroyed pool has, is undefined in C.\<close>

definition memory_pool_free ::
    "heap_state \<Rightarrow> memory_pool option \<Rightarrow> addr \<Rightarrow> (heap_state \<times> memory_pool option \<times> rtos_status) option" where
  "memory_pool_free s pool ptr =
     (case pool of
        None \<Rightarrow> Some (s, None, RTOS_ERROR_INVALID_PARAM)
      | Some p \<Rightarrow>
          if ptr = NULL then Some (s, Some p, RTOS_ERROR_INVALID_PARAM)
          else if block_size p = 0 then None
          else let offset = of_nat ptr - of_nat (pool_start p) :: size_t in
            if offset mod block_size p \<noteq> 0 then Some (s, Some p, RTOS_ERROR_INVALID_PARAM)
            else let block_idx = offset div block_size p in
              if num_blocks p \<le> block_idx then Some (s, Some p, RTOS_ERROR_INVALID_PARAM)
              else if pool_test (mem s) (free_list_bitmap p) (unat block_idx)
              then Some (s, Some p, RTOS_ERROR)
              else Some (s\<lparr>mem := pool_set (mem s) (free_list_bitmap p) (unat block_idx)\<rparr>,
                         Some (p\<lparr>free_blocks := free_blocks p + 1\<rparr>), RTOS_OK))"

definition memory_pool_destroy ::
    "heap_state \<Rightarrow> memory_pool option \<Rightarrow> (heap_state \<times> memory_pool option) option" where
  "memory_pool_destroy s pool =
     (case pool of
        None \<Rightarrow> Some (s, None)
      | Some p \<Rightarrow> do {
          s1 \<leftarrow> (if pool_start p \<noteq> NULL then rtos_free s (pool_start p) else Some s);
          s2 \<leftarrow> (if free_list_bitmap p \<noteq> NULL then rtos_free s1 (free_list_bitmap p) else Some s1);
          Some (s2, Some \<lparr>pool_start = NULL, block_size = 0, num_blocks = 0, free_blocks = 0,
                          free_list_bitmap = NULL\<rparr>) })"

section \<open>The bitmap\<close>

lemma pool_test_bit: "pool_test m fl i \<longleftrightarrow> bit (m (fl + i div 8)) (i mod 8)"
  unfolding pool_test_def pool_mask_def by (simp only: bit_iff_and_push_bit_not_eq_0)

lemma div_mod_8: "i div 8 = j div 8 \<Longrightarrow> i mod 8 = j mod 8 \<Longrightarrow> i = (j :: nat)"
  by (metis div_mult_mod_eq)

lemma pool_test_clear [simp]: "pool_test (pool_clear m fl i) fl j \<longleftrightarrow> j \<noteq> i \<and> pool_test m fl j"
  by (auto simp: pool_test_bit pool_clear_def pool_mask_def bit_simps dest: div_mod_8)

lemma pool_test_set [simp]: "pool_test (pool_set m fl i) fl j \<longleftrightarrow> j = i \<or> pool_test m fl j"
  by (auto simp: pool_test_bit pool_set_def pool_mask_def bit_simps dest: div_mod_8)

lemma pool_test_cong: "m (fl + i div 8) = m' (fl + i div 8) \<Longrightarrow> pool_test m fl i = pool_test m' fl i"
  by (simp add: pool_test_def)

lemma pool_find_cases:
  obtains (none) "pool_find m fl n i = None" "\<And>j. i \<le> j \<Longrightarrow> j < n \<Longrightarrow> \<not> pool_test m fl j"
  | (found) j where "pool_find m fl n i = Some j" "i \<le> j" "j < n" "pool_test m fl j"
      "\<And>l. i \<le> l \<Longrightarrow> l < j \<Longrightarrow> \<not> pool_test m fl l"
proof (induction m fl n i rule: pool_find.induct)
  case (1 m fl n i)
  show ?case
  proof (cases "i < n \<and> \<not> pool_test m fl i")
    case True
    then have step: "pool_find m fl n i = pool_find m fl n (Suc i)" by (simp add: pool_find.simps [of m fl n i])
    show ?thesis
    proof (rule "1.IH", goal_cases)
      case 3
      with step True "1.prems"(1) show ?thesis by (metis le_antisym not_less_eq_eq)
    next
      case (4 j)
      with step True "1.prems"(2) [of j] show ?thesis by (metis Suc_leD le_antisym not_less_eq_eq)
    qed (use True in auto)
  next
    case False
    with "1.prems" show ?thesis by (cases "i < n") (auto simp: pool_find.simps [of m fl n i])
  qed
qed

definition pool_free_set :: "memory \<Rightarrow> memory_pool \<Rightarrow> nat set" where
  "pool_free_set m p = {i. i < unat (num_blocks p) \<and> pool_test m (free_list_bitmap p) i}"

lemma finite_pool_free_set [simp]: "finite (pool_free_set m p)"
  by (simp add: pool_free_set_def)

section \<open>The invariant\<close>

definition pool_ok :: "heap_state \<Rightarrow> memory_pool \<Rightarrow> bool" where
  "pool_ok s p \<longleftrightarrow> heap_inv s \<and> 0 < unat (block_size p)
    \<and> unat (block_size p) * unat (num_blocks p) < 2 ^ 64
    \<and> (\<exists>k. heap_live s (pool_start p) = Some k \<and> unat (block_size p) * unat (num_blocks p) \<le> k)
    \<and> (\<exists>l. heap_live s (free_list_bitmap p) = Some l \<and> unat (num_blocks p) \<le> 8 * l)
    \<and> pool_start p \<noteq> free_list_bitmap p
    \<and> unat (free_blocks p) = card (pool_free_set (mem s) p)"

definition block_addr :: "memory_pool \<Rightarrow> nat \<Rightarrow> addr" where
  "block_addr p i = pool_start p + i * unat (block_size p)"

text \<open>The writes of the bitmap operations are stores into the live bitmap block.\<close>

lemma inside_bitmap:
  assumes "i < n" and "n \<le> 8 * l"
  shows "inside fl l (\<lambda>m. pool_clear m fl i)" and "inside fl l (\<lambda>m. pool_set m fl i)"
proof -
  have "i div 8 < l" using assms by linarith
  then show "inside fl l (\<lambda>m. pool_clear m fl i)" "inside fl l (\<lambda>m. pool_set m fl i)"
    by (auto simp: inside_def pool_clear_def pool_set_def)
qed

lemma pool_update_ok:
  assumes ok: "pool_ok s p" and i: "i < unat (num_blocks p)"
    and f: "f = (\<lambda>m. pool_clear m (free_list_bitmap p) i) \<or> f = (\<lambda>m. pool_set m (free_list_bitmap p) i)"
    and c: "unat c = card (pool_free_set (f (mem s)) p)"
  shows "pool_ok (heap_store f s) (p\<lparr>free_blocks := c\<rparr>)" and "heap_live (heap_store f s) = heap_live s"
    and "heap_live s q = Some k \<Longrightarrow> q \<noteq> free_list_bitmap p \<Longrightarrow> bytes_at (f (mem s)) q k = bytes_at (mem s) q k"
proof -
  from ok obtain l where l: "heap_live s (free_list_bitmap p) = Some l" "unat (num_blocks p) \<le> 8 * l"
    by (auto simp: pool_ok_def)
  have ins: "inside (free_list_bitmap p) l f" using f inside_bitmap [OF i l(2)] by auto
  have inv: "heap_inv s" using ok by (simp add: pool_ok_def)
  note st = heap.store_live [OF inv l(1) ins]
  show "heap_live (heap_store f s) = heap_live s" using st by simp
  from st ok c show "pool_ok (heap_store f s) (p\<lparr>free_blocks := c\<rparr>)"
    by (simp add: pool_ok_def heap_store_def pool_free_set_def)
  show "bytes_at (f (mem s)) q k = bytes_at (mem s) q k"
    if "heap_live s q = Some k" "q \<noteq> free_list_bitmap p"
    using heap.store_other [OF inv l(1) that(1) _ ins] that(2)
    by (intro bytes_at_cong) (auto simp: heap_store_def)
qed

section \<open>Allocation\<close>

lemma block_offset:
  assumes "pool_ok s p" and "i < unat (num_blocks p)"
  shows "unat (of_nat i * block_size p) = i * unat (block_size p)"
    and "(i + 1) * unat (block_size p) \<le> unat (block_size p) * unat (num_blocks p)"
proof -
  show le: "(i + 1) * unat (block_size p) \<le> unat (block_size p) * unat (num_blocks p)"
    using assms(2) by (metis Suc_eq_plus1 Suc_leI mult.commute mult_le_mono2)
  moreover have lt: "unat (block_size p) * unat (num_blocks p) < 2 ^ 64" using assms(1) by (simp add: pool_ok_def)
  moreover have "i < 2 ^ 64" using assms(2) unsigned_less [where w = "num_blocks p", where ?'a = nat] by simp
  ultimately show "unat (of_nat i * block_size p) = i * unat (block_size p)"
    by (simp add: unat_word_ariths unat_of_nat_small)
qed

lemma pool_free_set_clear:
  "pool_free_set (pool_clear m (free_list_bitmap p) i) p = pool_free_set m p - {i}"
  by (auto simp: pool_free_set_def)

lemma pool_free_set_set:
  "i < unat (num_blocks p) \<Longrightarrow>
   pool_free_set (pool_set m (free_list_bitmap p) i) p = insert i (pool_free_set m p)"
  by (auto simp: pool_free_set_def)

lemma alloc_step:
  assumes ok: "pool_ok s p" and ne: "pool_free_set (mem s) p \<noteq> {}"
  shows "\<exists>s' p'. memory_pool_alloc s (Some p) = (s', Some p', block_addr p (Min (pool_free_set (mem s) p)))
    \<and> pool_ok s' p' \<and> heap_live s' = heap_live s
    \<and> pool_free_set (mem s') p' = pool_free_set (mem s) p - {Min (pool_free_set (mem s) p)}
    \<and> (\<forall>q k. heap_live s q = Some k \<longrightarrow> q \<noteq> free_list_bitmap p \<longrightarrow> bytes_at (mem s') q k = bytes_at (mem s) q k)"
proof (cases rule: pool_find_cases [of "mem s" "free_list_bitmap p" "unat (num_blocks p)" 0])
  case none
  with ne show ?thesis by (auto simp: pool_free_set_def)
next
  case (found j)
  have min: "Min (pool_free_set (mem s) p) = j"
    by (rule Min_eqI) (use found in \<open>auto simp: pool_free_set_def not_less [symmetric]\<close>)
  define f where "f = (\<lambda>m. pool_clear m (free_list_bitmap p) j)"
  have cnt: "unat (free_blocks p) = card (pool_free_set (mem s) p)" using ok by (simp add: pool_ok_def)
  have j: "j \<in> pool_free_set (mem s) p" using found by (simp add: pool_free_set_def)
  then have pos: "0 < card (pool_free_set (mem s) p)" by (simp add: card_gt_0_iff) blast
  have nz: "free_blocks p \<noteq> 0" using pos cnt by auto
  have c: "unat (free_blocks p - 1) = card (pool_free_set (f (mem s)) p)"
    using j cnt pos by (simp add: f_def pool_free_set_clear unat_sub_small)
  have ff: "f = (\<lambda>m. pool_clear m (free_list_bitmap p) j) \<or> f = (\<lambda>m. pool_set m (free_list_bitmap p) j)"
    by (simp add: f_def)
  note up = pool_update_ok [OF ok found(3) ff c]
  have "memory_pool_alloc s (Some p) =
      (heap_store f s, Some (p\<lparr>free_blocks := free_blocks p - 1\<rparr>), block_addr p j)"
    using found(1) nz block_offset(1) [OF ok found(3)]
    by (simp add: memory_pool_alloc_def heap_store_def f_def block_addr_def)
  moreover have "pool_free_set (mem (heap_store f s)) (p\<lparr>free_blocks := free_blocks p - 1\<rparr>)
      = pool_free_set (mem s) p - {j}"
    by (simp add: f_def heap_store_def pool_free_set_clear [symmetric]) (simp add: pool_free_set_def)
  ultimately show ?thesis using up by (auto simp: min f_def heap_store_def)
qed

section \<open>Release\<close>

text \<open>The index computed from a pointer: defined exactly for the block addresses.\<close>

lemma free_index:
  assumes ok: "pool_ok s p" and ptr: "ptr < 2 ^ 64"
    and off: "offset = of_nat ptr - of_nat (pool_start p)"
    and m: "offset mod block_size p = 0" and d: "offset div block_size p < num_blocks p"
  shows "ptr = block_addr p (unat (offset div block_size p))"
proof -
  from ok obtain k where k: "heap_live s (pool_start p) = Some k"
    "unat (block_size p) * unat (num_blocks p) \<le> k" and inv: "heap_inv s" by (auto simp: pool_ok_def)
  have range: "pool_start p + k < 2 ^ 64" using heap.live_range [OF inv k(1)] by simp
  have "unat offset mod unat (block_size p) = 0" using m by (metis unat_0 unat_mod)
  then have eq: "unat offset = unat (offset div block_size p) * unat (block_size p)"
    using div_mult_mod_eq [of "unat offset" "unat (block_size p)"] by (simp add: unat_div)
  have "(unat (offset div block_size p) + 1) * unat (block_size p) \<le> k"
    using block_offset(2) [OF ok, of "unat (offset div block_size p)"] d k(2)
    by (simp add: word_less_nat_alt)
  then have "pool_start p + unat offset < 2 ^ 64" using eq range by simp
  then have "unat (of_nat (pool_start p) + offset) = pool_start p + unat offset"
    by (simp add: unat_add_small unat_of_nat_small)
  moreover have "of_nat (pool_start p) + offset = of_nat ptr" by (simp add: off)
  ultimately have "ptr = pool_start p + unat offset" using ptr by (simp add: unat_of_nat_small)
  then show ?thesis by (simp add: block_addr_def eq)
qed

lemma block_index:
  assumes ok: "pool_ok s p" and i: "i < unat (num_blocks p)"
  shows "(of_nat (block_addr p i) - of_nat (pool_start p)) mod block_size p = 0"
    and "(of_nat (block_addr p i) - of_nat (pool_start p)) div block_size p = (of_nat i :: size_t)"
    and "unat (of_nat i :: size_t) = i"
proof -
  have bs: "0 < unat (block_size p)" using ok by (simp add: pool_ok_def)
  have off: "of_nat (block_addr p i) - of_nat (pool_start p) = of_nat i * block_size p"
    by (simp add: block_addr_def)
  show i': "unat (of_nat i :: size_t) = i"
    using i unsigned_less [where w = "num_blocks p", where ?'a = nat] by (simp add: unat_of_nat_small)
  show "(of_nat (block_addr p i) - of_nat (pool_start p)) mod block_size p = 0"
    using block_offset(1) [OF ok i] by (simp add: off word_unat_eq_iff unat_mod)
  show "(of_nat (block_addr p i) - of_nat (pool_start p)) div block_size p = (of_nat i :: size_t)"
    using block_offset(1) [OF ok i] bs by (simp add: off word_unat_eq_iff unat_div i')
qed

lemma free_outcome:
  assumes ok: "pool_ok s p" and ptr: "0 < ptr" "ptr < 2 ^ 64"
  shows "(if \<exists>i<unat (num_blocks p). ptr = block_addr p i
     then \<exists>i<unat (num_blocks p). ptr = block_addr p i \<and>
       (if pool_test (mem s) (free_list_bitmap p) i
        then memory_pool_free s (Some p) ptr = Some (s, Some p, RTOS_ERROR)
        else memory_pool_free s (Some p) ptr =
          Some (s\<lparr>mem := pool_set (mem s) (free_list_bitmap p) i\<rparr>,
                Some (p\<lparr>free_blocks := free_blocks p + 1\<rparr>), RTOS_OK))
     else memory_pool_free s (Some p) ptr = Some (s, Some p, RTOS_ERROR_INVALID_PARAM))"
proof (cases "\<exists>i<unat (num_blocks p). ptr = block_addr p i")
  case True
  then obtain i where i: "i < unat (num_blocks p)" "ptr = block_addr p i" by blast
  have "block_size p \<noteq> 0" using ok by (auto simp: pool_ok_def)
  moreover have "\<not> num_blocks p \<le> of_nat i"
    using i(1) block_index(3) [OF ok i(1)] by (simp add: word_le_nat_alt)
  moreover have "block_addr p i \<noteq> 0" using i ptr by simp
  ultimately show ?thesis
    using True i block_index [OF ok i(1)] by (auto simp: memory_pool_free_def Let_def intro!: exI [of _ i])
next
  case False
  have bs: "block_size p \<noteq> 0" using ok by (auto simp: pool_ok_def)
  have "(of_nat ptr - of_nat (pool_start p)) mod block_size p \<noteq> 0
      \<or> num_blocks p \<le> (of_nat ptr - of_nat (pool_start p)) div block_size p"
    using free_index [OF ok ptr(2) refl] False by (metis not_le word_less_nat_alt)
  with bs False ptr(1) show ?thesis by (auto simp: memory_pool_free_def Let_def)
qed

section \<open>Creation and destruction\<close>

text \<open>Creation follows the pattern of two allocations that \<open>alloc_pair\<close> describes.\<close>

lemma pool_create_none:
  assumes "bs \<noteq> 0" and "n \<noteq> 0"
    and "heap.alloc_pair s (align_size bs * n) ((n + 7) div 8) = Some (s', None)"
  shows "\<exists>p'. memory_pool_create s (Some p0) bs n = Some (s', Some p', RTOS_ERROR_NO_MEMORY)"
  using assms
  by (auto simp: memory_pool_create_def heap.alloc_pair_def Let_def split: Option.bind_splits if_splits)

lemma pool_create_some:
  assumes "bs \<noteq> 0" and "n \<noteq> 0"
    and "heap.alloc_pair s (align_size bs * n) ((n + 7) div 8) = Some (s', Some (a, b))"
  shows "memory_pool_create s (Some p0) bs n =
    Some (heap_store (\<lambda>m. memset m b 0xFF (unat ((n + 7) div 8))) s',
          Some \<lparr>pool_start = a, block_size = align_size bs, num_blocks = n, free_blocks = n,
                free_list_bitmap = b\<rparr>, RTOS_OK)"
  using assms
  by (cases p0) (auto simp: memory_pool_create_def heap.alloc_pair_def heap_store_def Let_def
      split: Option.bind_splits if_splits)

lemma bitmap_size:
  assumes "unat n \<le> 2 ^ 64 - 8"
  shows "unat ((n + 7) div 8 :: size_t) = (unat n + 7) div 8" "unat ((n + 7) div 8 :: size_t) \<le> 2 ^ 64 - 4"
proof -
  show eq: "unat ((n + 7) div 8 :: size_t) = (unat n + 7) div 8"
    using assms by (simp add: unat_div unat_add_small)
  show "unat ((n + 7) div 8 :: size_t) \<le> 2 ^ 64 - 4" unfolding eq using assms by linarith
qed

lemma mask_u8: "mask 8 = (0xFF :: u8)"
  by (simp add: mask_eq_exp_minus_1)

lemma fresh_bitmap:
  assumes "i < n"
  shows "pool_test (memset m b 0xFF ((n + 7) div 8)) b i"
proof -
  have "i div 8 < (n + 7) div 8" using assms by linarith
  moreover have "bit (0xFF :: u8) k" if "k < 8" for k
    using that by (subst mask_u8 [symmetric]) (simp add: bit_mask_iff)
  ultimately show ?thesis by (simp add: pool_test_bit memset_def)
qed

end
