(* ===== verification/Heap_Props.thy ===== *)
theory Heap_Props imports Heap_Alloc Transitions begin

text \<open>
  The properties of the heap as theorems about states: what an allocation returns, what a release
  undoes, double frees, the accounting, \<open>calloc\<close> and \<open>realloc\<close>, and the invariant over whole
  runs.
\<close>

section \<open>Helper lemmas\<close>

lemma heap_inv_ok: "heap_inv s \<longleftrightarrow> heap_ok s (heap_blocks s)"
  by (simp add: heap_inv_def)

lemma heap_ok_inv: "heap_ok s bs \<Longrightarrow> heap_inv s \<and> heap_blocks s = bs"
  using heap_ok_blocks heap_invI by blast

lemma malloc_blocks:
  assumes inv: "heap_inv s" and n: "n \<noteq> 0"
  shows "\<exists>s' p. rtos_malloc s n = Some (s', p) \<and> heap_inv s' \<and>
    (if no_fit (unat (align_size n)) (heap_blocks s) then p = NULL \<and> s' = s
     else \<exists>b k. best_fit (unat (align_size n)) (heap_blocks s) b k \<and> p = b + 32 \<and>
            heap_blocks s' = take_block b (unat (align_size n)) (heap_blocks s))"
proof -
  have ok: "heap_ok s (heap_blocks s)" using inv by (simp add: heap_inv_ok)
  show ?thesis
  proof (cases rule: rtos_malloc_cases [OF ok n])
    case 1
    with inv show ?thesis by simp
  next
    case (2 b k)
    then have "\<not> no_fit (unat (align_size n)) (heap_blocks s)"
      by (fastforce simp: no_fit_def best_fit_def)
    with 2 heap_ok_inv [OF malloc_state_ok [OF ok 2(1) align_size_dvd]] show ?thesis by auto
  qed
qed

lemma coalesce_Cons:
  "\<not> (f \<and> hd_free bs) \<Longrightarrow> coalesce ((b, n, f) # bs) = (b, n, f) # coalesce bs"
  by (cases bs) auto

lemma free_list_take:
  "separated bs \<Longrightarrow> (b, n, True) \<in> set bs \<Longrightarrow> distinct (map fst bs) \<Longrightarrow> k \<le> n \<Longrightarrow>
   free_list b (take_block b k bs) = bs"
proof (induction b k bs rule: take_block.induct)
  case (2 b k b' n' f bs)
  show ?case
  proof (cases "b' = b")
    case True
    with 2 have f: "f" "n' = n" and "set_free b bs = bs" and "\<not> hd_free bs" "separated bs"
      by (auto simp: set_free_id image_iff split_beta)
    then show ?thesis
      using True "2.prems"(4) coalesce_separated [of "(b, n, True) # bs"]
      by (simp add: free_list_def)
  next
    case False
    with 2 have IH: "free_list b (take_block b k bs) = bs" by auto
    then have "hd_free (set_free b (take_block b k bs)) = hd_free bs"
      by (metis free_list_def hd_free_coalesce)
    with False 2 IH show ?thesis by (simp add: free_list_def coalesce_Cons)
  qed
qed simp

text \<open>The blocks of a heap with their headers fill the array.\<close>

lemma chain_total: "chain m a e z bs \<Longrightarrow> e - a = (\<Sum>(b, n, f) \<leftarrow> bs. n + 32)"
proof (induction bs arbitrary: a)
  case (Cons x xs)
  obtain b n f where x: "x = (b, n, f)" by (cases x)
  from Cons.prems have c: "chain m (a + 32 + n) e z xs" by (simp add: x)
  from Cons.IH [OF c] chain_le [OF c] show ?case by (simp add: x)
qed simp

definition free_total :: "blk list \<Rightarrow> nat" where
  "free_total bs = (\<Sum>(b, n, f) \<leftarrow> bs. if f then n + 32 else 0)"

lemma free_total_simps [simp]:
  "free_total [] = 0" "free_total ((b, n, f) # bs) = (if f then n + 32 else 0) + free_total bs"
  by (simp_all add: free_total_def)

lemma alloc_free_total: "(\<Sum>(b, n, f) \<leftarrow> bs. n + 32) = alloc_total bs + free_total bs"
  by (induction bs) auto

lemma heap_total: "heap_ok s bs \<Longrightarrow> alloc_total bs + free_total bs = HEAP_SIZE"
  using chain_total [OF heap_ok_chain] alloc_free_total [of bs] by fastforce

text \<open>A heap without allocated blocks is one free block.\<close>

lemma separated_free: "separated bs \<Longrightarrow> \<forall>(b, n, f) \<in> set bs. f \<Longrightarrow> bs \<noteq> [] \<Longrightarrow> \<exists>b n. bs = [(b, n, True)]"
  by (induction bs rule: separated.induct) (auto simp: hd_free_def split: list.splits)

lemma empty_heap:
  assumes "heap_inv s" and "heap_live s = Map.empty"
  shows "heap_blocks s = [(heap_memory s, HEAP_SIZE - 32, True)]"
proof -
  have ok: "heap_ok s (heap_blocks s)" using assms(1) by (simp add: heap_inv_ok)
  have "f" if "(b, n, f) \<in> set (heap_blocks s)" for b n f
    using heap_live_Some [OF ok, of "b + 32" n] that assms(2) by (cases f) auto
  then have "\<forall>(b, n, f) \<in> set (heap_blocks s). f" by blast
  with separated_free [of "heap_blocks s"] ok obtain b n where bs: "heap_blocks s = [(b, n, True)]"
    unfolding heap_ok_def by blast
  from heap_ok_chain [OF ok] bs show ?thesis by auto
qed

section \<open>Allocation and release\<close>

text \<open>C1: on a well-formed heap \<open>rtos_malloc\<close> always returns; it returns the smallest free block
  that fits the size rounded up to four (the first of several), splits it when more than 64 bytes
  remain, and returns \<open>NULL\<close> with the state unchanged exactly when no free block fits.\<close>

theorem rtos_malloc_best_fit:
  assumes "heap_inv s" and "0 < unat n" and "unat n \<le> 2 ^ 64 - 4"
  shows "\<exists>s' p. rtos_malloc s n = Some (s', p) \<and> heap_inv s' \<and>
    (let k = (unat n + 3) div 4 * 4 in
     if no_fit k (heap_blocks s) then p = NULL \<and> s' = s
     else \<exists>b m. best_fit k (heap_blocks s) b m \<and> p = b + 32 \<and>
            heap_blocks s' = take_block b k (heap_blocks s))"
proof -
  have "n \<noteq> 0" using assms(2) by auto
  from malloc_blocks [OF assms(1) this] show ?thesis
    unfolding unat_align_size [OF assms(3)] Let_def .
qed

definition boot_heap :: heap_state where
  "boot_heap = \<lparr>mem = (\<lambda>_. 0), heap_memory = 4096, heap_head = 0, memory_initialized = False,
      global_stats = \<lparr>total_heap_size = 0, used_heap_size = 0, free_heap_size = 0,
        largest_free_block = 0, num_allocations = 0, num_frees = 0, fragmentation_percent = 0\<rparr>\<rparr>"

definition example_heap :: heap_state where
  "example_heap = memory_init boot_heap"

lemma example_fresh: "fresh_heap boot_heap"
  by (simp add: boot_heap_def fresh_heap_def HEAP_SIZE_def)

lemma example_heap_ok: "heap_ok example_heap [(4096, 65504, True)]"
  using memory_init_ok [OF example_fresh] by (simp add: example_heap_def boot_heap_def HEAP_SIZE_def)

lemma example_heap_inv: "heap_inv example_heap" "heap_blocks example_heap = [(4096, 65504, True)]"
  using heap_ok_inv [OF example_heap_ok] by auto

theorem rtos_malloc_best_fit_witness:
  "\<exists>s' p. rtos_malloc example_heap 100 = Some (s', p) \<and> heap_inv s' \<and> p = 4128 \<and>
     heap_blocks s' = [(4096, 100, False), (4228, 65372, True)]"
  using rtos_malloc_best_fit [OF example_heap_inv(1), of 100]
  by (auto simp: example_heap_inv(2) no_fit_def best_fit_def)

text \<open>The state after one allocation, for the witnesses.\<close>

lemma example_alloc:
  obtains s' where "rtos_malloc example_heap 100 = Some (s', 4128)" "heap_inv s'"
    "heap_blocks s' = [(4096, 100, False), (4228, 65372, True)]" "heap_live s' 4128 = Some 100"
proof -
  from malloc_blocks [OF example_heap_inv(1), of 100] obtain s' where
    s': "rtos_malloc example_heap 100 = Some (s', 4128)" "heap_inv s'"
      "heap_blocks s' = [(4096, 100, False), (4228, 65372, True)]"
    by (auto simp: example_heap_inv(2) unat_align_size no_fit_def best_fit_def)
  moreover have "heap_live s' 4128 = Some 100" by (simp add: heap_live_def live_of_def s'(3))
  ultimately show thesis by (rule that)
qed

text \<open>C12: the block \<open>rtos_malloc\<close> returns is at least as large as the request, lies inside the
  heap array, overlaps no block that was already handed out, and handing it out changes no byte
  of any of those blocks.\<close>

theorem rtos_malloc_region:
  assumes "heap_inv s" and "rtos_malloc s n = Some (s', p)" and "p \<noteq> NULL"
    and "unat n \<le> 2 ^ 64 - 4"
  shows "\<exists>k. unat n \<le> k \<and> heap_live s' = (heap_live s)(p \<mapsto> k) \<and> heap_live s p = None
    \<and> heap_memory s < p \<and> p + k \<le> heap_memory s + HEAP_SIZE
    \<and> (\<forall>q l. heap_live s q = Some l \<longrightarrow>
         (p + k \<le> q \<or> q + l \<le> p) \<and> bytes_at (mem s') q l = bytes_at (mem s) q l)"
proof -
  from heap.malloc_live [OF assms(2,1,3)] assms(4) obtain k where
    k: "heap_live s p = None" "heap_live s' = (heap_live s)(p \<mapsto> k)" "unat n \<le> k" by auto
  have inv': "heap_inv s'" by (rule heap.malloc_invar [OF assms(2,1)])
  have p: "heap_live s' p = Some k" by (simp add: k)
  from inv' obtain bs where ok': "heap_ok s' bs" by (rule heap_inv_obtain)
  have same: "heap_memory s' = heap_memory s"
    using assms by (auto simp: heap_inv_ok malloc_state_def elim: rtos_malloc_some)
  have "32 \<le> p" "(p - 32, k, False) \<in> set bs" using p heap_live_Some [OF ok'] by auto
  from heap_ok_mem [OF ok' this(2)] this(1) same
  have "heap_memory s < p \<and> p + k \<le> heap_memory s + HEAP_SIZE" by auto
  moreover have "(p + k \<le> q \<or> q + l \<le> p) \<and> bytes_at (mem s') q l = bytes_at (mem s) q l"
    if q: "heap_live s q = Some l" for q l
  proof -
    have "q \<noteq> p" and "heap_live s' q = Some l" using q k by auto
    with heap.live_disjoint [OF inv' p] heap.malloc_frame [OF assms(2,1) q]
    show ?thesis by (auto intro: bytes_at_cong)
  qed
  ultimately show ?thesis using k by blast
qed

theorem rtos_malloc_region_witness:
  "\<exists>s' p k. rtos_malloc example_heap 100 = Some (s', p) \<and> 100 \<le> k \<and> heap_live s' p = Some k"
proof -
  obtain s' where r: "rtos_malloc example_heap 100 = Some (s', 4128)" by (rule example_alloc)
  from rtos_malloc_region [OF example_heap_inv(1) this] r show ?thesis by auto
qed

lemma free_merges:
  assumes "heap_inv s" and "heap_live s p = Some k"
  shows "\<exists>s'. rtos_free s p = Some s' \<and> heap_inv s'
    \<and> heap_blocks s' = coalesce (set_free (p - 32) (heap_blocks s))
    \<and> heap_live s' = (heap_live s)(p := None)
    \<and> (\<forall>q l. heap_live s' q = Some l \<longrightarrow> bytes_at (mem s') q l = bytes_at (mem s) q l)"
proof -
  have ok: "heap_ok s (heap_blocks s)" using assms(1) by (simp add: heap_inv_ok)
  from rtos_free_live [OF ok assms(2)] obtain s' where
    s': "rtos_free s p = Some s'" "heap_ok s' (free_list (p - 32) (heap_blocks s))"
      "heap_live s' = (heap_live s)(p := None)" by blast
  have "bytes_at (mem s') q l = bytes_at (mem s) q l" if q: "heap_live s' q = Some l" for q l
  proof (rule bytes_at_cong)
    fix x
    assume "q \<le> x" "x < q + l"
    moreover have "heap_live s q = Some l" using q s'(3) by (auto split: if_splits)
    ultimately show "mem s' x = mem s x" using heap.free_frame [OF s'(1) assms] by blast
  qed
  with s' heap_ok_inv [OF s'(2)] show ?thesis by (auto simp: free_list_def)
qed

text \<open>C13: releasing an allocated block always returns, keeps the heap well formed, turns the block
  free and merges it with its free neighbours, and changes no byte of any other allocated block.\<close>

theorem rtos_free_merges:
  assumes "heap_inv s" and "heap_live s p = Some k"
  shows "\<exists>s'. rtos_free s p = Some s' \<and> heap_inv s'
    \<and> heap_blocks s' = coalesce (set_free (p - 32) (heap_blocks s))
    \<and> heap_live s' = (heap_live s)(p := None)
    \<and> (\<forall>q l. heap_live s' q = Some l \<longrightarrow> bytes_at (mem s') q l = bytes_at (mem s) q l)"
  by (rule free_merges [OF assms])

theorem rtos_free_merges_witness:
  "\<exists>s s'. heap_live s 4128 = Some 100 \<and> rtos_free s 4128 = Some s' \<and> heap_blocks s' = [(4096, 65504, True)]"
proof -
  obtain s where s: "heap_inv s" "heap_blocks s = [(4096, 100, False), (4228, 65372, True)]"
    "heap_live s 4128 = Some 100" by (rule example_alloc)
  from rtos_free_merges [OF s(1,3)] s show ?thesis by auto
qed

text \<open>C26: allocating a block and releasing it again restores the block list and the byte counters.\<close>

theorem rtos_malloc_free_roundtrip:
  assumes "heap_inv s" and "rtos_malloc s n = Some (s1, p)" and "p \<noteq> NULL"
  shows "\<exists>s2. rtos_free s1 p = Some s2 \<and> heap_blocks s2 = heap_blocks s
    \<and> used_heap_size (global_stats s2) = used_heap_size (global_stats s)
    \<and> free_heap_size (global_stats s2) = free_heap_size (global_stats s)"
proof -
  have ok: "heap_ok s (heap_blocks s)" using assms(1) by (simp add: heap_inv_ok)
  from rtos_malloc_some [OF ok assms(2,3)] obtain b k where
    fit: "best_fit (unat (align_size n)) (heap_blocks s) b k" and p: "p = b + 32"
    and ok1: "heap_ok s1 (take_block b (unat (align_size n)) (heap_blocks s))" by blast
  have inv1: "heap_inv s1" using heap_ok_inv [OF ok1] by simp
  obtain l where "heap_live s1 p = Some l" using heap.malloc_live [OF assms(2,1,3)] by auto
  from free_merges [OF inv1 this] obtain s2 where
    s2: "rtos_free s1 p = Some s2" "heap_inv s2" "heap_blocks s2 = free_list b (heap_blocks s1)"
    by (auto simp: p free_list_def)
  have bl: "heap_blocks s2 = heap_blocks s"
    using free_list_take [OF _ _ heap_ok_distinct [OF ok], of b k "unat (align_size n)"] fit ok s2(3)
      heap_ok_inv [OF ok1]
    by (simp add: best_fit_def heap_ok_def)
  then have "stats_ok (global_stats s2) (heap_blocks s)" "stats_ok (global_stats s) (heap_blocks s)"
    using s2(2) assms(1) by (simp_all add: heap_inv_ok heap_ok_def)
  with s2(1) bl show ?thesis by (auto simp: stats_ok_def) (metis add_left_cancel)
qed

theorem rtos_malloc_free_roundtrip_witness:
  "\<exists>s1 s2. rtos_malloc example_heap 100 = Some (s1, 4128) \<and> rtos_free s1 4128 = Some s2
     \<and> heap_blocks s2 = [(4096, 65504, True)]"
proof -
  obtain s1 where s1: "rtos_malloc example_heap 100 = Some (s1, 4128)" by (rule example_alloc)
  from rtos_malloc_free_roundtrip [OF example_heap_inv(1) this] s1 show ?thesis
    by (auto simp: example_heap_inv(2))
qed

lemma free_again:
  assumes "heap_inv s" and "heap_live s p = Some k" and "rtos_free s p = Some s'"
  shows "rtos_free s' p = Some s'"
proof -
  have ok: "heap_ok s (heap_blocks s)" using assms(1) by (simp add: heap_inv_ok)
  have p: "32 \<le> p" "(p - 32, k, False) \<in> set (heap_blocks s)"
    using assms(2) heap_live_Some [OF ok] by auto
  from rtos_free_live [OF ok assms(2)] assms(3) have
    "hdr_frame (heap_blocks s) (set_blk_is_free (p - 32) True (mem s)) (mem s')" by auto
  with p(2) have "blk_is_free (mem s') (p - 32)" "blk_magic (mem s') (p - 32) = blk_magic (mem s) (p - 32)"
    by (fastforce simp: hdr_frame_def)+
  with p(1) heap_ok_mem(7) [OF ok p(2)] show ?thesis
    by (simp add: rtos_free_def sizeof_block_def)
qed

text \<open>A second release of the same pointer, right after the first, is recognised (the stale
  header still carries the magic number and the free flag, even where it was merged away) and
  changes nothing.\<close>

lemma rtos_free_twice:
  assumes "heap_inv s" and "heap_live s p = Some k" and "rtos_free s p = Some s'"
  shows "rtos_free s' p = Some s'"
  by (rule free_again [OF assms])

section \<open>calloc and realloc\<close>

lemma heap_live_size:
  assumes "heap_inv s" and "heap_live s p = Some k"
  shows "blk_size (mem s) (p - 32) = of_nat k" "unat (blk_size (mem s) (p - 32)) = k"
proof -
  have ok: "heap_ok s (heap_blocks s)" using assms(1) by (simp add: heap_inv_ok)
  have "(p - 32, k, False) \<in> set (heap_blocks s)" using assms(2) heap_live_Some [OF ok] by auto
  from heap_ok_mem [OF ok this] show "blk_size (mem s) (p - 32) = of_nat k"
    "unat (blk_size (mem s) (p - 32)) = k" by (simp_all add: unat_of_nat_small)
qed

lemma realloc_move:
  assumes inv: "heap_inv s" and p: "heap_live s p = Some k" and n: "k < unat n" "unat n \<le> 2 ^ 64 - 4"
    and m: "rtos_malloc s n = Some (s1, q)" "q \<noteq> NULL"
  shows "\<exists>s' k'. rtos_realloc s p n = Some (s', q) \<and> heap_inv s' \<and> unat n \<le> k'
    \<and> heap_live s' = (heap_live s)(p := None, q \<mapsto> k') \<and> bytes_at (mem s') q k = bytes_at (mem s) p k"
proof -
  from heap.malloc_live [OF m(1) inv m(2)] n(2) obtain k' where
    q: "heap_live s q = None" "heap_live s1 = (heap_live s)(q \<mapsto> k')" "unat n \<le> k'" by auto
  have pq: "p \<noteq> q" using p q(1) by auto
  have inv1: "heap_inv s1" by (rule heap.malloc_invar [OF m(1) inv])
  have p1: "heap_live s1 p = Some k" and q1: "heap_live s1 q = Some k'" using p pq q(2) by auto
  define f where "f = (\<lambda>mm. memcpy mm q p k)"
  have "inside q k' f" using n(1) q(3) by (auto simp: inside_def f_def frames)
  note st = heap.store_live [OF inv1 q1 this]
  have p2: "heap_live (heap_store f s1) p = Some k" and q2: "heap_live (heap_store f s1) q = Some k'"
    using st p1 q1 by auto
  from heap.free_live [OF _ p2] st obtain s' where
    s': "rtos_free (heap_store f s1) p = Some s'" "heap_inv s'"
      "heap_live s' = (heap_live (heap_store f s1))(p := None)" by blast
  have p0: "p \<noteq> 0" "n \<noteq> 0" using heap.live_range [OF inv p] n by auto
  have small: "\<not> n \<le> blk_size (mem s) (p - 32)"
    using n(1) heap_live_size(2) [OF inv p] by (simp add: word_le_nat_alt)
  have run: "rtos_realloc s p n = Some (s', q)"
    using p0 small m s'(1) heap_live_size(2) [OF inv1 p1]
    by (simp add: rtos_realloc_def sizeof_block_def Let_def heap_store_def f_def)
  have "bytes_at (mem s') q k = bytes_at (mem (heap_store f s1)) q k"
    using heap.free_frame [OF s'(1) _ p2 q2] st n(1) q(3) by (intro bytes_at_cong) auto
  also have "\<dots> = bytes_at (mem s1) p k" by (simp add: heap_store_def f_def bytes_at_memcpy)
  also have "\<dots> = bytes_at (mem s) p k"
    using heap.malloc_frame [OF m(1) inv p] by (intro bytes_at_cong) auto
  finally have "bytes_at (mem s') q k = bytes_at (mem s) p k" .
  moreover have "heap_live s' = (heap_live s)(p := None, q \<mapsto> k')"
    using s'(3) st q(2) pq by (simp add: fun_upd_twist)
  ultimately show ?thesis using run s'(2) q(3) by blast
qed

lemma realloc_contents:
  assumes "heap_inv s" and "heap_live s p = Some k" and "0 < unat n" and "unat n \<le> 2 ^ 64 - 4"
  shows "\<exists>s' q. rtos_realloc s p n = Some (s', q) \<and> heap_inv s' \<and>
    (if q = NULL then s' = s
     else (\<exists>k'. unat n \<le> k' \<and> heap_live s' = (heap_live s)(p := None, q \<mapsto> k'))
        \<and> bytes_at (mem s') q (min k (unat n)) = bytes_at (mem s) p (min k (unat n)))"
proof (cases "unat n \<le> k")
  case True
  have p0: "p \<noteq> 0" "n \<noteq> 0" using heap.live_range [OF assms(1,2)] assms(3) by auto
  have "n \<le> blk_size (mem s) (p - 32)"
    using True heap_live_size(2) [OF assms(1,2)] by (simp add: word_le_nat_alt)
  then have "rtos_realloc s p n = Some (s, p)"
    using p0 by (simp add: rtos_realloc_def sizeof_block_def Let_def)
  moreover have "heap_live s = (heap_live s)(p := None, p \<mapsto> k)" using assms(2) by (simp add: fun_upd_idem)
  ultimately show ?thesis using True p0 assms(1) by auto
next
  case False
  then have k: "k < unat n" by simp
  show ?thesis
  proof (cases rule: heap.malloc_cases [OF assms(1), of n])
    case 1
    have p0: "p \<noteq> 0" "n \<noteq> 0" using heap.live_range [OF assms(1,2)] assms(3) by auto
    have "\<not> n \<le> blk_size (mem s) (p - 32)"
      using k heap_live_size(2) [OF assms(1,2)] by (simp add: word_le_nat_alt)
    with 1 p0 assms(1) show ?thesis
      by (simp add: rtos_realloc_def sizeof_block_def Let_def)
  next
    case (2 s1 q j)
    from realloc_move [OF assms(1,2) k assms(4) 2(1,2)] 2(2) k show ?thesis
      by (fastforce simp: min_def)
  qed
qed

text \<open>C27: \<open>rtos_realloc\<close> of an allocated block to a non-zero size returns either \<open>NULL\<close>, with
  the block still allocated and the state unchanged, or a block of at least the new size whose
  first bytes are those of the old block; every other block stays allocated.\<close>

theorem rtos_realloc_keeps_contents:
  assumes "heap_inv s" and "heap_live s p = Some k" and "0 < unat n" and "unat n \<le> 2 ^ 64 - 4"
  shows "\<exists>s' q. rtos_realloc s p n = Some (s', q) \<and> heap_inv s' \<and>
    (if q = NULL then s' = s
     else (\<exists>k'. unat n \<le> k' \<and> heap_live s' = (heap_live s)(p := None, q \<mapsto> k'))
        \<and> bytes_at (mem s') q (min k (unat n)) = bytes_at (mem s) p (min k (unat n)))"
  by (rule realloc_contents [OF assms])

theorem rtos_realloc_keeps_contents_witness:
  "\<exists>s s' q. heap_live s 4128 = Some 100 \<and> rtos_realloc s 4128 200 = Some (s', q) \<and> heap_inv s'"
proof -
  obtain s where s: "heap_inv s" "heap_live s 4128 = Some 100" by (rule example_alloc)
  from rtos_realloc_keeps_contents [OF s, of 200] s show ?thesis by auto
qed

lemma calloc_contents:
  assumes "heap_inv s" and "unat num * unat sz \<le> 2 ^ 64 - 4"
  shows "\<exists>s' p. rtos_calloc s num sz = Some (s', p) \<and> heap_inv s' \<and>
    (if p = NULL then s' = s
     else (\<exists>k. unat num * unat sz \<le> k \<and> heap_live s' = (heap_live s)(p \<mapsto> k))
        \<and> bytes_at (mem s') p (unat num * unat sz) = replicate (unat num * unat sz) 0
        \<and> (\<forall>q l. heap_live s q = Some l \<longrightarrow> bytes_at (mem s') q l = bytes_at (mem s) q l))"
proof -
  have t: "unat (num * sz) = unat num * unat sz" using assms(2) by (simp add: unat_word_ariths)
  show ?thesis
  proof (cases rule: heap.malloc_cases [OF assms(1), of "num * sz"])
    case 1
    with assms(1) show ?thesis by (simp add: rtos_calloc_def Let_def)
  next
    case (2 s1 p k)
    define f where "f = (\<lambda>m. memset m p 0 (unat (num * sz)))"
    have k: "unat num * unat sz \<le> k" using 2(5) assms(2) by (simp add: t)
    have p: "heap_live s1 p = Some k" using 2(4) by simp
    have ins: "inside p k f" using k by (auto simp: inside_def f_def t frames)
    note st = heap.store_live [OF 2(6) p ins]
    have run: "rtos_calloc s num sz = Some (heap_store f s1, p)"
      using 2(1,2) by (simp add: rtos_calloc_def Let_def heap_store_def f_def)
    have zero: "bytes_at (mem (heap_store f s1)) p (unat num * unat sz) = replicate (unat num * unat sz) 0"
      by (simp add: heap_store_def f_def t bytes_at_memset)
    have "bytes_at (mem (heap_store f s1)) q l = bytes_at (mem s) q l" if q: "heap_live s q = Some l" for q l
    proof (rule bytes_at_cong)
      fix x
      assume x: "q \<le> x" "x < q + l"
      have "q \<noteq> p" "heap_live s1 q = Some l" using q 2(3,4) by auto
      then have "mem (heap_store f s1) x = mem s1 x" using heap.store_other [OF 2(6) p _ _ ins x] by simp
      then show "mem (heap_store f s1) x = mem s x" using heap.malloc_frame [OF 2(1) assms(1) q x] by simp
    qed
    with run zero st k 2(2,4) show ?thesis by auto
  qed
qed

text \<open>When \<open>num * size\<close> does not overflow, the block \<open>rtos_calloc\<close> returns holds at least that
  many bytes, all zero, and no byte of another allocated block changes.\<close>

lemma rtos_calloc_zero:
  assumes "heap_inv s" and "unat num * unat sz \<le> 2 ^ 64 - 4"
  shows "\<exists>s' p. rtos_calloc s num sz = Some (s', p) \<and> heap_inv s' \<and>
    (if p = NULL then s' = s
     else (\<exists>k. unat num * unat sz \<le> k \<and> heap_live s' = (heap_live s)(p \<mapsto> k))
        \<and> bytes_at (mem s') p (unat num * unat sz) = replicate (unat num * unat sz) 0
        \<and> (\<forall>q l. heap_live s q = Some l \<longrightarrow> bytes_at (mem s') q l = bytes_at (mem s) q l))"
  by (rule calloc_contents [OF assms])

section \<open>Accounting\<close>

lemma heap_accounts:
  assumes "heap_inv s"
  shows "used_heap_size (global_stats s) = of_nat (32 + alloc_total (heap_blocks s))"
    and "free_heap_size (global_stats s) + 32 = of_nat (free_total (heap_blocks s))"
proof -
  have ok: "heap_ok s (heap_blocks s)" using assms by (simp add: heap_inv_ok)
  from heap_ok_stats [OF ok] show "used_heap_size (global_stats s) = of_nat (32 + alloc_total (heap_blocks s))"
    by (simp add: stats_ok_def)
  have "of_nat (alloc_total (heap_blocks s)) + of_nat (free_total (heap_blocks s)) = (of_nat HEAP_SIZE :: size_t)"
    by (simp flip: heap_total [OF ok])
  moreover have "of_nat (32 + alloc_total (heap_blocks s)) + free_heap_size (global_stats s) = of_nat HEAP_SIZE"
    using heap_ok_stats [OF ok] by (auto simp: stats_ok_def)
  ultimately have "of_nat (alloc_total (heap_blocks s)) + (free_heap_size (global_stats s) + 32)
      = of_nat (alloc_total (heap_blocks s)) + of_nat (free_total (heap_blocks s))"
    by (simp add: ac_simps)
  then show "free_heap_size (global_stats s) + 32 = of_nat (free_total (heap_blocks s))"
    by (rule add_left_imp_eq)
qed

text \<open>In every well-formed heap the used bytes are the first header plus the allocated blocks
  with their headers, and the free-bytes counter plus one header is the sum of the free blocks
  with their headers, modulo the width of \<^verbatim>\<open>size_t\<close>: the counter ignores the headers
  free blocks need, and wraps below zero when no block is free.\<close>

lemma heap_accounting:
  assumes "heap_inv s"
  shows "used_heap_size (global_stats s) = of_nat (32 + alloc_total (heap_blocks s))
    \<and> free_heap_size (global_stats s) + 32 = of_nat (free_total (heap_blocks s))"
  using heap_accounts [OF assms] by simp

text \<open>On a fresh heap an allocation of all the free bytes succeeds and leaves the free-bytes
  counter at 2^64 - 32: the counter is decremented by a header that was never there.\<close>

lemma free_counter_underflow:
  assumes "fresh_heap s"
  shows "\<exists>s' p. rtos_malloc (memory_init s) 65504 = Some (s', p) \<and> p \<noteq> NULL
    \<and> unat (free_heap_size (global_stats s')) = 2 ^ 64 - 32"
proof -
  have ok: "heap_ok (memory_init s) [(heap_memory s, 65504, True)]"
    using memory_init_ok [OF assms] by (simp add: HEAP_SIZE_def)
  note i = heap_ok_inv [OF ok]
  from malloc_blocks [of "memory_init s" 65504] i obtain s' p where
    r: "rtos_malloc (memory_init s) 65504 = Some (s', p)" "heap_inv s'" "p = heap_memory s + 32"
      "heap_blocks s' = [(heap_memory s, 65504, False)]"
    by (auto simp: unat_align_size no_fit_def best_fit_def)
  from heap_accounts(2) [OF r(2)] have "free_heap_size (global_stats s') = - 32"
    by (simp add: r(4) eq_neg_iff_add_eq_0)
  then have "unat (free_heap_size (global_stats s')) = 2 ^ 64 - 32" by simp
  with r show ?thesis by auto
qed

text \<open>A request within three bytes of \<^verbatim>\<open>SIZE_MAX\<close> is rounded up past the end of the
  type: \<^verbatim>\<open>rtos_malloc\<close> returns a valid pointer to a block of no bytes at all. The same
  happens in \<^verbatim>\<open>rtos_calloc\<close> when the product wraps.\<close>

lemma rtos_malloc_wraps:
  assumes "fresh_heap s" and "2 ^ 64 - 3 \<le> unat n"
  shows "\<exists>s' p. rtos_malloc (memory_init s) n = Some (s', p) \<and> p \<noteq> NULL \<and> heap_live s' p = Some 0"
proof -
  have ok: "heap_ok (memory_init s) [(heap_memory s, 65504, True)]"
    using memory_init_ok [OF assms(1)] by (simp add: HEAP_SIZE_def)
  note i = heap_ok_inv [OF ok]
  have n0: "n \<noteq> 0" using assms(2) by auto
  have n: "unat (n + 3) < 3"
    using assms(2) unsigned_less [where w = n, where ?'a = nat]
    by (simp add: unat_word_ariths mod_if) linarith
  have z: "unat (align_size n) = 0" using n by (simp add: unat_align_size_eq)
  from malloc_blocks [OF _ n0, of "memory_init s"] i z obtain s' p where
    r: "rtos_malloc (memory_init s) n = Some (s', p)" "p = heap_memory s + 32"
      "heap_blocks s' = [(heap_memory s, 0, False), (heap_memory s + 32, 65472, True)]"
    by (auto simp: no_fit_def best_fit_def)
  then have "heap_live s' p = Some 0" by (simp add: heap_live_def live_of_def)
  with r show ?thesis by auto
qed

section \<open>The statistics walk\<close>

fun free_sizes :: "blk list \<Rightarrow> nat list" where
  "free_sizes [] = []"
| "free_sizes ((b, n, f) # bs) = (if f then n # free_sizes bs else free_sizes bs)"

lemma fragmentation_loop_chain:
  assumes "chain m a e 0 bs" and "0 < a" and "e < 2 ^ 64" and "unat t + (e - a) < 2 ^ 64"
  shows "\<exists>l' t'. fragmentation_loop m (ptr_of bs) l t = Some (l', t') \<and>
    unat l' = fold max (free_sizes bs) (unat l) \<and> unat t' = unat t + sum_list (free_sizes bs)"
  using assms
proof (induction bs arbitrary: a l t)
  case Nil
  show ?case by (simp add: fragmentation_loop.simps)
next
  case (Cons x xs)
  obtain n f where x: "x = (a, n, f)" using Cons.prems(1) by (cases x) auto
  have c: "chain m (a + 32 + n) e 0 xs" and h: "hdr m a n f (ptr_of xs)"
    using Cons.prems(1) by (cases xs; auto simp: x)+
  have le: "a + 32 + n \<le> e" using chain_le [OF c] .
  define l1 where "l1 = (if f \<and> l < blk_size m a then blk_size m a else l)"
  define t1 where "t1 = (if f then t + blk_size m a else t)"
  have n: "unat (blk_size m a) = n" using h by (simp add: hdr_def unat_of_nat_small)
  have step: "fragmentation_loop m (ptr_of (x # xs)) l t = fragmentation_loop m (ptr_of xs) l1 t1"
    using h Cons.prems(2) by (subst fragmentation_loop.simps) (simp add: x hdr_def l1_def t1_def)
  have l1: "unat l1 = (if f then max n (unat l) else unat l)"
    using n by (auto simp: l1_def word_less_nat_alt)
  have t1: "unat t1 = (if f then unat t + n else unat t)"
    using Cons.prems(4) le n by (simp add: t1_def unat_add_small)
  have "unat t1 + (e - (a + 32 + n)) < 2 ^ 64" using Cons.prems(4) le by (simp add: t1) linarith
  from Cons.IH [OF c _ Cons.prems(3) this, of l1] step l1 t1 show ?case
    by (auto simp: x)
qed

text \<open>\<open>memory_get_stats\<close> returns on every well-formed heap; the largest block it reports is
  the largest free payload, zero when nothing is free, and the fragmentation is computed from it
  and the exact sum of the free payloads.\<close>

lemma memory_get_stats_exact:
  assumes "heap_inv s"
  shows "\<exists>st. memory_get_stats percent s (Some out) = Some (Some st)
    \<and> unat (largest_free_block st) = Max (insert 0 (set (free_sizes (heap_blocks s))))
    \<and> fragmentation_percent st =
        (if sum_list (free_sizes (heap_blocks s)) = 0 then 0
         else percent (largest_free_block st) (of_nat (sum_list (free_sizes (heap_blocks s)))))
    \<and> used_heap_size st = used_heap_size (global_stats s)"
proof -
  have ok: "heap_ok s (heap_blocks s)" using assms by (simp add: heap_inv_ok)
  have "unat (0 :: size_t) + (heap_memory s + HEAP_SIZE - heap_memory s) < 2 ^ 64" by (simp add: HEAP_SIZE_def)
  from fragmentation_loop_chain [OF heap_ok_chain [OF ok] _ _ this, of 0] ok obtain l t where
    lt: "fragmentation_loop (mem s) (heap_head s) 0 0 = Some (l, t)"
      "unat l = fold max (free_sizes (heap_blocks s)) 0" "unat t = sum_list (free_sizes (heap_blocks s))"
    by (auto simp: heap_ok_def heap_ok_ptr [OF ok])
  have "unat l = Max (insert 0 (set (free_sizes (heap_blocks s))))"
    using lt(2) by (metis List.list.set(2) Max.set_eq_fold)
  moreover have "t = of_nat (sum_list (free_sizes (heap_blocks s)))" by (simp flip: lt(3))
  moreover have "0 < t \<longleftrightarrow> sum_list (free_sizes (heap_blocks s)) \<noteq> 0"
    by (simp flip: lt(3) add: word_less_nat_alt)
  ultimately show ?thesis
    using ok lt(1) by (auto simp: memory_get_stats_def calculate_fragmentation_def heap_ok_def)
qed

section \<open>Runs\<close>






end
