(* ===== verification/Pool_Props.thy ===== *)
theory Pool_Props imports Memory_Pool Heap_Props begin

text \<open>
  The properties of the fixed-size pools: what creation gives, what an allocation takes, which
  releases are accepted, and what destruction returns to the heap.
\<close>

section \<open>Creation\<close>

lemma create_outcome:
  assumes inv: "heap_inv s" and bs: "0 < unat bs" "unat bs \<le> 2 ^ 64 - 4" and n: "0 < unat n" "unat n \<le> 2 ^ 64 - 8"
    and fits: "(unat bs + 3) div 4 * 4 * unat n \<le> 2 ^ 64 - 4"
  shows "\<exists>s' p' r. memory_pool_create s (Some p0) bs n = Some (s', Some p', r) \<and> heap_inv s' \<and>
    (if r = RTOS_OK
     then pool_ok s' p' \<and> num_blocks p' = n \<and> unat (block_size p') = (unat bs + 3) div 4 * 4
        \<and> pool_free_set (mem s') p' = {..<unat n}
        \<and> (\<forall>q k. heap_live s q = Some k \<longrightarrow>
             heap_live s' q = Some k \<and> q \<noteq> pool_start p' \<and> q \<noteq> free_list_bitmap p')
     else r = RTOS_ERROR_NO_MEMORY \<and> heap_live s' = heap_live s)"
proof -
  have al: "unat (align_size bs) = (unat bs + 3) div 4 * 4" using bs(2) by (rule unat_align_size)
  have tot: "unat (align_size bs * n) = (unat bs + 3) div 4 * 4 * unat n"
    using fits by (simp add: unat_word_ariths al)
  have nz: "bs \<noteq> 0" "n \<noteq> 0" using bs(1) n(1) by auto
  note bm = bitmap_size [OF n(2)]
  show ?thesis
  proof (cases rule: heap.alloc_pair_cases [OF inv, of "align_size bs * n" "(n + 7) div 8"])
    case (1 s')
    with pool_create_none [OF nz 1(1), of p0] show ?thesis by fastforce
  next
    case (2 s1 a b i j)
    define f where "f = (\<lambda>m. memset m b 0xFF (unat ((n + 7) div 8)))"
    define p' where "p' = \<lparr>pool_start = a, block_size = align_size bs, num_blocks = n, free_blocks = n,
                free_list_bitmap = b\<rparr>"
    have i: "(unat bs + 3) div 4 * 4 * unat n \<le> i" using 2(9) fits by (simp only: tot)
    have j: "(unat n + 7) div 8 \<le> j" using 2(10) bm by simp
    have b: "heap_live s1 b = Some j" and a: "heap_live s1 a = Some i" using 2(3,6) by auto
    have ins: "inside b j f" using j bm(1) by (auto simp: inside_def f_def frames)
    note st = heap.store_live [OF 2(2) b ins]
    have free: "pool_free_set (f m) p' = {..<unat n}" for m
      using fresh_bitmap [of _ "unat n" m b] bm(1) by (auto simp: pool_free_set_def p'_def f_def)
    have pos: "0 < (unat bs + 3) div 4 * 4" using bs(1) by linarith
    have "unat n \<le> 8 * j" using j by linarith
    then have ok: "pool_ok (heap_store f s1) p'"
      using st a b i fits pos free [of "mem s1"] 2(3)
      by (simp add: pool_ok_def p'_def al heap_store_def)
    have keep: "heap_live s q = Some k \<Longrightarrow> heap_live s1 q = Some k \<and> q \<noteq> a \<and> q \<noteq> b" for q k
      using 2(4-6) by auto
    have "memory_pool_create s (Some p0) bs n = Some (heap_store f s1, Some p', RTOS_OK)"
      using pool_create_some [OF nz 2(1), of p0] by (simp add: f_def p'_def)
    then show ?thesis
      using st ok free keep al by (auto simp: p'_def heap_store_def)
  qed
qed

text \<open>Creating a pool on a well-formed heap, when neither the rounded block size nor the total
  overflows, either fails with \<open>RTOS_ERROR_NO_MEMORY\<close> and gives back whatever it had allocated, or
  yields a pool satisfying its invariant in which every block is free, in two fresh heap blocks.\<close>

lemma memory_pool_create_ok:
  assumes "heap_inv s" and "0 < unat bs" and "unat bs \<le> 2 ^ 64 - 4"
    and "0 < unat n" and "unat n \<le> 2 ^ 64 - 8" and "(unat bs + 3) div 4 * 4 * unat n \<le> 2 ^ 64 - 4"
  shows "\<exists>s' p' r. memory_pool_create s (Some p0) bs n = Some (s', Some p', r) \<and> heap_inv s' \<and>
    (if r = RTOS_OK
     then pool_ok s' p' \<and> num_blocks p' = n \<and> unat (block_size p') = (unat bs + 3) div 4 * 4
        \<and> pool_free_set (mem s') p' = {..<unat n}
        \<and> (\<forall>q k. heap_live s q = Some k \<longrightarrow>
             heap_live s' q = Some k \<and> q \<noteq> pool_start p' \<and> q \<noteq> free_list_bitmap p')
     else r = RTOS_ERROR_NO_MEMORY \<and> heap_live s' = heap_live s)"
  by (rule create_outcome [OF assms])

definition no_pool :: memory_pool where
  "no_pool = \<lparr>pool_start = 0, block_size = 0, num_blocks = 0, free_blocks = 0, free_list_bitmap = 0\<rparr>"

text \<open>A concrete pool, for the witnesses: 20 blocks of 12 bytes in an otherwise empty heap.\<close>

lemma example_pool:
  obtains s p where "pool_ok s p" "pool_free_set (mem s) p = {..<20}" "block_size p = 12" "num_blocks p = 20"
    "pool_start p = 4128"
proof -
  from malloc_blocks [OF example_heap_inv(1), of 240] obtain s1 where
    s1: "rtos_malloc example_heap 240 = Some (s1, 4128)" "heap_inv s1"
      "heap_blocks s1 = [(4096, 240, False), (4368, 65232, True)]"
    by (auto simp: example_heap_inv(2) unat_align_size no_fit_def best_fit_def)
  from malloc_blocks [OF s1(2), of 3] obtain s2 where
    s2: "rtos_malloc s1 3 = Some (s2, 4400)"
    by (auto simp: s1(3) unat_align_size no_fit_def best_fit_def)
  have "align_size 10 = 12" by (simp add: align_size_def)
  moreover have "heap.alloc_pair example_heap 240 3 = Some (s2, Some (4128, 4400))"
    by (simp add: heap.alloc_pair_def s1(1) s2)
  ultimately have run: "memory_pool_create example_heap (Some no_pool) 10 20 =
      Some (heap_store (\<lambda>m. memset m 4400 0xFF 3) s2,
            Some \<lparr>pool_start = 4128, block_size = 12, num_blocks = 20, free_blocks = 20,
                  free_list_bitmap = 4400\<rparr>, RTOS_OK)"
    using pool_create_some [of 10 20 example_heap s2 4128 4400 no_pool] by simp
  define S where "S = heap_store (\<lambda>m. memset m 4400 0xFF 3) s2"
  define P where "P = \<lparr>pool_start = 4128, block_size = 12, num_blocks = 20, free_blocks = 20,
                  free_list_bitmap = 4400\<rparr>"
  have "memory_pool_create example_heap (Some no_pool) 10 20 = Some (S, Some P, RTOS_OK)"
    by (simp add: run S_def P_def)
  with create_outcome [OF example_heap_inv(1), of 10 20 no_pool]
  have "pool_ok S P" "pool_free_set (mem S) P = {..<20}" by auto
  then show thesis by (rule that) (simp_all add: P_def)
qed

section \<open>Allocation\<close>

lemma memory_pool_full: "pool_ok s p \<Longrightarrow> pool_free_set (mem s) p = {} \<Longrightarrow> memory_pool_alloc s (Some p) = (s, Some p, NULL)"
  by (simp add: memory_pool_alloc_def pool_ok_def word_unat_eq_iff)

text \<open>C21: an allocation from a pool with a free block takes the free block of least index and
  returns its address, a range inside the pool's heap block; the invariant is kept, every other
  block keeps its state, and no byte outside the bitmap of any allocated heap block changes. From
  a full pool it returns \<open>NULL\<close> and changes nothing.\<close>

theorem memory_pool_alloc_least:
  assumes "pool_ok s p"
  shows "if pool_free_set (mem s) p = {} then memory_pool_alloc s (Some p) = (s, Some p, NULL)
    else let i = Min (pool_free_set (mem s) p) in
      \<exists>s' p'. memory_pool_alloc s (Some p) = (s', Some p', block_addr p i) \<and> pool_ok s' p'
        \<and> pool_free_set (mem s') p' = pool_free_set (mem s) p - {i} \<and> heap_live s' = heap_live s
        \<and> i < unat (num_blocks p)
        \<and> (\<forall>q k. heap_live s q = Some k \<longrightarrow> q \<noteq> free_list_bitmap p \<longrightarrow>
             bytes_at (mem s') q k = bytes_at (mem s) q k)"
proof (cases "pool_free_set (mem s) p = {}")
  case True
  with memory_pool_full [OF assms True] show ?thesis by simp
next
  case False
  then have "Min (pool_free_set (mem s) p) \<in> pool_free_set (mem s) p" by (intro Min_in) simp_all
  then have "Min (pool_free_set (mem s) p) < unat (num_blocks p)" by (simp add: pool_free_set_def)
  moreover obtain s' p' where
    "memory_pool_alloc s (Some p) = (s', Some p', block_addr p (Min (pool_free_set (mem s) p)))"
    "pool_ok s' p'" "heap_live s' = heap_live s"
    "pool_free_set (mem s') p' = pool_free_set (mem s) p - {Min (pool_free_set (mem s) p)}"
    "\<forall>q k. heap_live s q = Some k \<longrightarrow> q \<noteq> free_list_bitmap p \<longrightarrow> bytes_at (mem s') q k = bytes_at (mem s) q k"
    using alloc_step [OF assms False] by blast
  ultimately show ?thesis unfolding Let_def if_not_P [OF False] by (intro exI [of _ s'] exI [of _ p'] conjI)
qed

theorem memory_pool_alloc_least_witness:
  "\<exists>s p s' p'. pool_ok s p \<and> memory_pool_alloc s (Some p) = (s', Some p', 4128) \<and> pool_ok s' p'"
proof -
  obtain s p where ok: "pool_ok s p" "pool_free_set (mem s) p = {..<20}" "pool_start p = 4128"
    by (rule example_pool)
  have "Min {..<20 :: nat} = 0" by (rule Min_eqI) auto
  then obtain s' p' where "memory_pool_alloc s (Some p) = (s', Some p', block_addr p 0)" "pool_ok s' p'"
    using memory_pool_alloc_least [OF ok(1)] ok(2) by (auto simp: Let_def lessThan_empty_iff)
  with ok show ?thesis by (auto simp: block_addr_def)
qed

text \<open>The blocks of a pool do not overlap and lie inside the heap block of the pool, so two
  blocks that are out at the same time never share a byte.\<close>

lemma pool_blocks_disjoint:
  assumes "pool_ok s p" and "i < unat (num_blocks p)" and "j < unat (num_blocks p)" and "i \<noteq> j"
  shows "(block_addr p i + unat (block_size p) \<le> block_addr p j
      \<or> block_addr p j + unat (block_size p) \<le> block_addr p i)
    \<and> (\<exists>k. heap_live s (pool_start p) = Some k \<and> block_addr p i + unat (block_size p) \<le> pool_start p + k)"
proof -
  have "(i + 1) * unat (block_size p) \<le> j * unat (block_size p)
      \<or> (j + 1) * unat (block_size p) \<le> i * unat (block_size p)"
    using assms(4) by (metis Suc_eq_plus1 Suc_leI linorder_neqE_nat mult_le_mono1)
  moreover have "(i + 1) * unat (block_size p) \<le> unat (block_size p) * unat (num_blocks p)"
    by (rule block_offset(2) [OF assms(1,2)])
  ultimately show ?thesis using assms(1) by (fastforce simp: pool_ok_def block_addr_def)
qed

section \<open>Release\<close>

lemma free_used:
  assumes ok: "pool_ok s p" and i: "i < unat (num_blocks p)" and used: "i \<notin> pool_free_set (mem s) p"
    and ptr: "ptr = block_addr p i" "0 < ptr" "ptr < 2 ^ 64"
  shows "\<exists>s' p'. memory_pool_free s (Some p) ptr = Some (s', Some p', RTOS_OK) \<and> pool_ok s' p'
    \<and> heap_live s' = heap_live s \<and> pool_free_set (mem s') p' = insert i (pool_free_set (mem s) p)
    \<and> (\<forall>q k. heap_live s q = Some k \<longrightarrow> q \<noteq> free_list_bitmap p \<longrightarrow> bytes_at (mem s') q k = bytes_at (mem s) q k)"
proof -
  define f where "f = (\<lambda>m. pool_set m (free_list_bitmap p) i)"
  have ff: "f = (\<lambda>m. pool_clear m (free_list_bitmap p) i) \<or> f = (\<lambda>m. pool_set m (free_list_bitmap p) i)"
    by (simp add: f_def)
  have ins: "pool_free_set (f (mem s)) p = insert i (pool_free_set (mem s) p)"
    by (simp add: f_def pool_free_set_set i)
  have cnt: "unat (free_blocks p) = card (pool_free_set (mem s) p)" using ok by (simp add: pool_ok_def)
  have "insert i (pool_free_set (mem s) p) \<subseteq> {..<unat (num_blocks p)}" using i by (auto simp: pool_free_set_def)
  from card_mono [OF _ this] used have "card (pool_free_set (mem s) p) + 1 \<le> unat (num_blocks p)" by simp
  also have "\<dots> < 2 ^ 64" using unsigned_less [where w = "num_blocks p", where ?'a = nat] by simp
  finally have "unat (free_blocks p + 1) = card (pool_free_set (f (mem s)) p)"
    using used by (simp add: ins cnt unat_add_small)
  note up = pool_update_ok [OF ok i ff this]
  have uniq: "j = i" if "ptr = block_addr p j" for j
    using that ptr(1) ok by (simp add: block_addr_def pool_ok_def)
  have "\<not> pool_test (mem s) (free_list_bitmap p) i" using used i by (simp add: pool_free_set_def)
  moreover have "\<exists>i<unat (num_blocks p). ptr = block_addr p i" using i ptr(1) by blast
  with free_outcome [OF ok ptr(2,3)] obtain j where "ptr = block_addr p j"
    "if pool_test (mem s) (free_list_bitmap p) j
     then memory_pool_free s (Some p) ptr = Some (s, Some p, RTOS_ERROR)
     else memory_pool_free s (Some p) ptr =
          Some (s\<lparr>mem := pool_set (mem s) (free_list_bitmap p) j\<rparr>,
                Some (p\<lparr>free_blocks := free_blocks p + 1\<rparr>), RTOS_OK)" by auto
  moreover note uniq [OF this(1)]
  ultimately have
    "memory_pool_free s (Some p) ptr = Some (heap_store f s, Some (p\<lparr>free_blocks := free_blocks p + 1\<rparr>), RTOS_OK)"
    by (simp add: f_def heap_store_def)
  moreover have "pool_free_set (mem (heap_store f s)) (p\<lparr>free_blocks := free_blocks p + 1\<rparr>)
      = insert i (pool_free_set (mem s) p)"
    using ins by (simp add: pool_free_set_def heap_store_def)
  moreover have "bytes_at (mem (heap_store f s)) q k = bytes_at (mem s) q k"
    if "heap_live s q = Some k" "q \<noteq> free_list_bitmap p" for q k
    using up(3) [OF that] by (simp add: heap_store_def)
  ultimately show ?thesis using up(1,2) by blast
qed

lemma free_refused:
  assumes ok: "pool_ok s p" and ptr: "0 < ptr" "ptr < 2 ^ 64"
    and not_used: "\<not> (\<exists>i<unat (num_blocks p). i \<notin> pool_free_set (mem s) p \<and> ptr = block_addr p i)"
  shows "memory_pool_free s (Some p) ptr = Some (s, Some p,
    if \<exists>i\<in>pool_free_set (mem s) p. ptr = block_addr p i then RTOS_ERROR else RTOS_ERROR_INVALID_PARAM)"
proof (cases "\<exists>i<unat (num_blocks p). ptr = block_addr p i")
  case True
  from free_outcome [OF ok ptr] True obtain i where i: "i < unat (num_blocks p)" "ptr = block_addr p i"
    and out: "pool_test (mem s) (free_list_bitmap p) i \<longrightarrow>
        memory_pool_free s (Some p) ptr = Some (s, Some p, RTOS_ERROR)" by (auto split: if_splits)
  with not_used have "i \<in> pool_free_set (mem s) p" by blast
  with out i show ?thesis by (auto simp: pool_free_set_def)
next
  case False
  with free_outcome [OF ok ptr] show ?thesis by (auto simp: pool_free_set_def)
qed

text \<open>C28: \<open>memory_pool_free\<close> accepts exactly the addresses of blocks that are out: such a block
  becomes free and the invariant is kept; a block that is already free is answered with
  \<open>RTOS_ERROR\<close> and any other pointer with \<open>RTOS_ERROR_INVALID_PARAM\<close>, with no change.\<close>

theorem memory_pool_free_exact:
  assumes "pool_ok s p" and "0 < ptr" and "ptr < 2 ^ 64"
  shows "if \<exists>i<unat (num_blocks p). i \<notin> pool_free_set (mem s) p \<and> ptr = block_addr p i
    then \<exists>i<unat (num_blocks p). \<exists>s' p'. i \<notin> pool_free_set (mem s) p \<and> ptr = block_addr p i
      \<and> memory_pool_free s (Some p) ptr = Some (s', Some p', RTOS_OK) \<and> pool_ok s' p'
      \<and> heap_live s' = heap_live s \<and> pool_free_set (mem s') p' = insert i (pool_free_set (mem s) p)
    else memory_pool_free s (Some p) ptr = Some (s, Some p,
      if \<exists>i\<in>pool_free_set (mem s) p. ptr = block_addr p i then RTOS_ERROR else RTOS_ERROR_INVALID_PARAM)"
proof (cases "\<exists>i<unat (num_blocks p). i \<notin> pool_free_set (mem s) p \<and> ptr = block_addr p i")
  case True
  then obtain i where i: "i < unat (num_blocks p)" "i \<notin> pool_free_set (mem s) p" "ptr = block_addr p i"
    by blast
  from free_used [OF assms(1) i assms(2,3)] i True show ?thesis by (simp only: if_True) blast
next
  case False
  from free_refused [OF assms False] False show ?thesis by (simp only: if_False)
qed

theorem memory_pool_free_exact_witness:
  "\<exists>s p s' p'. pool_ok s p \<and> memory_pool_free s (Some p) 4140 = Some (s', Some p', RTOS_ERROR)"
proof -
  obtain s p where ok: "pool_ok s p" "pool_free_set (mem s) p = {..<20}" "pool_start p = 4128" "block_size p = 12"
    by (rule example_pool)
  then have "\<exists>i\<in>pool_free_set (mem s) p. 4140 = block_addr p i"
    by (intro bexI [of _ 1]) (simp_all add: block_addr_def)
  moreover have "\<not> (\<exists>i<unat (num_blocks p). i \<notin> pool_free_set (mem s) p \<and> 4140 = block_addr p i)"
    using ok by (auto simp: block_addr_def)
  ultimately have "memory_pool_free s (Some p) 4140 = Some (s, Some p, RTOS_ERROR)"
    using memory_pool_free_exact [OF ok(1), of 4140] by simp
  with ok(1) show ?thesis by blast
qed

section \<open>Destruction\<close>

text \<open>Destroying a pool gives both heap blocks back and zeroes the structure; a release into
  the destroyed pool then takes the remainder by a block size of zero, which C leaves undefined.\<close>

lemma memory_pool_destroy_returns:
  assumes "pool_ok s p"
  shows "\<exists>s'. memory_pool_destroy s (Some p) = Some (s', Some no_pool) \<and> heap_inv s'
    \<and> heap_live s' = (heap_live s)(pool_start p := None, free_list_bitmap p := None)
    \<and> (\<forall>ptr. ptr \<noteq> NULL \<longrightarrow> memory_pool_free s' (Some no_pool) ptr = None)"
proof -
  from assms obtain k l where live: "heap_live s (pool_start p) = Some k" "heap_live s (free_list_bitmap p) = Some l"
    and ne: "pool_start p \<noteq> free_list_bitmap p" and inv: "heap_inv s" by (auto simp: pool_ok_def)
  from heap.free_live [OF inv live(1)] obtain s1 where
    s1: "rtos_free s (pool_start p) = Some s1" "heap_inv s1" "heap_live s1 = (heap_live s)(pool_start p := None)"
    by blast
  have "heap_live s1 (free_list_bitmap p) = Some l" using live(2) ne by (simp add: s1(3))
  from heap.free_live [OF s1(2) this] obtain s2 where
    s2: "rtos_free s1 (free_list_bitmap p) = Some s2" "heap_inv s2"
      "heap_live s2 = (heap_live s1)(free_list_bitmap p := None)" by blast
  have "pool_start p \<noteq> 0" "free_list_bitmap p \<noteq> 0"
    using heap.live_range [OF inv live(1)] heap.live_range [OF inv live(2)] by auto
  then have "memory_pool_destroy s (Some p) = Some (s2, Some no_pool)"
    by (simp add: memory_pool_destroy_def s1(1) s2(1) no_pool_def)
  moreover have "memory_pool_free s2 (Some no_pool) ptr = None" if "ptr \<noteq> NULL" for ptr
    using that by (simp add: memory_pool_free_def no_pool_def)
  ultimately show ?thesis using s2(2,3) s1(3) by simp
qed

end
