(* ===== verification/Kernel_State.thy ===== *)
theory Kernel_State imports Rtos_Types "HOL-Library.Monad_Syntax" begin

text \<open>
  The state of the kernel: the task control blocks of \<^verbatim>\<open>include/kernel/task.h\<close> and the
  static variables of \<^verbatim>\<open>src/kernel/task.c\<close> and \<^verbatim>\<open>src/kernel/scheduler.c\<close>.

  Every task control block is a slot of \<^verbatim>\<open>task_pool\<close>, so a \<^verbatim>\<open>tcb_t *\<close> is the
  index of a slot, or \<open>None\<close> for the null pointer; the \<^verbatim>\<open>next\<close> members link slots.
\<close>

type_synonym tcb_ptr = "nat option"

text \<open>A pointer into the stack of the block is the index of the word it points to.\<close>

record tcb =
  stack_ptr :: "nat option"
  stack :: "u32 list"
  tstate :: task_state
  priority :: u8
  task_id :: u32
  tname :: "u8 list"
  wake_time :: tick_t
  tnext :: tcb_ptr

definition zero_tcb :: tcb where
  "zero_tcb = \<lparr>stack_ptr = None, stack = replicate TASK_STACK_SIZE 0, tstate = TASK_STATE_READY,
     priority = 0, task_id = 0, tname = replicate 16 0, wake_time = 0, tnext = None\<rparr>"

record kernel =
  task_pool :: "nat \<Rightarrow> tcb"
  next_task_id :: u32
  current_task :: tcb_ptr
  ready_lists :: "nat \<Rightarrow> tcb_ptr"
  system_tick_count :: tick_t
  scheduler_running :: bool
  current_tcb :: tcb_ptr
  delayed_list :: tcb_ptr

definition upd_tcb :: "nat \<Rightarrow> (tcb \<Rightarrow> tcb) \<Rightarrow> kernel \<Rightarrow> kernel" where
  "upd_tcb t f k = k\<lparr>task_pool := (task_pool k)(t := f (task_pool k t))\<rparr>"

lemma upd_tcb_simps [simp]:
  "task_pool (upd_tcb t f k) = (task_pool k)(t := f (task_pool k t))"
  "next_task_id (upd_tcb t f k) = next_task_id k"
  "current_task (upd_tcb t f k) = current_task k"
  "ready_lists (upd_tcb t f k) = ready_lists k"
  "system_tick_count (upd_tcb t f k) = system_tick_count k"
  "scheduler_running (upd_tcb t f k) = scheduler_running k"
  "current_tcb (upd_tcb t f k) = current_tcb k"
  "delayed_list (upd_tcb t f k) = delayed_list k"
  by (simp_all add: upd_tcb_def)

end
