(* ===== verification/Scheduler.thy ===== *)
theory Scheduler imports Kernel_State begin

text \<open>
  The scheduler (\<^verbatim>\<open>src/kernel/scheduler.c\<close>): one linked ready list per priority level, a
  list of delayed tasks, the decision \<open>schedule\<close> and its callers. \<^verbatim>\<open>context_switch\<close> of the
  simulation changes no state. Loops over linked lists are partial functions whose \<open>None\<close> is a
  loop that never ends; every operation that walks a list passes the \<open>None\<close> on.
\<close>

definition scheduler_init :: "kernel \<Rightarrow> kernel" where
  "scheduler_init k = k\<lparr>ready_lists := (\<lambda>_. None), system_tick_count := 0,
     scheduler_running := False, current_tcb := None, delayed_list := None\<rparr>"

section \<open>Ready lists\<close>

partial_function (option) find_tail :: "(nat \<Rightarrow> tcb) \<Rightarrow> nat \<Rightarrow> nat option" where
  "find_tail pool tail =
     (case tnext (pool tail) of None \<Rightarrow> Some tail | Some n \<Rightarrow> find_tail pool n)"

definition scheduler_add_task :: "kernel \<Rightarrow> tcb_ptr \<Rightarrow> kernel option" where
  "scheduler_add_task k tcb =
     (case tcb of
        None \<Rightarrow> Some k
      | Some t \<Rightarrow>
          let p = unat (priority (task_pool k t)) in
          if NUM_PRIORITY_LEVELS \<le> p then Some k
          else let k1 = upd_tcb t (\<lambda>b. b\<lparr>tstate := TASK_STATE_READY, tnext := None\<rparr>) k in
            (case ready_lists k1 p of
               None \<Rightarrow> Some (k1\<lparr>ready_lists := (ready_lists k1)(p := Some t)\<rparr>)
             | Some h \<Rightarrow> do { tail \<leftarrow> find_tail (task_pool k1) h;
                             Some (upd_tcb tail (\<lambda>b. b\<lparr>tnext := Some t\<rparr>) k1) }))"

text \<open>The loop of \<^verbatim>\<open>scheduler_remove_task\<close>; \<open>p\<close> is the priority whose head
  \<^verbatim>\<open>list\<close> points to.\<close>

partial_function (option) remove_loop ::
    "nat \<Rightarrow> nat \<Rightarrow> tcb_ptr \<Rightarrow> tcb_ptr \<Rightarrow> kernel \<Rightarrow> kernel option" where
  "remove_loop t p prev cur k =
     (case cur of
        None \<Rightarrow> Some k
      | Some c \<Rightarrow>
          if c = t
          then let nx = tnext (task_pool k c);
                   k1 = (case prev of
                           None \<Rightarrow> k\<lparr>ready_lists := (ready_lists k)(p := nx)\<rparr>
                         | Some q \<Rightarrow> upd_tcb q (\<lambda>b. b\<lparr>tnext := nx\<rparr>) k)
               in Some (upd_tcb t (\<lambda>b. b\<lparr>tnext := None\<rparr>) k1)
          else remove_loop t p (Some c) (tnext (task_pool k c)) k)"

definition scheduler_remove_task :: "kernel \<Rightarrow> tcb_ptr \<Rightarrow> kernel option" where
  "scheduler_remove_task k tcb =
     (case tcb of
        None \<Rightarrow> Some k
      | Some t \<Rightarrow>
          let p = unat (priority (task_pool k t)) in
          if NUM_PRIORITY_LEVELS \<le> p then Some k
          else remove_loop t p None (ready_lists k p) k)"

definition get_highest_priority_task :: "kernel \<Rightarrow> tcb_ptr" where
  "get_highest_priority_task k =
     (case find (\<lambda>i. ready_lists k i \<noteq> None) [0..<NUM_PRIORITY_LEVELS] of
        None \<Rightarrow> None
      | Some i \<Rightarrow> ready_lists k i)"

section \<open>Scheduling\<close>

definition task_set_current :: "tcb_ptr \<Rightarrow> kernel \<Rightarrow> kernel" where
  "task_set_current tcb k = k\<lparr>current_task := tcb\<rparr>"

text \<open>The rotation of the current task to the end of its queue.\<close>

definition rotate_current :: "kernel \<Rightarrow> kernel option" where
  "rotate_current k =
     (case current_tcb k of
        None \<Rightarrow> Some k
      | Some c \<Rightarrow>
          if tstate (task_pool k c) = TASK_STATE_READY
          then do { k1 \<leftarrow> scheduler_remove_task k (Some c); scheduler_add_task k1 (Some c) }
          else Some k)"

definition schedule :: "kernel \<Rightarrow> kernel option" where
  "schedule k =
     (case get_highest_priority_task k of
        None \<Rightarrow> Some k
      | Some n \<Rightarrow>
          if Some n \<noteq> current_tcb k
          then do { k1 \<leftarrow> rotate_current k;
                    k2 \<leftarrow> scheduler_remove_task k1 (Some n);
                    let k3 = upd_tcb n (\<lambda>b. b\<lparr>tstate := TASK_STATE_RUNNING\<rparr>) k2;
                    Some (task_set_current (Some n) (k3\<lparr>current_tcb := Some n\<rparr>)) }
          else Some k)"

definition scheduler_yield :: "kernel \<Rightarrow> kernel option" where
  "scheduler_yield k =
     (if \<not> scheduler_running k then Some k
      else do { k1 \<leftarrow> (case current_tcb k of
                          None \<Rightarrow> Some k
                        | Some c \<Rightarrow>
                            if tstate (task_pool k c) = TASK_STATE_RUNNING
                            then scheduler_add_task
                                   (upd_tcb c (\<lambda>b. b\<lparr>tstate := TASK_STATE_READY\<rparr>) k) (Some c)
                            else Some k);
                schedule k1 })"

definition scheduler_start :: "kernel \<Rightarrow> kernel option" where
  "scheduler_start k = schedule (k\<lparr>scheduler_running := True\<rparr>)"

section \<open>Time\<close>

partial_function (option) delayed_position :: "(nat \<Rightarrow> tcb) \<Rightarrow> nat \<Rightarrow> tick_t \<Rightarrow> nat option" where
  "delayed_position pool cur wt =
     (case tnext (pool cur) of
        None \<Rightarrow> Some cur
      | Some n \<Rightarrow> if wake_time (pool n) \<le> wt then delayed_position pool n wt else Some cur)"

definition add_to_delayed_list :: "kernel \<Rightarrow> nat \<Rightarrow> kernel option" where
  "add_to_delayed_list k t =
     (let k1 = upd_tcb t (\<lambda>b. b\<lparr>tnext := None\<rparr>) k in
      case delayed_list k1 of
        None \<Rightarrow> Some (k1\<lparr>delayed_list := Some t\<rparr>)
      | Some h \<Rightarrow>
          if wake_time (task_pool k1 t) < wake_time (task_pool k1 h)
          then Some ((upd_tcb t (\<lambda>b. b\<lparr>tnext := Some h\<rparr>) k1)\<lparr>delayed_list := Some t\<rparr>)
          else do { cur \<leftarrow> delayed_position (task_pool k1) h (wake_time (task_pool k1 t));
                    let k2 = upd_tcb t (\<lambda>b. b\<lparr>tnext := tnext (task_pool k1 cur)\<rparr>) k1;
                    Some (upd_tcb cur (\<lambda>b. b\<lparr>tnext := Some t\<rparr>) k2) })"

partial_function (option) process_delayed_tasks :: "kernel \<Rightarrow> kernel option" where
  "process_delayed_tasks k =
     (case delayed_list k of
        None \<Rightarrow> Some k
      | Some t \<Rightarrow>
          if wake_time (task_pool k t) \<le> system_tick_count k
          then do { k1 \<leftarrow> scheduler_add_task
                           (upd_tcb t (\<lambda>b. b\<lparr>tstate := TASK_STATE_READY, tnext := None\<rparr>)
                             (k\<lparr>delayed_list := tnext (task_pool k t)\<rparr>)) (Some t);
                    process_delayed_tasks k1 }
          else Some k)"

definition scheduler_tick :: "kernel \<Rightarrow> kernel option" where
  "scheduler_tick k =
     do { k1 \<leftarrow> process_delayed_tasks (k\<lparr>system_tick_count := system_tick_count k + 1\<rparr>);
          if scheduler_running k1
          then (case (get_highest_priority_task k1, current_tcb k1) of
                  (Some h, Some c) \<Rightarrow>
                    if priority (task_pool k1 h) < priority (task_pool k1 c)
                    then scheduler_yield k1 else Some k1
                | _ \<Rightarrow> Some k1)
          else Some k1 }"

definition scheduler_get_tick_count :: "kernel \<Rightarrow> tick_t" where
  "scheduler_get_tick_count k = system_tick_count k"

declare find_tail.simps [code]
declare remove_loop.simps [code]
declare delayed_position.simps [code]
declare process_delayed_tasks.simps [code]

end
