(* ===== verification/Ready_Queues.thy ===== *)
theory Ready_Queues imports Scheduler begin

text \<open>
  The linked lists of the scheduler as lists of slots: \<open>linked k qs\<close> says that the ready list of
  every priority \<open>p\<close> is a well-formed linked list of the slots \<open>qs p\<close>. On such states the
  loops end, \<open>scheduler_add_task\<close> appends to a queue and \<open>scheduler_remove_task\<close> removes from
  one; neither touches anything but links.
\<close>

section \<open>Linked lists of slots\<close>

fun tlist :: "(nat \<Rightarrow> tcb) \<Rightarrow> tcb_ptr \<Rightarrow> nat list \<Rightarrow> bool" where
  "tlist pool p [] \<longleftrightarrow> p = None"
| "tlist pool p (t # ts) \<longleftrightarrow> p = Some t \<and> tlist pool (tnext (pool t)) ts"

lemma tlist_head: "tlist pool p ts \<Longrightarrow> p = (case ts of [] \<Rightarrow> None | t # _ \<Rightarrow> Some t)"
  by (cases ts) auto

lemma tlist_cong: "(\<And>t. t \<in> set ts \<Longrightarrow> tnext (pool t) = tnext (pool' t)) \<Longrightarrow> tlist pool p ts = tlist pool' p ts"
  by (induction pool p ts rule: tlist.induct) auto

lemma tlist_transfer:
  "tlist pool p ts \<Longrightarrow> (\<And>t. t \<in> set ts \<Longrightarrow> tnext (pool' t) = tnext (pool t)) \<Longrightarrow> tlist pool' p ts"
  using tlist_cong by metis

lemma tlist_snoc:
  assumes "tlist pool p (ts @ [u])" and "distinct (ts @ [u])" and "t \<notin> set (ts @ [u])" and "tnext (pool t) = None"
  shows "tlist (pool(u := (pool u)\<lparr>tnext := Some t\<rparr>)) p (ts @ [u, t])"
  using assms
proof (induction pool p ts rule: tlist.induct)
  case (2 pool p v ts)
  then show ?case by (auto intro: tlist_transfer)
qed auto

lemma tlist_find_tail: "tlist pool (Some h) (ts @ [t]) \<Longrightarrow> find_tail pool h = Some t"
proof (induction ts arbitrary: h)
  case Nil
  then show ?case by (simp add: find_tail.simps)
next
  case (Cons v ts)
  then obtain n where "tnext (pool v) = Some n" "tlist pool (Some n) (ts @ [t])"
    by (cases ts) auto
  with Cons show ?case by (simp add: find_tail.simps [of pool v])
qed

section \<open>Everything but the links\<close>

definition unlink :: "tcb \<Rightarrow> tcb" where
  "unlink b = b\<lparr>tnext := None\<rparr>"

lemma unlink_simps [simp]:
  "unlink (b\<lparr>tnext := n\<rparr>) = unlink b" "unlink (unlink b) = unlink b"
  "stack_ptr (unlink b) = stack_ptr b" "stack (unlink b) = stack b" "tstate (unlink b) = tstate b"
  "priority (unlink b) = priority b" "task_id (unlink b) = task_id b" "tname (unlink b) = tname b"
  "wake_time (unlink b) = wake_time b" "tnext (unlink b) = None"
  "unlink (b\<lparr>tstate := s\<rparr>) = (unlink b)\<lparr>tstate := s\<rparr>"
  by (cases b; simp add: unlink_def)+

text \<open>The control blocks of a state without their links.\<close>

definition core :: "kernel \<Rightarrow> nat \<Rightarrow> tcb" where
  "core k t = unlink (task_pool k t)"

lemma core_simps [simp]:
  "tstate (core k t) = tstate (task_pool k t)" "priority (core k t) = priority (task_pool k t)"
  "task_id (core k t) = task_id (task_pool k t)" "wake_time (core k t) = wake_time (task_pool k t)"
  by (simp_all add: core_def)

text \<open>\<open>same_rest\<close>: the two states differ in task control blocks and ready lists only.\<close>

definition same_rest :: "kernel \<Rightarrow> kernel \<Rightarrow> bool" where
  "same_rest k k' \<longleftrightarrow> k' = k\<lparr>task_pool := task_pool k', ready_lists := ready_lists k'\<rparr>"

lemma same_restD [simp]:
  assumes "same_rest k k'"
  shows "next_task_id k' = next_task_id k" "current_task k' = current_task k"
    "system_tick_count k' = system_tick_count k" "scheduler_running k' = scheduler_running k"
    "current_tcb k' = current_tcb k" "delayed_list k' = delayed_list k"
  using assms unfolding same_rest_def by (metis kernel.ext_inject kernel.surjective kernel.update_convs(1,4))+

lemma same_rest_refl: "same_rest k k"
  by (simp add: same_rest_def)

lemma same_rest_trans: "same_rest k k1 \<Longrightarrow> same_rest k1 k2 \<Longrightarrow> same_rest k k2"
  by (cases k; cases k1; cases k2) (auto simp: same_rest_def)

lemma same_rest_upd [simp]: "same_rest k (upd_tcb t f k)"
  by (simp add: same_rest_def upd_tcb_def)

section \<open>The ready lists\<close>

definition linked :: "kernel \<Rightarrow> (nat \<Rightarrow> nat list) \<Rightarrow> bool" where
  "linked k qs \<longleftrightarrow>
     (\<forall>p<NUM_PRIORITY_LEVELS. tlist (task_pool k) (ready_lists k p) (qs p) \<and> distinct (qs p)
        \<and> (\<forall>t\<in>set (qs p). unat (priority (task_pool k t)) = p))"

lemma linkedD:
  assumes "linked k qs" and "p < NUM_PRIORITY_LEVELS"
  shows "tlist (task_pool k) (ready_lists k p) (qs p)" "distinct (qs p)"
    "t \<in> set (qs p) \<Longrightarrow> unat (priority (task_pool k t)) = p"
  using assms by (simp_all add: linked_def)

lemma linked_cong:
  "linked k qs \<Longrightarrow> ready_lists k' = ready_lists k \<Longrightarrow>
   (\<And>t. tnext (task_pool k' t) = tnext (task_pool k t)) \<Longrightarrow>
   (\<And>t. priority (task_pool k' t) = priority (task_pool k t)) \<Longrightarrow> linked k' qs"
  unfolding linked_def by (metis tlist_cong)

text \<open>Changing a slot that is in no queue disturbs no queue.\<close>

lemma linked_unqueued:
  assumes "linked k qs" and "\<And>p. p < NUM_PRIORITY_LEVELS \<Longrightarrow> t \<notin> set (qs p)"
  shows "linked (upd_tcb t f k) qs"
  unfolding linked_def
proof (intro allI impI conjI ballI)
  fix p
  assume p: "p < NUM_PRIORITY_LEVELS"
  note l = linkedD [OF assms(1) p]
  show "distinct (qs p)" by (rule l)
  show "tlist (task_pool (upd_tcb t f k)) (ready_lists (upd_tcb t f k) p) (qs p)"
    using assms(2) [OF p] by (auto intro: tlist_transfer [OF l(1)])
  fix u
  assume "u \<in> set (qs p)"
  with l(3) assms(2) [OF p] show "unat (priority (task_pool (upd_tcb t f k) u)) = p" by auto
qed

lemma linked_snoc:
  assumes lk: "linked k qs" and p: "p < NUM_PRIORITY_LEVELS" and snoc: "qs p = ts @ [u]"
    and pr: "unat (priority (task_pool k t)) = p" and last: "tnext (task_pool k t) = None"
    and new: "\<And>q. q < NUM_PRIORITY_LEVELS \<Longrightarrow> t \<notin> set (qs q)"
  shows "linked (upd_tcb u (\<lambda>b. b\<lparr>tnext := Some t\<rparr>) k) (qs(p := qs p @ [t]))" (is "linked ?k ?qs")
  unfolding linked_def
proof (intro allI impI)
  fix q
  assume q: "q < NUM_PRIORITY_LEVELS"
  note l = linkedD [OF lk p] and lq = linkedD [OF lk q]
  show "tlist (task_pool ?k) (ready_lists ?k q) (?qs q) \<and> distinct (?qs q)
      \<and> (\<forall>v\<in>set (?qs q). unat (priority (task_pool ?k v)) = q)"
  proof (cases "q = p")
    case True
    have "tlist ((task_pool k)(u := (task_pool k u)\<lparr>tnext := Some t\<rparr>)) (ready_lists k p) (ts @ [u, t])"
      by (rule tlist_snoc) (use l snoc new [OF p] last in simp_all)
    with True lq new [OF p] pr snoc show ?thesis by auto
  next
    case False
    have "u \<notin> set (qs q)" using lq(3) l(3) [of u] snoc False by auto
    then have "tlist (task_pool ?k) (ready_lists ?k q) (qs q)"
      by (auto intro: tlist_transfer [OF lq(1)])
    with False lq show ?thesis by auto
  qed
qed

lemma add_task_append:
  assumes lk: "linked k qs" and p: "unat (priority (task_pool k t)) = p" "p < NUM_PRIORITY_LEVELS"
    and new: "\<And>q. q < NUM_PRIORITY_LEVELS \<Longrightarrow> t \<notin> set (qs q)"
  shows "\<exists>k'. scheduler_add_task k (Some t) = Some k' \<and> linked k' (qs(p := qs p @ [t]))
    \<and> core k' = (core k)(t := (core k t)\<lparr>tstate := TASK_STATE_READY\<rparr>) \<and> same_rest k k'"
proof -
  define k1 where "k1 = upd_tcb t (\<lambda>b. b\<lparr>tstate := TASK_STATE_READY, tnext := None\<rparr>) k"
  have lk1: "linked k1 qs" unfolding k1_def by (rule linked_unqueued [OF lk new])
  note l = linkedD [OF lk1 p(2)]
  have core1: "core k1 = (core k)(t := (core k t)\<lparr>tstate := TASK_STATE_READY\<rparr>)"
    by (auto simp: core_def k1_def fun_eq_iff)
  have rest1: "same_rest k k1" by (simp add: same_rest_def k1_def upd_tcb_def)
  have pr: "unat (priority (task_pool k1 t)) = p" using p(1) by (simp add: k1_def)
  show ?thesis
  proof (cases "qs p" rule: rev_cases)
    case Nil
    then have "ready_lists k1 p = None" using l(1) by simp
    moreover define k' where "k' = k1\<lparr>ready_lists := (ready_lists k1)(p := Some t)\<rparr>"
    ultimately have "scheduler_add_task k (Some t) = Some k'"
      using p by (simp add: scheduler_add_task_def k1_def)
    moreover have "linked k' (qs(p := qs p @ [t]))"
      using lk1 Nil pr by (auto simp: linked_def k'_def k1_def)
    moreover have "core k' = core k1" "same_rest k k'"
      using rest1 by (auto simp: core_def k'_def same_rest_def k1_def upd_tcb_def)
    ultimately show ?thesis using core1 by auto
  next
    case (snoc ts u)
    then obtain h where h: "ready_lists k1 p = Some h" using l(1) by (cases ts) auto
    with l(1) snoc have tail: "find_tail (task_pool k1) h = Some u" by (auto intro: tlist_find_tail)
    define k' where "k' = upd_tcb u (\<lambda>b. b\<lparr>tnext := Some t\<rparr>) k1"
    have "scheduler_add_task k (Some t) = Some k'"
      using p h tail by (simp add: scheduler_add_task_def k1_def k'_def)
    moreover have "linked k' (qs(p := qs p @ [t]))"
      unfolding k'_def by (rule linked_snoc [OF lk1 p(2) snoc pr _ new]) (simp_all add: k1_def)
    moreover have "core k' = core k1" "same_rest k k'"
      using rest1 by (auto simp: core_def k'_def same_rest_def k1_def upd_tcb_def)
    ultimately show ?thesis using core1 by auto
  qed
qed

section \<open>Removal\<close>

lemma tlist_bypass:
  "tlist pool h (pre @ u # t # post) \<Longrightarrow> tnext (pool' u) = tnext (pool t) \<Longrightarrow>
   (\<And>v. v \<in> set (pre @ post) \<Longrightarrow> tnext (pool' v) = tnext (pool v)) \<Longrightarrow> tlist pool' h (pre @ u # post)"
proof (induction pool h pre rule: tlist.induct)
  case (1 pool h)
  then have "tlist pool (tnext (pool t)) post" by simp
  from tlist_transfer [OF this] 1 show ?case by auto
qed auto

lemma remove_step:
  assumes lk: "linked k qs" and p: "p < NUM_PRIORITY_LEVELS" and q: "qs p = pre @ t # post"
    and k': "k' = upd_tcb t (\<lambda>b. b\<lparr>tnext := None\<rparr>)
      (if pre = [] then k\<lparr>ready_lists := (ready_lists k)(p := tnext (task_pool k t))\<rparr>
       else upd_tcb (last pre) (\<lambda>b. b\<lparr>tnext := tnext (task_pool k t)\<rparr>) k)"
  shows "linked k' (qs(p := pre @ post))"
  unfolding linked_def
proof (intro allI impI)
  fix r
  assume r: "r < NUM_PRIORITY_LEVELS"
  note l = linkedD [OF lk r] and lp = linkedD [OF lk p]
  have prio: "priority (task_pool k' v) = priority (task_pool k v)" for v by (simp add: k')
  have tl: "tlist (task_pool k') (ready_lists k' r) ((qs(p := pre @ post)) r)"
  proof (cases "r = p")
    case False
    then have "t \<notin> set (qs r)" "pre \<noteq> [] \<Longrightarrow> last pre \<notin> set (qs r)"
      using lp(3) [of t] lp(3) [of "last pre"] l(3) q by auto
    then have "tlist (task_pool k') (ready_lists k r) (qs r)"
      by (intro tlist_transfer [OF l(1)]) (auto simp: k')
    moreover have "ready_lists k' r = ready_lists k r" using False by (simp add: k')
    ultimately show ?thesis using False by simp
  next
    case True
    show ?thesis
    proof (cases pre rule: rev_cases)
      case Nil
      then have post: "tlist (task_pool k) (tnext (task_pool k t)) post" "t \<notin> set post" using lp(1,2) q by auto
      have "tlist (task_pool k') (tnext (task_pool k t)) post"
        by (rule tlist_transfer [OF post(1)]) (use post(2) in \<open>auto simp: k' Nil\<close>)
      with True Nil show ?thesis by (simp add: k')
    next
      case (snoc pre' u)
      have "tlist (task_pool k') (ready_lists k p) (pre' @ u # post)"
        by (rule tlist_bypass [of "task_pool k" _ _ _ t]) (use snoc lp(1,2) q in \<open>auto simp: k'\<close>)
      moreover have "ready_lists k' r = ready_lists k r" using snoc by (simp add: k')
      ultimately show ?thesis using True snoc by simp
    qed
  qed
  have "distinct ((qs(p := pre @ post)) r)" using l(2) q by auto
  moreover have "\<forall>v\<in>set ((qs(p := pre @ post)) r). unat (priority (task_pool k' v)) = r"
    using l(3) q by (auto simp: prio)
  ultimately show "tlist (task_pool k') (ready_lists k' r) ((qs(p := pre @ post)) r)
      \<and> distinct ((qs(p := pre @ post)) r)
      \<and> (\<forall>v\<in>set ((qs(p := pre @ post)) r). unat (priority (task_pool k' v)) = r)" using tl by blast
qed

lemma remove_loop_linked:
  assumes lk: "linked k qs" and p: "p < NUM_PRIORITY_LEVELS"
  shows "tlist (task_pool k) cur rest \<Longrightarrow> qs p = pre @ rest \<Longrightarrow> t \<notin> set pre \<Longrightarrow>
    prev = (if pre = [] then None else Some (last pre)) \<Longrightarrow>
    \<exists>k'. remove_loop t p prev cur k = Some k' \<and> linked k' (qs(p := remove1 t (qs p)))
      \<and> core k' = core k \<and> same_rest k k'"
proof (induction rest arbitrary: cur pre prev)
  case Nil
  then have "remove_loop t p prev cur k = Some k" by (subst remove_loop.simps) simp
  moreover have "remove1 t (qs p) = qs p" using Nil by (simp add: remove1_idem)
  moreover have "linked k (qs(p := remove1 t (qs p)))" using lk calculation(2) by (simp only: fun_upd_triv)
  ultimately show ?case using same_rest_refl by blast
next
  case (Cons c rest)
  show ?case
  proof (cases "c = t")
    case True
    define k' where "k' = upd_tcb t (\<lambda>b. b\<lparr>tnext := None\<rparr>)
      (if pre = [] then k\<lparr>ready_lists := (ready_lists k)(p := tnext (task_pool k t))\<rparr>
       else upd_tcb (last pre) (\<lambda>b. b\<lparr>tnext := tnext (task_pool k t)\<rparr>) k)"
    have "remove_loop t p prev cur k = Some k'"
      using Cons.prems True by (subst remove_loop.simps) (simp add: k'_def)
    moreover have "remove1 t (qs p) = pre @ rest" using Cons.prems(2,3) True by (simp add: remove1_append)
    moreover have "linked k' (qs(p := pre @ rest))"
      by (rule remove_step [OF lk p _ k'_def]) (use Cons.prems(2) True in simp)
    moreover have "core k' = core k" by (auto simp: core_def k'_def fun_eq_iff)
    moreover have "same_rest k k'"
      unfolding same_rest_def k'_def upd_tcb_def by (cases "pre = []") simp_all
    ultimately show ?thesis by (intro exI [of _ k']) (simp only: simp_thms)
  next
    case False
    then have "remove_loop t p prev cur k = remove_loop t p (Some c) (tnext (task_pool k c)) k"
      using Cons.prems(1) by (subst remove_loop.simps) simp
    then show ?thesis
      by (simp only:) (rule Cons.IH [of _ "pre @ [c]"]; use Cons.prems(1-3) False in simp)
  qed
qed

lemma remove_task_remove1:
  assumes lk: "linked k qs" and p: "unat (priority (task_pool k t)) = p" "p < NUM_PRIORITY_LEVELS"
  shows "\<exists>k'. scheduler_remove_task k (Some t) = Some k' \<and> linked k' (qs(p := remove1 t (qs p)))
    \<and> core k' = core k \<and> same_rest k k'"
  using remove_loop_linked [OF lk p(2) linkedD(1) [OF lk p(2)], of "[]" t None] p
  by (simp add: scheduler_remove_task_def)

section \<open>The highest ready task\<close>

text \<open>The first task of the first queue that is not empty.\<close>

definition front :: "(nat \<Rightarrow> nat list) \<Rightarrow> tcb_ptr" where
  "front qs = (case find (\<lambda>p. qs p \<noteq> []) [0..<NUM_PRIORITY_LEVELS] of None \<Rightarrow> None | Some p \<Rightarrow> Some (hd (qs p)))"

lemma find_cong_set: "(\<And>x. x \<in> set xs \<Longrightarrow> P x = Q x) \<Longrightarrow> find P xs = find Q xs"
  by (induction xs) auto

lemma find_upt_Some:
  "find P [0..<n] = Some i \<longleftrightarrow> i < n \<and> P i \<and> (\<forall>j<i. \<not> P j)"
proof -
  have "find P [0..<n] = Some i \<longleftrightarrow> (\<exists>j<n. P ([0..<n] ! j) \<and> i = [0..<n] ! j \<and> (\<forall>l<j. \<not> P ([0..<n] ! l)))"
    by (simp add: find_Some_iff)
  also have "\<dots> \<longleftrightarrow> i < n \<and> P i \<and> (\<forall>j<i. \<not> P j)" by auto
  finally show ?thesis .
qed

lemma highest_front:
  assumes "linked k qs"
  shows "get_highest_priority_task k = front qs"
proof -
  have head: "ready_lists k p = (case qs p of [] \<Rightarrow> None | t # _ \<Rightarrow> Some t)" if "p < NUM_PRIORITY_LEVELS" for p
    using tlist_head [OF linkedD(1) [OF assms that]] .
  have f: "find (\<lambda>i. ready_lists k i \<noteq> None) [0..<NUM_PRIORITY_LEVELS] = find (\<lambda>p. qs p \<noteq> []) [0..<NUM_PRIORITY_LEVELS]"
    by (rule find_cong_set) (auto simp: head split: list.splits)
  show ?thesis
  proof (cases "find (\<lambda>p. qs p \<noteq> []) [0..<NUM_PRIORITY_LEVELS]")
    case (Some p)
    then have "p < NUM_PRIORITY_LEVELS" "qs p \<noteq> []" by (auto simp: find_upt_Some)
    with Some show ?thesis unfolding get_highest_priority_task_def front_def f
      by (cases "qs p") (simp_all add: head)
  next
    case None
    then show ?thesis unfolding get_highest_priority_task_def front_def f by simp
  qed
qed

lemma front_None: "front qs = None \<longleftrightarrow> (\<forall>p<NUM_PRIORITY_LEVELS. qs p = [])"
proof -
  have "find (\<lambda>p. qs p \<noteq> []) [0..<NUM_PRIORITY_LEVELS] = None \<longleftrightarrow> (\<forall>p<NUM_PRIORITY_LEVELS. qs p = [])"
    by (auto simp: find_None_iff)
  then show ?thesis unfolding front_def by (metis (no_types, lifting) option.case_eq_if option.discI)
qed

lemma front_Some:
  "front qs = Some t \<longleftrightarrow> (\<exists>p<NUM_PRIORITY_LEVELS. qs p \<noteq> [] \<and> hd (qs p) = t \<and> (\<forall>r<p. qs r = []))"
proof (cases "find (\<lambda>p. qs p \<noteq> []) [0..<NUM_PRIORITY_LEVELS]")
  case None
  then have "front qs = None" by (simp add: front_def)
  with front_None [of qs] show ?thesis by auto
next
  case (Some p)
  then have p: "p < NUM_PRIORITY_LEVELS" "qs p \<noteq> []" "\<forall>r<p. qs r = []" by (auto simp: find_upt_Some)
  have "r = p" if "qs r \<noteq> []" "\<forall>j<r. qs j = []" for r
    using that p by (cases r p rule: linorder_cases) auto
  moreover have "front qs = Some t \<longleftrightarrow> hd (qs p) = t" using Some by (simp add: front_def)
  ultimately show ?thesis using p by blast
qed

end
