(* ===== verification/Task.thy ===== *)
theory Task imports Scheduler begin

text \<open>
  Task management (\<^verbatim>\<open>src/kernel/task.c\<close>) and the stack check of
  \<^verbatim>\<open>src/kernel/memory.c\<close>. Function and parameter pointers of a task are addresses, stored
  in its initial stack frame truncated to 32 bits as the casts of the code do.
\<close>

definition task_init :: "kernel \<Rightarrow> kernel" where
  "task_init k = k\<lparr>task_pool := (\<lambda>_. zero_tcb), next_task_id := 1, current_task := None\<rparr>"

section \<open>Lookup\<close>

definition task_get_tcb :: "kernel \<Rightarrow> u32 \<Rightarrow> tcb_ptr" where
  "task_get_tcb k tid =
     find (\<lambda>i. task_id (task_pool k i) = tid \<and> tstate (task_pool k i) \<noteq> TASK_STATE_DELETED)
       [0..<MAX_TASKS]"

definition task_get_current_id :: "kernel \<Rightarrow> u32" where
  "task_get_current_id k = (case current_task k of None \<Rightarrow> 0 | Some t \<Rightarrow> task_id (task_pool k t))"

definition task_get_current_tcb :: "kernel \<Rightarrow> tcb_ptr" where
  "task_get_current_tcb k = current_task k"

section \<open>Creation\<close>

text \<open>\<^verbatim>\<open>*(--stack_top) = v\<close> on a stack and the index of its top.\<close>

definition push_word :: "u32 \<Rightarrow> u32 list \<times> nat \<Rightarrow> u32 list \<times> nat" where
  "push_word v st = ((fst st)[snd st - 1 := v], snd st - 1)"

definition task_init_stack :: "addr \<Rightarrow> addr \<Rightarrow> tcb \<Rightarrow> tcb" where
  "task_init_stack fun_ptr params tcb =
     (let frame = [0x01000000, of_nat fun_ptr, 0xFFFFFFFD, 0x12121212, 0x03030303, 0x02020202,
                   0x01010101, of_nat params,
                   0x11111111, 0x10101010, 0x09090909, 0x08080808, 0x07070707, 0x06060606,
                   0x05050505, 0x04040404];
          (st, stack_top) = fold push_word frame (stack tcb, TASK_STACK_SIZE - 1)
      in tcb\<lparr>stack := st, stack_ptr := Some stack_top\<rparr>)"

text \<open>The bytes of the string literal \<^verbatim>\<open>"unnamed"\<close>.\<close>

definition unnamed :: "u8 list" where
  "unnamed = [0x75, 0x6E, 0x6E, 0x61, 0x6D, 0x65, 0x64]"

text \<open>
  \<^verbatim>\<open>strncpy(dst, src, n)\<close> on a destination of at least \<open>n\<close> bytes, with \<open>src\<close> the bytes
  before the terminating zero: at most \<open>n\<close> bytes are copied and the rest of the \<open>n\<close> is zeroed.
\<close>

definition strncpy :: "u8 list \<Rightarrow> u8 list \<Rightarrow> nat \<Rightarrow> u8 list" where
  "strncpy dst src n = take n src @ replicate (n - length src) 0 @ drop n dst"

definition find_free_slot :: "kernel \<Rightarrow> tcb_ptr" where
  "find_free_slot k =
     find (\<lambda>i. tstate (task_pool k i) = TASK_STATE_DELETED \<or> task_id (task_pool k i) = 0)
       [0..<MAX_TASKS]"

text \<open>
  \<open>name\<close> is \<open>None\<close> for a null pointer. The result has the status and, when the task was
  created, the identifier stored through the \<^verbatim>\<open>task_id\<close> argument.
\<close>

definition task_create ::
    "addr \<Rightarrow> u8 list option \<Rightarrow> u8 \<Rightarrow> addr \<Rightarrow> kernel \<Rightarrow> (kernel \<times> rtos_status \<times> u32 option) option" where
  "task_create fun_ptr name prio params k =
     (if fun_ptr = NULL \<or> NUM_PRIORITY_LEVELS \<le> unat prio then Some (k, RTOS_ERROR_INVALID_PARAM, None)
      else case find_free_slot k of
        None \<Rightarrow> Some (k, RTOS_ERROR_NO_MEMORY, None)
      | Some t \<Rightarrow>
          let b1 = zero_tcb\<lparr>task_id := next_task_id k, priority := prio, tstate := TASK_STATE_READY\<rparr>;
              b2 = b1\<lparr>tname := (strncpy (tname b1) (case name of Some s \<Rightarrow> s | None \<Rightarrow> unnamed) 15)[15 := 0]\<rparr>;
              b3 = task_init_stack fun_ptr params b2;
              k1 = (upd_tcb t (\<lambda>_. b3) k)\<lparr>next_task_id := next_task_id k + 1\<rparr>
          in do { k2 \<leftarrow> scheduler_add_task k1 (Some t);
                  Some (k2, RTOS_OK, Some (task_id (task_pool k2 t))) })"

section \<open>State changes\<close>

definition task_yield :: "kernel \<Rightarrow> kernel option" where
  "task_yield k = scheduler_yield k"

definition task_delete :: "u32 \<Rightarrow> kernel \<Rightarrow> (kernel \<times> rtos_status) option" where
  "task_delete tid k =
     (case task_get_tcb k tid of
        None \<Rightarrow> Some (k, RTOS_ERROR_INVALID_PARAM)
      | Some t \<Rightarrow>
          do { k1 \<leftarrow> scheduler_remove_task k (Some t);
               let k2 = upd_tcb t (\<lambda>b. b\<lparr>tstate := TASK_STATE_DELETED\<rparr>) k1;
               k3 \<leftarrow> (if Some t = current_task k2 then task_yield k2 else Some k2);
               Some (k3, RTOS_OK) })"

definition task_suspend :: "u32 \<Rightarrow> kernel \<Rightarrow> (kernel \<times> rtos_status) option" where
  "task_suspend tid k =
     (case task_get_tcb k tid of
        None \<Rightarrow> Some (k, RTOS_ERROR_INVALID_PARAM)
      | Some t \<Rightarrow>
          if tstate (task_pool k t) = TASK_STATE_DELETED then Some (k, RTOS_ERROR_INVALID_PARAM)
          else do { k1 \<leftarrow> scheduler_remove_task
                           (upd_tcb t (\<lambda>b. b\<lparr>tstate := TASK_STATE_SUSPENDED\<rparr>) k) (Some t);
                    k2 \<leftarrow> (if Some t = current_task k1 then task_yield k1 else Some k1);
                    Some (k2, RTOS_OK) })"

definition task_resume :: "u32 \<Rightarrow> kernel \<Rightarrow> (kernel \<times> rtos_status) option" where
  "task_resume tid k =
     (case task_get_tcb k tid of
        None \<Rightarrow> Some (k, RTOS_ERROR_INVALID_PARAM)
      | Some t \<Rightarrow>
          if tstate (task_pool k t) \<noteq> TASK_STATE_SUSPENDED then Some (k, RTOS_ERROR_INVALID_PARAM)
          else do { k1 \<leftarrow> scheduler_add_task
                           (upd_tcb t (\<lambda>b. b\<lparr>tstate := TASK_STATE_READY\<rparr>) k) (Some t);
                    Some (k1, RTOS_OK) })"

definition task_delay :: "tick_t \<Rightarrow> kernel \<Rightarrow> kernel option" where
  "task_delay ticks k =
     (case current_task k of
        None \<Rightarrow> Some k
      | Some t \<Rightarrow>
          if 0 < ticks
          then do { k1 \<leftarrow> scheduler_remove_task
                           (upd_tcb t (\<lambda>b. b\<lparr>wake_time := scheduler_get_tick_count k + ticks,
                                            tstate := TASK_STATE_BLOCKED\<rparr>) k) (Some t);
                    task_yield k1 }
          else Some k)"

section \<open>Stack check\<close>

definition STACK_CANARY :: u32 where
  "STACK_CANARY = 0xCAFEBABE"

definition memory_check_stack_overflow :: "kernel \<Rightarrow> u32 \<Rightarrow> bool" where
  "memory_check_stack_overflow k tid =
     (case task_get_tcb k tid of
        None \<Rightarrow> False
      | Some t \<Rightarrow>
          let stack_bottom = stack (task_pool k t)
          in list_ex (\<lambda>i. stack_bottom ! i \<noteq> STACK_CANARY \<and> stack_bottom ! i \<noteq> 0) [0..<4])"

end
