(* ===== verification/Sched_Spec.thy ===== *)
theory Sched_Spec imports Ready_Queues Task begin

text \<open>
  The scheduler over queues instead of linked lists, as an abstract specification, and the
  refinement: on states whose ready lists are well-formed (\<open>linked\<close>), \<open>schedule\<close> and
  \<open>scheduler_yield\<close> return and do what the specification says. The abstract state is the task
  blocks without links, the queue of every priority and the current task.
\<close>

section \<open>The specification\<close>

type_synonym queues = "nat \<Rightarrow> nat list"
type_synonym sched_view = "(nat \<Rightarrow> tcb) \<times> queues \<times> tcb_ptr"

abbreviation prio_of :: "(nat \<Rightarrow> tcb) \<Rightarrow> nat \<Rightarrow> nat" where
  "prio_of c t \<equiv> unat (priority (c t))"

definition set_state :: "task_state \<Rightarrow> nat \<Rightarrow> (nat \<Rightarrow> tcb) \<Rightarrow> nat \<Rightarrow> tcb" where
  "set_state st t c = c(t := (c t)\<lparr>tstate := st\<rparr>)"

definition enqueue :: "(nat \<Rightarrow> tcb) \<Rightarrow> nat \<Rightarrow> queues \<Rightarrow> queues" where
  "enqueue c t qs = qs(prio_of c t := qs (prio_of c t) @ [t])"

definition dequeue :: "(nat \<Rightarrow> tcb) \<Rightarrow> nat \<Rightarrow> queues \<Rightarrow> queues" where
  "dequeue c t qs = qs(prio_of c t := remove1 t (qs (prio_of c t)))"

text \<open>The current task, when it is ready, goes to the end of its queue.\<close>

definition spec_rotate :: "(nat \<Rightarrow> tcb) \<Rightarrow> tcb_ptr \<Rightarrow> queues \<Rightarrow> queues" where
  "spec_rotate c cur qs =
     (case cur of
        None \<Rightarrow> qs
      | Some x \<Rightarrow> if tstate (c x) = TASK_STATE_READY then enqueue c x (dequeue c x qs) else qs)"

text \<open>The front of the highest queue runs, unless it is the current task already.\<close>

definition spec_schedule :: "sched_view \<Rightarrow> sched_view" where
  "spec_schedule = (\<lambda>(c, qs, cur).
     case front qs of
       None \<Rightarrow> (c, qs, cur)
     | Some n \<Rightarrow>
         if Some n = cur then (c, qs, cur)
         else (set_state TASK_STATE_RUNNING n c, dequeue c n (spec_rotate c cur qs), Some n))"

definition spec_yield :: "sched_view \<Rightarrow> sched_view" where
  "spec_yield = (\<lambda>(c, qs, cur).
     case cur of
       None \<Rightarrow> spec_schedule (c, qs, cur)
     | Some x \<Rightarrow>
         if tstate (c x) = TASK_STATE_RUNNING
         then spec_schedule (set_state TASK_STATE_READY x c, enqueue c x qs, cur)
         else spec_schedule (c, qs, cur))"

lemma set_state_simps [simp]:
  "priority (set_state st t c u) = priority (c u)" "task_id (set_state st t c u) = task_id (c u)"
  "wake_time (set_state st t c u) = wake_time (c u)"
  "tstate (set_state st t c u) = (if u = t then st else tstate (c u))"
  by (simp_all add: set_state_def)

lemma set_state_twice [simp]: "set_state st t (set_state st' t c) = set_state st t c"
  by (simp add: set_state_def)

lemma in_enqueue [simp]: "v \<in> set (enqueue c t qs p) \<longleftrightarrow> v \<in> set (qs p) \<or> v = t \<and> p = prio_of c t"
  by (auto simp: enqueue_def)

lemma in_dequeue:
  "(\<And>p. distinct (qs p)) \<Longrightarrow> v \<in> set (dequeue c t qs p) \<longleftrightarrow> v \<in> set (qs p) \<and> (v \<noteq> t \<or> p \<noteq> prio_of c t)"
  by (auto simp: dequeue_def)

section \<open>Refinement\<close>

text \<open>The slot of a task whose priority is in range; what the callers of the scheduler pass.\<close>

definition refines :: "kernel \<Rightarrow> queues \<Rightarrow> kernel \<Rightarrow> sched_view \<Rightarrow> bool" where
  "refines k qs k' v \<longleftrightarrow> linked k' (fst (snd v)) \<and> core k' = fst v \<and> current_tcb k' = snd (snd v)
     \<and> k' = k\<lparr>task_pool := task_pool k', ready_lists := ready_lists k', current_tcb := current_tcb k',
             current_task := current_task k'\<rparr>
     \<and> (current_task k = current_tcb k \<longrightarrow> current_task k' = current_tcb k')"

lemma refinesD:
  assumes "refines k qs k' (c, qs', cur)"
  shows "linked k' qs'" "core k' = c" "current_tcb k' = cur"
    "current_task k = current_tcb k \<Longrightarrow> current_task k' = current_tcb k'"
    "next_task_id k' = next_task_id k" "system_tick_count k' = system_tick_count k"
    "scheduler_running k' = scheduler_running k" "delayed_list k' = delayed_list k"
proof -
  from assms show "linked k' qs'" "core k' = c" "current_tcb k' = cur"
    "current_task k = current_tcb k \<Longrightarrow> current_task k' = current_tcb k'" by (simp_all add: refines_def)
  from assms have e: "k' = k\<lparr>task_pool := task_pool k', ready_lists := ready_lists k', current_tcb := current_tcb k',
             current_task := current_task k'\<rparr>" unfolding refines_def by blast
  show "next_task_id k' = next_task_id k" using arg_cong [OF e, of next_task_id] by simp
  show "system_tick_count k' = system_tick_count k" using arg_cong [OF e, of system_tick_count] by simp
  show "scheduler_running k' = scheduler_running k" using arg_cong [OF e, of scheduler_running] by simp
  show "delayed_list k' = delayed_list k" using arg_cong [OF e, of delayed_list] by simp
qed

lemma add_task_refines:
  assumes "linked k qs" and "prio_of (core k) t < NUM_PRIORITY_LEVELS"
    and "\<And>q. q < NUM_PRIORITY_LEVELS \<Longrightarrow> t \<notin> set (qs q)"
  shows "\<exists>k'. scheduler_add_task k (Some t) = Some k' \<and> linked k' (enqueue (core k) t qs)
    \<and> core k' = set_state TASK_STATE_READY t (core k) \<and> same_rest k k'"
  using add_task_append [OF assms(1) refl _ assms(3)] assms(2) by (simp add: enqueue_def set_state_def)

lemma remove_task_refines:
  assumes "linked k qs" and "prio_of (core k) t < NUM_PRIORITY_LEVELS"
  shows "\<exists>k'. scheduler_remove_task k (Some t) = Some k' \<and> linked k' (dequeue (core k) t qs)
    \<and> core k' = core k \<and> same_rest k k'"
  using remove_task_remove1 [OF assms(1) refl] assms(2) by (simp add: dequeue_def)

lemma front_in:
  assumes "linked k qs" and "front qs = Some n"
  shows "prio_of (core k) n < NUM_PRIORITY_LEVELS" and "n \<in> set (qs (prio_of (core k) n))"
proof -
  from assms(2) obtain p where p: "p < NUM_PRIORITY_LEVELS" "qs p \<noteq> []" "hd (qs p) = n"
    by (auto simp: front_Some)
  then have "n \<in> set (qs p)" using hd_in_set by blast
  moreover from this have "prio_of (core k) n = p" using linkedD(3) [OF assms(1) p(1)] by simp
  ultimately show "prio_of (core k) n < NUM_PRIORITY_LEVELS" "n \<in> set (qs (prio_of (core k) n))"
    using p(1) by auto
qed

lemma set_state_id: "tstate (c t) = st \<Longrightarrow> set_state st t c = c"
  by (auto simp: set_state_def)

lemma rotate_refines:
  assumes lk: "linked k qs" and cur: "\<And>x. current_tcb k = Some x \<Longrightarrow> prio_of (core k) x < NUM_PRIORITY_LEVELS"
  shows "\<exists>k'. rotate_current k = Some k' \<and> linked k' (spec_rotate (core k) (current_tcb k) qs)
    \<and> core k' = core k \<and> same_rest k k'"
proof (cases "\<exists>x. current_tcb k = Some x \<and> tstate (core k x) = TASK_STATE_READY")
  case False
  then show ?thesis using lk by (auto simp: rotate_current_def spec_rotate_def same_rest_refl split: option.splits)
next
  case True
  then obtain x where x: "current_tcb k = Some x" "tstate (core k x) = TASK_STATE_READY" by blast
  from remove_task_refines [OF lk cur [OF x(1)]] obtain k1 where
    k1: "scheduler_remove_task k (Some x) = Some k1" "linked k1 (dequeue (core k) x qs)" "core k1 = core k"
      "same_rest k k1" by blast
  have "x \<notin> set (dequeue (core k) x qs q)" if q: "q < NUM_PRIORITY_LEVELS" for q
    using linkedD(2) [OF lk q] linkedD(3) [OF lk q, of x] by (auto simp: dequeue_def)
  from add_task_refines [OF k1(2) _ this] k1(3) cur [OF x(1)] obtain k2 where
    k2: "scheduler_add_task k1 (Some x) = Some k2"
      "linked k2 (enqueue (core k) x (dequeue (core k) x qs))"
      "core k2 = set_state TASK_STATE_READY x (core k)" "same_rest k1 k2" by auto
  have "same_rest k k2" using k1(4) k2(4) by (rule same_rest_trans)
  with x k1 k2 show ?thesis by (auto simp: rotate_current_def spec_rotate_def set_state_id)
qed

lemma schedule_refines:
  assumes lk: "linked k qs" and cur: "\<And>x. current_tcb k = Some x \<Longrightarrow> prio_of (core k) x < NUM_PRIORITY_LEVELS"
  shows "\<exists>k'. schedule k = Some k' \<and> refines k qs k' (spec_schedule (core k, qs, current_tcb k))"
proof (cases "front qs")
  case None
  with lk show ?thesis by (auto simp: schedule_def highest_front spec_schedule_def refines_def)
next
  case (Some n)
  note n = front_in [OF lk Some]
  show ?thesis
  proof (cases "Some n = current_tcb k")
    case True
    from Some lk True [symmetric] show ?thesis by (simp add: schedule_def highest_front spec_schedule_def refines_def)
  next
    case False
    from rotate_refines [OF lk cur] obtain k1 where
      k1: "rotate_current k = Some k1" "linked k1 (spec_rotate (core k) (current_tcb k) qs)"
        "core k1 = core k" "same_rest k k1" by blast
    from remove_task_refines [OF k1(2), of n] n(1) k1(3) obtain k2 where
      k2: "scheduler_remove_task k1 (Some n) = Some k2"
        "linked k2 (dequeue (core k) n (spec_rotate (core k) (current_tcb k) qs))"
        "core k2 = core k" "same_rest k1 k2" by auto
    define k3 where "k3 = task_set_current (Some n)
      ((upd_tcb n (\<lambda>b. b\<lparr>tstate := TASK_STATE_RUNNING\<rparr>) k2)\<lparr>current_tcb := Some n\<rparr>)"
    have "schedule k = Some k3"
      using Some False k1(1) k2(1) by (auto simp: schedule_def highest_front [OF lk] k3_def)
    moreover have "linked k3 (dequeue (core k) n (spec_rotate (core k) (current_tcb k) qs))"
      by (rule linked_cong [OF k2(2)]) (simp_all add: k3_def task_set_current_def)
    moreover have "core k3 = set_state TASK_STATE_RUNNING n (core k)"
      using k2(3) by (auto simp: core_def k3_def task_set_current_def set_state_def fun_eq_iff)
    moreover have "k3 = k\<lparr>task_pool := task_pool k3, ready_lists := ready_lists k3, current_tcb := Some n,
        current_task := Some n\<rparr>"
      using same_rest_trans [OF k1(4) k2(4)] unfolding k3_def task_set_current_def upd_tcb_def same_rest_def
      by (cases k; cases k2) simp
    ultimately show ?thesis using Some False
      by (auto simp: refines_def spec_schedule_def k3_def task_set_current_def)
  qed
qed

text \<open>The states before a yield: no pending difference between the two current pointers, and a
  running task is in no queue.\<close>

lemma yield_refines:
  assumes lk: "linked k qs" and run: "scheduler_running k"
    and cur: "\<And>x. current_tcb k = Some x \<Longrightarrow> prio_of (core k) x < NUM_PRIORITY_LEVELS \<and>
       (tstate (core k x) = TASK_STATE_RUNNING \<longrightarrow> (\<forall>q<NUM_PRIORITY_LEVELS. x \<notin> set (qs q)))"
  shows "\<exists>k'. scheduler_yield k = Some k' \<and> refines k qs k' (spec_yield (core k, qs, current_tcb k))"
proof (cases "\<exists>x. current_tcb k = Some x \<and> tstate (core k x) = TASK_STATE_RUNNING")
  case False
  then have "scheduler_yield k = schedule k" "spec_yield (core k, qs, current_tcb k) = spec_schedule (core k, qs, current_tcb k)"
    using run by (auto simp: scheduler_yield_def spec_yield_def split: option.splits)
  with schedule_refines [OF lk] cur show ?thesis by simp
next
  case True
  then obtain x where x: "current_tcb k = Some x" "tstate (core k x) = TASK_STATE_RUNNING" by blast
  define k0 where "k0 = upd_tcb x (\<lambda>b. b\<lparr>tstate := TASK_STATE_READY\<rparr>) k"
  have lk0: "linked k0 qs" unfolding k0_def using cur [OF x(1)] x(2) by (intro linked_unqueued [OF lk]) simp
  have core0: "core k0 = set_state TASK_STATE_READY x (core k)"
    by (auto simp: k0_def core_def set_state_def fun_eq_iff)
  from add_task_refines [OF lk0, of x] cur [OF x(1)] x(2) obtain k1 where
    k1: "scheduler_add_task k0 (Some x) = Some k1" "linked k1 (enqueue (core k) x qs)"
      "core k1 = set_state TASK_STATE_READY x (core k)" "same_rest k0 k1"
    by (auto simp: core0 set_state_def enqueue_def)
  have rest: "same_rest k k1" using same_rest_trans [OF _ k1(4)] by (simp add: k0_def)
  have "prio_of (core k1) y < NUM_PRIORITY_LEVELS" if "current_tcb k1 = Some y" for y
    using that cur [OF x(1)] x(1) rest by (auto simp: k1(3))
  from schedule_refines [OF k1(2) this] obtain k' where
    k': "schedule k1 = Some k'" "refines k1 (enqueue (core k) x qs) k'
        (spec_schedule (set_state TASK_STATE_READY x (core k), enqueue (core k) x qs, current_tcb k))"
    using rest by (auto simp: k1(3))
  have "scheduler_yield k = Some k'" using run x k1(1) k'(1) by (simp add: scheduler_yield_def k0_def)
  moreover have "refines k qs k' (spec_yield (core k, qs, current_tcb k))"
    using k'(2) x rest unfolding refines_def spec_yield_def same_rest_def
    by (cases k; cases k1; cases k') simp
  ultimately show ?thesis by blast
qed

end
