(* ===== verification/Kernel_Inv.thy ===== *)
theory Kernel_Inv imports Sched_Spec Transitions begin

text \<open>
  The invariant of the kernel and the proof that every operation returns and keeps it. \<open>tasks_ok\<close>
  speaks about the abstract state (blocks, queues, current task); \<open>kernel_ok\<close> adds that the linked
  lists represent the queues; \<open>kernel_inv\<close> reads the queues off the linked lists themselves.
\<close>

section \<open>The abstract invariant\<close>

definition ready_set :: "(nat \<Rightarrow> tcb) \<Rightarrow> nat \<Rightarrow> nat set" where
  "ready_set c p = {t. t < MAX_TASKS \<and> task_id (c t) \<noteq> 0 \<and> tstate (c t) = TASK_STATE_READY \<and> prio_of c t = p}"

definition slot_ok :: "(nat \<Rightarrow> tcb) \<Rightarrow> tcb_ptr \<Rightarrow> u32 \<Rightarrow> nat \<Rightarrow> bool" where
  "slot_ok c cur nid t \<longleftrightarrow> prio_of c t < NUM_PRIORITY_LEVELS
     \<and> (tstate (c t) = TASK_STATE_RUNNING \<longrightarrow> cur = Some t)
     \<and> (task_id (c t) = 0 \<longrightarrow> tstate (c t) = TASK_STATE_READY)
     \<and> unat (task_id (c t)) < unat nid"

definition queue_ok :: "(nat \<Rightarrow> tcb) \<Rightarrow> queues \<Rightarrow> nat \<Rightarrow> bool" where
  "queue_ok c qs p \<longleftrightarrow> distinct (qs p) \<and> set (qs p) = ready_set c p"

definition ids_distinct :: "(nat \<Rightarrow> tcb) \<Rightarrow> bool" where
  "ids_distinct c \<longleftrightarrow> inj_on (\<lambda>t. task_id (c t)) {t. t < MAX_TASKS \<and> task_id (c t) \<noteq> 0}"

definition current_ok :: "(nat \<Rightarrow> tcb) \<Rightarrow> tcb_ptr \<Rightarrow> bool" where
  "current_ok c cur \<longleftrightarrow> (\<forall>x. cur = Some x \<longrightarrow> x < MAX_TASKS \<and> task_id (c x) \<noteq> 0)"

definition tasks_ok :: "(nat \<Rightarrow> tcb) \<Rightarrow> queues \<Rightarrow> tcb_ptr \<Rightarrow> u32 \<Rightarrow> bool" where
  "tasks_ok c qs cur nid \<longleftrightarrow> (\<forall>p<NUM_PRIORITY_LEVELS. queue_ok c qs p)
     \<and> (\<forall>t<MAX_TASKS. slot_ok c cur nid t) \<and> ids_distinct c \<and> current_ok c cur"

lemma tasks_okD:
  assumes "tasks_ok c qs cur nid"
  shows "p < NUM_PRIORITY_LEVELS \<Longrightarrow> queue_ok c qs p" and "t < MAX_TASKS \<Longrightarrow> slot_ok c cur nid t"
    and "ids_distinct c" and "cur = Some x \<Longrightarrow> x < MAX_TASKS \<and> task_id (c x) \<noteq> 0"
  using assms by (simp_all add: tasks_ok_def current_ok_def)

lemma tasks_okI:
  "(\<And>p. p < NUM_PRIORITY_LEVELS \<Longrightarrow> queue_ok c qs p) \<Longrightarrow> (\<And>t. t < MAX_TASKS \<Longrightarrow> slot_ok c cur nid t) \<Longrightarrow>
   ids_distinct c \<Longrightarrow> current_ok c cur \<Longrightarrow> tasks_ok c qs cur nid"
  by (simp add: tasks_ok_def)

lemma ids_distinct_cong: "ids_distinct c \<Longrightarrow> (\<And>t. task_id (c' t) = task_id (c t)) \<Longrightarrow> ids_distinct c'"
  by (simp add: ids_distinct_def)

lemma current_ok_cong: "current_ok c cur \<Longrightarrow> (\<And>t. task_id (c' t) = task_id (c t)) \<Longrightarrow> current_ok c' cur"
  by (simp add: current_ok_def)

lemma slot_ok_cong:
  "slot_ok c cur nid t \<Longrightarrow> tstate (c' t) = tstate (c t) \<Longrightarrow> priority (c' t) = priority (c t) \<Longrightarrow>
   task_id (c' t) = task_id (c t) \<Longrightarrow> slot_ok c' cur nid t"
  by (simp add: slot_ok_def)

lemma queue_ok_cong:
  "queue_ok c qs p \<Longrightarrow> (\<And>t. tstate (c' t) = tstate (c t)) \<Longrightarrow> (\<And>t. priority (c' t) = priority (c t)) \<Longrightarrow>
   (\<And>t. task_id (c' t) = task_id (c t)) \<Longrightarrow> queue_ok c' qs p"
  by (simp add: queue_ok_def ready_set_def)

lemma tasks_ok_cong:
  "tasks_ok c qs cur nid \<Longrightarrow> (\<And>t. tstate (c' t) = tstate (c t)) \<Longrightarrow> (\<And>t. priority (c' t) = priority (c t)) \<Longrightarrow>
   (\<And>t. task_id (c' t) = task_id (c t)) \<Longrightarrow> tasks_ok c' qs cur nid"
  unfolding tasks_ok_def using slot_ok_cong [of _ _ _ _ c'] queue_ok_cong [of _ _ _ c']
  by (metis ids_distinct_cong current_ok_cong)

lemma in_queue:
  "tasks_ok c qs cur nid \<Longrightarrow> p < NUM_PRIORITY_LEVELS \<Longrightarrow> t \<in> set (qs p) \<longleftrightarrow> t \<in> ready_set c p"
  using tasks_okD(1) [of c qs cur nid p] by (simp add: queue_ok_def)

lemma ok_enqueue:
  assumes ok: "tasks_ok c qs cur nid" and t: "t < MAX_TASKS" "task_id (c t) \<noteq> 0" "tstate (c t) \<noteq> TASK_STATE_READY"
  shows "tasks_ok (set_state TASK_STATE_READY t c) (enqueue c t qs) cur nid"
proof (rule tasks_okI)
  fix p
  assume p: "p < NUM_PRIORITY_LEVELS"
  have "t \<notin> set (qs p)" using in_queue [OF ok p] t by (simp add: ready_set_def)
  then show "queue_ok (set_state TASK_STATE_READY t c) (enqueue c t qs) p"
    using tasks_okD(1) [OF ok p] t by (auto simp: queue_ok_def enqueue_def ready_set_def)
next
  fix u
  assume "u < MAX_TASKS"
  from tasks_okD(2) [OF ok this] t(2) show "slot_ok (set_state TASK_STATE_READY t c) cur nid u"
    by (simp add: slot_ok_def)
next
  show "ids_distinct (set_state TASK_STATE_READY t c)" using ids_distinct_cong [OF tasks_okD(3) [OF ok]] by simp
  show "current_ok (set_state TASK_STATE_READY t c) cur" using tasks_okD(4) [OF ok] by (simp add: current_ok_def)
qed

lemma ok_dequeue:
  assumes ok: "tasks_ok c qs cur nid" and t: "t < MAX_TASKS" "task_id (c t) \<noteq> 0" and st: "st \<noteq> TASK_STATE_READY"
    and cur: "cur' = cur \<and> (st = TASK_STATE_RUNNING \<longrightarrow> cur = Some t)
      \<or> cur' = Some t \<and> (\<forall>u<MAX_TASKS. tstate (c u) \<noteq> TASK_STATE_RUNNING)"
  shows "tasks_ok (set_state st t c) (dequeue c t qs) cur' nid"
proof (rule tasks_okI)
  fix p
  assume p: "p < NUM_PRIORITY_LEVELS"
  show "queue_ok (set_state st t c) (dequeue c t qs) p"
    unfolding queue_ok_def
  proof
    have d: "distinct (qs p)" "set (qs p) = ready_set c p"
      using tasks_okD(1) [OF ok p] by (simp_all add: queue_ok_def)
    show "distinct (dequeue c t qs p)" using d(1) by (auto simp: dequeue_def intro: distinct_remove1)
    have "set (dequeue c t qs p) = set (qs p) - (if p = prio_of c t then {t} else {})"
      using d(1) by (auto simp: dequeue_def)
    then show "set (dequeue c t qs p) = ready_set (set_state st t c) p"
      unfolding d(2) using st by (auto simp: ready_set_def)
  qed
next
  fix u
  assume u: "u < MAX_TASKS"
  from tasks_okD(2) [OF ok u] cur u t(2) show "slot_ok (set_state st t c) cur' nid u"
    by (auto simp: slot_ok_def)
next
  show "ids_distinct (set_state st t c)" using ids_distinct_cong [OF tasks_okD(3) [OF ok]] by simp
  show "current_ok (set_state st t c) cur'"
    using ok cur t by (auto simp: tasks_ok_def current_ok_def)
qed

lemma ok_rotate:
  assumes ok: "tasks_ok c qs cur nid"
  shows "tasks_ok c (spec_rotate c cur qs) cur nid"
proof -
  have "queue_ok c (spec_rotate c cur qs) p" if p: "p < NUM_PRIORITY_LEVELS" for p
  proof (cases "\<exists>x. cur = Some x \<and> tstate (c x) = TASK_STATE_READY")
    case True
    then obtain x where x: "cur = Some x" "tstate (c x) = TASK_STATE_READY" by blast
    have "x \<in> ready_set c (prio_of c x)" using tasks_okD(4) [OF ok x(1)] x(2) by (simp add: ready_set_def)
    then have "x \<in> set (qs p)" if "p = prio_of c x" using that in_queue [OF ok p] by simp
    moreover have "distinct (qs p)" "set (qs p) = ready_set c p"
      using tasks_okD(1) [OF ok p] by (simp_all add: queue_ok_def)
    moreover have "spec_rotate c cur qs p = (if p = prio_of c x then remove1 x (qs p) @ [x] else qs p)"
      using x by (simp add: spec_rotate_def enqueue_def dequeue_def)
    ultimately show ?thesis by (cases "p = prio_of c x") (auto simp: queue_ok_def)
  next
    case False
    then have "spec_rotate c cur qs = qs" by (auto simp: spec_rotate_def split: option.splits)
    with tasks_okD(1) [OF ok p] show ?thesis by simp
  qed
  with ok show ?thesis by (simp add: tasks_ok_def)
qed

lemma ok_schedule:
  assumes ok: "tasks_ok c qs cur nid" and idle: "\<And>t. t < MAX_TASKS \<Longrightarrow> tstate (c t) \<noteq> TASK_STATE_RUNNING"
    and res: "spec_schedule (c, qs, cur) = (c', qs', cur')"
  shows "tasks_ok c' qs' cur' nid"
proof (cases "front qs = None \<or> front qs = cur")
  case True
  with ok res show ?thesis by (auto simp: spec_schedule_def split: option.splits if_splits)
next
  case False
  then obtain n where n: "front qs = Some n" "Some n \<noteq> cur" by auto
  then obtain p where p: "p < NUM_PRIORITY_LEVELS" "n \<in> set (qs p)" by (auto simp: front_Some)
  then have "n < MAX_TASKS" "task_id (c n) \<noteq> 0" using in_queue [OF ok p(1)] by (auto simp: ready_set_def)
  from ok_dequeue [OF ok_rotate [OF ok] this, of TASK_STATE_RUNNING "Some n"] idle
  have "tasks_ok (set_state TASK_STATE_RUNNING n c) (dequeue c n (spec_rotate c cur qs)) (Some n) nid" by simp
  with n res show ?thesis by (simp add: spec_schedule_def)
qed

lemma ok_yield:
  assumes ok: "tasks_ok c qs cur nid" and res: "spec_yield (c, qs, cur) = (c', qs', cur')"
  shows "tasks_ok c' qs' cur' nid"
proof (cases "\<exists>x. cur = Some x \<and> tstate (c x) = TASK_STATE_RUNNING")
  case True
  then obtain x where x: "cur = Some x" "tstate (c x) = TASK_STATE_RUNNING" by blast
  from ok_enqueue [OF ok] tasks_okD(4) [OF ok x(1)] x(2)
  have "tasks_ok (set_state TASK_STATE_READY x c) (enqueue c x qs) cur nid" by simp
  moreover have "tstate (set_state TASK_STATE_READY x c t) \<noteq> TASK_STATE_RUNNING" if "t < MAX_TASKS" for t
    using tasks_okD(2) [OF ok that] x(1) by (auto simp: slot_ok_def)
  ultimately show ?thesis using ok_schedule res x by (fastforce simp: spec_yield_def)
next
  case False
  then have "tstate (c t) \<noteq> TASK_STATE_RUNNING" if "t < MAX_TASKS" for t
    using tasks_okD(2) [OF ok that] by (auto simp: slot_ok_def)
  moreover have "spec_yield (c, qs, cur) = spec_schedule (c, qs, cur)"
    using False by (auto simp: spec_yield_def split: option.splits)
  ultimately show ?thesis using ok_schedule [OF ok] res by simp
qed

section \<open>The invariant of the kernel\<close>

definition kernel_ok :: "kernel \<Rightarrow> queues \<Rightarrow> bool" where
  "kernel_ok k qs \<longleftrightarrow> linked k qs \<and> tasks_ok (core k) qs (current_tcb k) (next_task_id k)
     \<and> current_task k = current_tcb k \<and> delayed_list k = None"

lemma kernel_okD:
  assumes "kernel_ok k qs"
  shows "linked k qs" "tasks_ok (core k) qs (current_tcb k) (next_task_id k)"
    "current_task k = current_tcb k" "delayed_list k = None"
  using assms by (simp_all add: kernel_ok_def)

lemma ok_current:
  assumes "kernel_ok k qs" and "current_tcb k = Some x"
  shows "prio_of (core k) x < NUM_PRIORITY_LEVELS \<and>
       (tstate (core k x) = TASK_STATE_RUNNING \<longrightarrow> (\<forall>q<NUM_PRIORITY_LEVELS. x \<notin> set (qs q)))"
proof -
  note ok = kernel_okD(2) [OF assms(1)]
  have "x < MAX_TASKS" using tasks_okD(4) [OF ok assms(2)] by simp
  from tasks_okD(2) [OF ok this] in_queue [OF ok] show ?thesis by (simp add: slot_ok_def ready_set_def)
qed

lemma yield_ok:
  assumes ok: "kernel_ok k qs"
  shows "\<exists>k' qs'. scheduler_yield k = Some k' \<and> kernel_ok k' qs' \<and>
    (core k', qs', current_tcb k') =
       (if scheduler_running k then spec_yield (core k, qs, current_tcb k) else (core k, qs, current_tcb k))
    \<and> next_task_id k' = next_task_id k \<and> system_tick_count k' = system_tick_count k
    \<and> scheduler_running k' = scheduler_running k"
proof (cases "scheduler_running k")
  case False
  with ok show ?thesis by (auto simp: scheduler_yield_def)
next
  case True
  note d = kernel_okD [OF ok]
  from yield_refines [OF d(1) True ok_current [OF ok]] obtain k' where
    k': "scheduler_yield k = Some k'" "refines k qs k' (spec_yield (core k, qs, current_tcb k))" by blast
  obtain c' qs' cur' where v: "spec_yield (core k, qs, current_tcb k) = (c', qs', cur')" by (metis prod.exhaust)
  note r = refinesD [OF k'(2) [unfolded v]]
  have "kernel_ok k' qs'" using ok_yield [OF d(2) v] d(3,4) r by (simp add: kernel_ok_def)
  with k'(1) v r True show ?thesis by auto
qed

end
