(* ===== verification/Kernel_Ops.thy ===== *)
theory Kernel_Ops imports Kernel_Inv begin

text \<open>
  Every operation of the task interface returns on a well-formed kernel and keeps it well formed;
  each lemma also gives the queues of the new state.
\<close>

section \<open>Stopping and starting a task\<close>

lemma dequeue_cong: "priority (c' t) = priority (c t) \<Longrightarrow> dequeue c' t qs = dequeue c t qs"
  by (simp add: dequeue_def)

lemma core_upd: "core (upd_tcb t f k) = (core k)(t := unlink (f (task_pool k t)))"
  by (auto simp: core_def fun_eq_iff)

lemma same_rest_ok:
  "same_rest k k' \<Longrightarrow> kernel_ok k qs \<Longrightarrow> linked k' qs' \<Longrightarrow>
   tasks_ok (core k') qs' (current_tcb k) (next_task_id k) \<Longrightarrow> kernel_ok k' qs'"
  by (simp add: kernel_ok_def)

lemma stop_task:
  assumes ok: "kernel_ok k qs" and t: "t < MAX_TASKS" "task_id (core k t) \<noteq> 0"
    and f: "\<And>b. tnext (f b) = tnext b" "\<And>b. priority (f b) = priority b" "\<And>b. task_id (f b) = task_id b"
      "\<And>b. tstate (f b) = st"
    and st: "st \<noteq> TASK_STATE_READY" "st \<noteq> TASK_STATE_RUNNING"
  shows "\<exists>k'. scheduler_remove_task (upd_tcb t f k) (Some t) = Some k' \<and> kernel_ok k' (dequeue (core k) t qs)
    \<and> core k' = core (upd_tcb t f k) \<and> same_rest k k'"
proof -
  note d = kernel_okD [OF ok]
  define k0 where "k0 = upd_tcb t f k"
  have lk: "linked k0 qs" by (rule linked_cong [OF d(1)]) (auto simp: k0_def f)
  have prio: "prio_of (core k0) t < NUM_PRIORITY_LEVELS"
    using tasks_okD(2) [OF d(2) t(1)] by (simp add: k0_def f slot_ok_def)
  have dq: "dequeue (core k0) t qs = dequeue (core k) t qs" by (rule dequeue_cong) (simp add: k0_def f)
  from remove_task_refines [OF lk prio] dq obtain k' where
    k': "scheduler_remove_task k0 (Some t) = Some k'" "linked k' (dequeue (core k) t qs)" "core k' = core k0"
      "same_rest k0 k'" by auto
  have rest: "same_rest k k'" using same_rest_trans [OF _ k'(4)] by (simp add: k0_def)
  have "tasks_ok (set_state st t (core k)) (dequeue (core k) t qs) (current_tcb k) (next_task_id k)"
    by (rule ok_dequeue [OF d(2) t]) (use st in auto)
  then have "tasks_ok (core k') (dequeue (core k) t qs) (current_tcb k) (next_task_id k)"
    unfolding k'(3) by (rule tasks_ok_cong) (auto simp: k0_def f set_state_def)
  from same_rest_ok [OF rest ok k'(2) this] k'(1,3) rest show ?thesis unfolding k0_def by blast
qed

lemma start_task:
  assumes ok: "kernel_ok k qs" and t: "t < MAX_TASKS" "task_id (core k t) \<noteq> 0"
    "tstate (core k t) \<noteq> TASK_STATE_READY"
  shows "\<exists>k'. scheduler_add_task (upd_tcb t (\<lambda>b. b\<lparr>tstate := TASK_STATE_READY\<rparr>) k) (Some t) = Some k'
    \<and> kernel_ok k' (enqueue (core k) t qs) \<and> core k' = set_state TASK_STATE_READY t (core k) \<and> same_rest k k'"
proof -
  note d = kernel_okD [OF ok]
  define k0 where "k0 = upd_tcb t (\<lambda>b. b\<lparr>tstate := TASK_STATE_READY\<rparr>) k"
  have out: "t \<notin> set (qs q)" if "q < NUM_PRIORITY_LEVELS" for q
    using in_queue [OF d(2) that] t(3) by (simp add: ready_set_def)
  have lk: "linked k0 qs" unfolding k0_def by (rule linked_unqueued [OF d(1) out])
  have core0: "core k0 = set_state TASK_STATE_READY t (core k)"
    by (simp add: k0_def core_upd set_state_def core_def)
  have prio: "prio_of (core k0) t < NUM_PRIORITY_LEVELS"
    using tasks_okD(2) [OF d(2) t(1)] by (simp add: core0 slot_ok_def)
  have eq: "enqueue (core k0) t qs = enqueue (core k) t qs" by (simp add: enqueue_def core0)
  from add_task_refines [OF lk prio out, unfolded eq] obtain k' where
    k': "scheduler_add_task k0 (Some t) = Some k'" "linked k' (enqueue (core k) t qs)"
      "core k' = set_state TASK_STATE_READY t (core k)" "same_rest k0 k'"
    by (auto simp: core0)
  have rest: "same_rest k k'" using same_rest_trans [OF _ k'(4)] by (simp add: k0_def)
  have "tasks_ok (core k') (enqueue (core k) t qs) (current_tcb k) (next_task_id k)"
    unfolding k'(3) by (rule ok_enqueue [OF d(2) t])
  from same_rest_ok [OF rest ok k'(2) this] k'(1,3) rest show ?thesis unfolding k0_def by blast
qed

section \<open>Lookup\<close>

lemma get_tcb_Some:
  assumes "task_get_tcb k tid = Some t"
  shows "t < MAX_TASKS" "task_id (task_pool k t) = tid" "tstate (task_pool k t) \<noteq> TASK_STATE_DELETED"
  using assms by (auto simp: task_get_tcb_def find_upt_Some)

lemma get_tcb_None:
  "task_get_tcb k tid = None \<longleftrightarrow>
   (\<forall>t<MAX_TASKS. task_id (task_pool k t) = tid \<longrightarrow> tstate (task_pool k t) = TASK_STATE_DELETED)"
proof -
  have "task_get_tcb k tid = None \<longleftrightarrow>
      \<not> (\<exists>t. t \<in> set [0..<MAX_TASKS] \<and> task_id (task_pool k t) = tid \<and> tstate (task_pool k t) \<noteq> TASK_STATE_DELETED)"
    unfolding task_get_tcb_def by (rule find_None_iff)
  then show ?thesis by auto
qed

lemma get_tcb_iff:
  assumes "tasks_ok (core k) qs cur nid" and "tid \<noteq> 0"
  shows "task_get_tcb k tid = Some t \<longleftrightarrow>
    t < MAX_TASKS \<and> task_id (task_pool k t) = tid \<and> tstate (task_pool k t) \<noteq> TASK_STATE_DELETED"
proof
  assume r: "t < MAX_TASKS \<and> task_id (task_pool k t) = tid \<and> tstate (task_pool k t) \<noteq> TASK_STATE_DELETED"
  then obtain u where u: "task_get_tcb k tid = Some u" using get_tcb_None by (cases "task_get_tcb k tid") auto
  have "u = t"
    using tasks_okD(3) [OF assms(1)] get_tcb_Some [OF u] r assms(2) by (auto simp: ids_distinct_def inj_on_def)
  with u show "task_get_tcb k tid = Some t" by simp
qed (use get_tcb_Some in auto)

section \<open>The operations\<close>

lemma yield_after:
  assumes "kernel_ok k qs"
  shows "\<exists>k' qs'. (if b then task_yield k else Some k) = Some k' \<and> kernel_ok k' qs'
    \<and> next_task_id k' = next_task_id k"
  using yield_ok [OF assms] assms by (cases b) (auto simp: task_yield_def)

lemma suspend_ok:
  assumes ok: "kernel_ok k qs" and tid: "tid \<noteq> 0"
  shows "\<exists>k' qs' r. task_suspend tid k = Some (k', r) \<and> kernel_ok k' qs' \<and> next_task_id k' = next_task_id k"
proof (cases "task_get_tcb k tid")
  case None
  with ok show ?thesis by (auto simp: task_suspend_def)
next
  case (Some t)
  note t = get_tcb_Some [OF Some]
  have "task_id (core k t) \<noteq> 0" using t(2) tid by simp
  from stop_task [OF ok t(1) this, of "\<lambda>b. b\<lparr>tstate := TASK_STATE_SUSPENDED\<rparr>" TASK_STATE_SUSPENDED]
  obtain k1 where k1: "scheduler_remove_task (upd_tcb t (\<lambda>b. b\<lparr>tstate := TASK_STATE_SUSPENDED\<rparr>) k) (Some t) = Some k1"
    "kernel_ok k1 (dequeue (core k) t qs)" "same_rest k k1" by auto
  from yield_after [OF k1(2), of "Some t = current_task k1"] Some t(3) k1(1,3) show ?thesis
    by (auto simp: task_suspend_def)
qed

lemma mark_deleted:
  assumes ok: "kernel_ok k qs" and t: "t < MAX_TASKS" "task_id (core k t) \<noteq> 0"
  shows "\<exists>k1. scheduler_remove_task k (Some t) = Some k1
    \<and> kernel_ok (upd_tcb t (\<lambda>b. b\<lparr>tstate := TASK_STATE_DELETED\<rparr>) k1) (dequeue (core k) t qs)
    \<and> core (upd_tcb t (\<lambda>b. b\<lparr>tstate := TASK_STATE_DELETED\<rparr>) k1) = set_state TASK_STATE_DELETED t (core k)
    \<and> same_rest k (upd_tcb t (\<lambda>b. b\<lparr>tstate := TASK_STATE_DELETED\<rparr>) k1)"
proof -
  note d = kernel_okD [OF ok]
  from remove_task_refines [OF d(1), of t] tasks_okD(2) [OF d(2) t(1)] obtain k1 where
    k1: "scheduler_remove_task k (Some t) = Some k1" "linked k1 (dequeue (core k) t qs)" "core k1 = core k"
      "same_rest k k1" by (auto simp: slot_ok_def)
  define k2 where "k2 = upd_tcb t (\<lambda>b. b\<lparr>tstate := TASK_STATE_DELETED\<rparr>) k1"
  have core2: "core k2 = set_state TASK_STATE_DELETED t (core k)"
    by (simp add: k2_def core_upd set_state_def flip: k1(3)) (simp add: core_def)
  have lk2: "linked k2 (dequeue (core k) t qs)" by (rule linked_cong [OF k1(2)]) (auto simp: k2_def)
  have rest: "same_rest k k2" using same_rest_trans [OF k1(4)] by (simp add: k2_def)
  have "tasks_ok (core k2) (dequeue (core k) t qs) (current_tcb k) (next_task_id k)"
    unfolding core2 by (rule ok_dequeue [OF d(2) t]) auto
  from same_rest_ok [OF rest ok lk2 this] k1(1) core2 rest show ?thesis unfolding k2_def by blast
qed

lemma delete_ok:
  assumes ok: "kernel_ok k qs" and tid: "tid \<noteq> 0"
  shows "\<exists>k' qs' r. task_delete tid k = Some (k', r) \<and> kernel_ok k' qs' \<and> next_task_id k' = next_task_id k"
proof (cases "task_get_tcb k tid")
  case None
  with ok show ?thesis by (auto simp: task_delete_def)
next
  case (Some t)
  note t = get_tcb_Some [OF Some]
  have "task_id (core k t) \<noteq> 0" using t(2) tid by simp
  from mark_deleted [OF ok t(1) this] obtain k1 where k1: "scheduler_remove_task k (Some t) = Some k1"
    and k2: "kernel_ok (upd_tcb t (\<lambda>b. b\<lparr>tstate := TASK_STATE_DELETED\<rparr>) k1) (dequeue (core k) t qs)"
      "same_rest k (upd_tcb t (\<lambda>b. b\<lparr>tstate := TASK_STATE_DELETED\<rparr>) k1)" by blast
  define k2' where "k2' = upd_tcb t (\<lambda>b. b\<lparr>tstate := TASK_STATE_DELETED\<rparr>) k1"
  from yield_after [OF k2(1), of "Some t = current_task k2'"] obtain k3 qs3 where
    k3: "(if Some t = current_task k2' then task_yield k2' else Some k2') = Some k3" "kernel_ok k3 qs3"
      "next_task_id k3 = next_task_id k2'" unfolding k2'_def by blast
  have "task_delete tid k = Some (k3, RTOS_OK)"
    using k3(1) by (simp add: task_delete_def Some k1 Let_def k2'_def split: if_splits)
  with k3(2,3) k2(2) show ?thesis by (auto simp flip: k2'_def)
qed

lemma resume_ok:
  assumes ok: "kernel_ok k qs" and tid: "tid \<noteq> 0"
  shows "\<exists>k' qs' r. task_resume tid k = Some (k', r) \<and> kernel_ok k' qs' \<and> next_task_id k' = next_task_id k"
proof (cases "\<exists>t. task_get_tcb k tid = Some t \<and> tstate (task_pool k t) = TASK_STATE_SUSPENDED")
  case False
  with ok show ?thesis by (auto simp: task_resume_def split: option.splits)
next
  case True
  then obtain t where t: "task_get_tcb k tid = Some t" "tstate (task_pool k t) = TASK_STATE_SUSPENDED" by blast
  from start_task [OF ok get_tcb_Some(1) [OF t(1)]] get_tcb_Some(2) [OF t(1)] tid t show ?thesis
    by (auto simp: task_resume_def)
qed

lemma delay_ok:
  assumes ok: "kernel_ok k qs"
  shows "\<exists>k' qs'. task_delay n k = Some k' \<and> kernel_ok k' qs' \<and> next_task_id k' = next_task_id k"
proof (cases "\<exists>t. current_task k = Some t \<and> 0 < n")
  case False
  with ok show ?thesis by (auto simp: task_delay_def split: option.splits)
next
  case True
  then obtain t where t: "current_task k = Some t" "0 < n" by blast
  have "t < MAX_TASKS" "task_id (core k t) \<noteq> 0"
    using tasks_okD(4) [OF kernel_okD(2) [OF ok], of t] kernel_okD(3) [OF ok] t by auto
  from stop_task [OF ok this, of "\<lambda>b. b\<lparr>wake_time := scheduler_get_tick_count k + n, tstate := TASK_STATE_BLOCKED\<rparr>"
    TASK_STATE_BLOCKED] obtain k1 where
    k1: "scheduler_remove_task (upd_tcb t (\<lambda>b. b\<lparr>wake_time := scheduler_get_tick_count k + n,
        tstate := TASK_STATE_BLOCKED\<rparr>) k) (Some t) = Some k1"
      "kernel_ok k1 (dequeue (core k) t qs)" "same_rest k k1" by auto
  from yield_after [OF k1(2), of True] k1(1,3) t show ?thesis
    by (auto simp: task_delay_def)
qed

lemma process_none: "delayed_list k = None \<Longrightarrow> process_delayed_tasks k = Some k"
  by (simp add: process_delayed_tasks.simps)

text \<open>\<open>scheduler_tick\<close> advances the clock and yields when a ready task is more urgent than the
  current one; otherwise no task changes.\<close>

lemma tick_ok:
  assumes ok: "kernel_ok k qs"
  defines "k1 \<equiv> k\<lparr>system_tick_count := system_tick_count k + 1\<rparr>"
  shows "scheduler_tick k =
      (if scheduler_running k \<and> (\<exists>h c. front qs = Some h \<and> current_tcb k = Some c
            \<and> priority (task_pool k h) < priority (task_pool k c))
       then scheduler_yield k1 else Some k1)" and "kernel_ok k1 qs" and "core k1 = core k"
proof -
  have lk: "linked k1 qs" by (rule linked_cong [OF kernel_okD(1) [OF ok]]) (simp_all add: k1_def)
  show core1: "core k1 = core k" by (simp add: k1_def core_def fun_eq_iff)
  show "kernel_ok k1 qs" using ok lk core1 by (simp add: kernel_ok_def k1_def)
  have "delayed_list k1 = None" using kernel_okD(4) [OF ok] by (simp add: k1_def)
  then have "process_delayed_tasks k1 = Some k1" by (rule process_none)
  then show "scheduler_tick k =
      (if scheduler_running k \<and> (\<exists>h c. front qs = Some h \<and> current_tcb k = Some c
            \<and> priority (task_pool k h) < priority (task_pool k c))
       then scheduler_yield k1 else Some k1)"
    using highest_front [OF lk] by (auto simp: scheduler_tick_def k1_def split: option.splits)
qed

lemma tick_keeps:
  assumes "kernel_ok k qs"
  shows "\<exists>k' qs'. scheduler_tick k = Some k' \<and> kernel_ok k' qs' \<and> next_task_id k' = next_task_id k"
proof -
  note t = tick_ok [OF assms]
  from yield_ok [OF t(2)] t(2) show ?thesis unfolding t(1) by auto
qed

text \<open>Starting is a yield of a kernel that runs, unless the current task is running, which it would drop.\<close>

lemma start_yields:
  assumes ok: "kernel_ok k qs" and idle: "\<And>c. current_tcb k = Some c \<Longrightarrow> tstate (task_pool k c) \<noteq> TASK_STATE_RUNNING"
  shows "kernel_ok (k\<lparr>scheduler_running := True\<rparr>) qs"
    and "scheduler_start k = scheduler_yield (k\<lparr>scheduler_running := True\<rparr>)"
proof -
  define k1 where "k1 = k\<lparr>scheduler_running := True\<rparr>"
  have lk: "linked k1 qs" by (rule linked_cong [OF kernel_okD(1) [OF ok]]) (simp_all add: k1_def)
  have core1: "core k1 = core k" by (simp add: k1_def core_def fun_eq_iff)
  have "kernel_ok k1 qs" using ok lk core1 by (simp add: kernel_ok_def k1_def)
  then show "kernel_ok (k\<lparr>scheduler_running := True\<rparr>) qs" by (simp add: k1_def)
  show "scheduler_start k = scheduler_yield (k\<lparr>scheduler_running := True\<rparr>)"
    using idle by (auto simp: scheduler_start_def scheduler_yield_def split: option.splits)
qed

lemma start_ok:
  assumes ok: "kernel_ok k qs" and idle: "\<And>c. current_tcb k = Some c \<Longrightarrow> tstate (task_pool k c) \<noteq> TASK_STATE_RUNNING"
  shows "\<exists>k' qs'. scheduler_start k = Some k' \<and> kernel_ok k' qs' \<and> next_task_id k' = next_task_id k"
  using yield_ok [OF start_yields(1) [OF assms]] start_yields(2) [OF assms] by auto

section \<open>Creation\<close>

lemma free_slot:
  assumes "find_free_slot k = Some t"
  shows "t < MAX_TASKS" "tstate (task_pool k t) = TASK_STATE_DELETED \<or> task_id (task_pool k t) = 0"
  using assms by (auto simp: find_free_slot_def find_upt_Some)

text \<open>The block a new task starts with.\<close>

definition new_tcb :: "addr \<Rightarrow> u8 list option \<Rightarrow> u8 \<Rightarrow> addr \<Rightarrow> u32 \<Rightarrow> tcb" where
  "new_tcb fun_ptr name prio params tid =
     (let b1 = zero_tcb\<lparr>task_id := tid, priority := prio, tstate := TASK_STATE_READY\<rparr>
      in task_init_stack fun_ptr params
           (b1\<lparr>tname := (strncpy (tname b1) (case name of Some s \<Rightarrow> s | None \<Rightarrow> unnamed) 15)[15 := 0]\<rparr>))"

lemma new_tcb_simps [simp]:
  "tstate (new_tcb f nm prio p tid) = TASK_STATE_READY" "priority (new_tcb f nm prio p tid) = prio"
  "task_id (new_tcb f nm prio p tid) = tid" "tnext (new_tcb f nm prio p tid) = None"
  by (simp_all add: new_tcb_def task_init_stack_def zero_tcb_def Let_def split_beta)

lemma create_unfold:
  assumes "fun_ptr \<noteq> NULL" and "unat prio < NUM_PRIORITY_LEVELS" and "find_free_slot k = Some t"
  shows "task_create fun_ptr name prio params k =
    do { k2 \<leftarrow> scheduler_add_task ((upd_tcb t (\<lambda>_. new_tcb fun_ptr name prio params (next_task_id k)) k)
                \<lparr>next_task_id := next_task_id k + 1\<rparr>) (Some t);
         Some (k2, RTOS_OK, Some (task_id (task_pool k2 t))) }"
  using assms by (simp add: task_create_def new_tcb_def Let_def)

lemma ok_new:
  assumes ok: "tasks_ok c qs cur nid" and t: "t < MAX_TASKS" "tstate (c t) = TASK_STATE_DELETED \<or> task_id (c t) = 0"
    and nid: "unat nid + 1 < 2 ^ 32"
    and b: "tstate b = TASK_STATE_READY" "task_id b = nid" "unat (priority b) < NUM_PRIORITY_LEVELS"
  shows "tasks_ok (c(t := b)) (enqueue (c(t := b)) t qs) cur (nid + 1)"
proof (rule tasks_okI)
  have suc: "unat (nid + 1) = unat nid + 1" using nid by (simp add: unat_add_small)
  have pos: "nid \<noteq> 0" using tasks_okD(2) [OF ok t(1)] by (auto simp: slot_ok_def)
  show "queue_ok (c(t := b)) (enqueue (c(t := b)) t qs) p" if p: "p < NUM_PRIORITY_LEVELS" for p
  proof -
    have q: "distinct (qs p)" "set (qs p) = ready_set c p"
      using tasks_okD(1) [OF ok p] by (simp_all add: queue_ok_def)
    have "t \<notin> set (qs p)" unfolding q(2) using t(2) by (auto simp: ready_set_def)
    moreover have "ready_set (c(t := b)) p = (if p = unat (priority b) then insert t (ready_set c p) else ready_set c p)"
      using t b pos by (auto simp: ready_set_def)
    ultimately show ?thesis using q by (auto simp: queue_ok_def enqueue_def)
  qed
  show "slot_ok (c(t := b)) cur (nid + 1) u" if "u < MAX_TASKS" for u
    using tasks_okD(2) [OF ok that] b pos by (cases "u = t") (simp_all add: slot_ok_def suc)
  have less: "task_id (c u) \<noteq> nid" if "u < MAX_TASKS" for u
    using tasks_okD(2) [OF ok that] by (auto simp: slot_ok_def)
  show "ids_distinct (c(t := b))"
    using tasks_okD(3) [OF ok] less b(2) unfolding ids_distinct_def inj_on_def by (simp split: if_splits) metis
  show "current_ok (c(t := b)) cur"
    using tasks_okD(4) [OF ok] t(1) b(2) pos by (simp add: current_ok_def)
qed

lemma create_ok:
  fixes name params
  assumes ok: "kernel_ok k qs" and nid: "unat (next_task_id k) + 1 < 2 ^ 32"
    and arg: "fun_ptr \<noteq> NULL" "unat prio < NUM_PRIORITY_LEVELS" and slot: "find_free_slot k = Some t"
  defines "b \<equiv> new_tcb fun_ptr name prio params (next_task_id k)"
  shows "\<exists>k'. task_create fun_ptr name prio params k = Some (k', RTOS_OK, Some (next_task_id k))
    \<and> kernel_ok k' (enqueue ((core k)(t := b)) t qs) \<and> core k' = (core k)(t := b)
    \<and> next_task_id k' = next_task_id k + 1"
proof -
  note d = kernel_okD [OF ok] and t = free_slot [OF slot]
  define k1 where "k1 = (upd_tcb t (\<lambda>_. b) k)\<lparr>next_task_id := next_task_id k + 1\<rparr>"
  have out: "t \<notin> set (qs q)" if "q < NUM_PRIORITY_LEVELS" for q
    unfolding in_queue [OF d(2) that] using t(2) by (auto simp: ready_set_def)
  have b: "unlink b = b" "tstate b = TASK_STATE_READY" "task_id b = next_task_id k" "priority b = prio"
    by (simp_all add: b_def unlink_def)
  have core1: "core k1 = (core k)(t := b)"
    by (auto simp: k1_def core_def fun_eq_iff b)
  have "linked (upd_tcb t (\<lambda>_. b) k) qs" by (rule linked_unqueued [OF d(1) out])
  then have lk: "linked k1 qs" by (rule linked_cong) (simp_all add: k1_def)
  have "prio_of (core k1) t < NUM_PRIORITY_LEVELS" using arg(2) b by (simp add: core1)
  from add_task_refines [OF lk this out] obtain k2 where
    k2: "scheduler_add_task k1 (Some t) = Some k2" "linked k2 (enqueue (core k1) t qs)"
      "core k2 = set_state TASK_STATE_READY t (core k1)" "same_rest k1 k2" by blast
  have "b\<lparr>tstate := TASK_STATE_READY\<rparr> = b" using b(2) by simp
  then have core2: "core k2 = (core k)(t := b)" using k2(3) by (simp add: core1 set_state_def)
  have "task_id (task_pool k2 t) = next_task_id k" using arg_cong [OF core2, of "\<lambda>c. task_id (c t)"] b(3) by simp
  then have "task_create fun_ptr name prio params k = Some (k2, RTOS_OK, Some (next_task_id k))"
    using create_unfold [OF arg slot] k2(1) by (simp add: k1_def b_def)
  moreover have "tasks_ok ((core k)(t := b)) (enqueue ((core k)(t := b)) t qs) (current_tcb k) (next_task_id k + 1)"
    by (rule ok_new [OF d(2) t(1) _ nid]) (use t(2) b arg(2) in simp_all)
  then have "kernel_ok k2 (enqueue ((core k)(t := b)) t qs)"
    using k2(2,4) d(3,4) core1 core2 by (simp add: kernel_ok_def k1_def)
  ultimately show ?thesis using core2 k2(4) by (simp add: k1_def)
qed

lemma create_current:
  "task_create f nm prio params k = Some (k', r, i) \<Longrightarrow> current_tcb k' = current_tcb k"
  by (auto simp: task_create_def scheduler_add_task_def Let_def split: option.splits if_splits Option.bind_splits)

end
