(* ===== verification/Kernel_Run.thy ===== *)
theory Kernel_Run imports Kernel_Ops begin

text \<open>
  Runs of the kernel: the queues read off the linked lists, the invariant over them, the step
  relation of the task interface and the boot state.
\<close>

section \<open>The invariant on states\<close>

fun walk_tcbs :: "nat \<Rightarrow> (nat \<Rightarrow> tcb) \<Rightarrow> tcb_ptr \<Rightarrow> nat list" where
  "walk_tcbs 0 pool p = []"
| "walk_tcbs (Suc n) pool p = (case p of None \<Rightarrow> [] | Some t \<Rightarrow> t # walk_tcbs n pool (tnext (pool t)))"

definition queues :: "kernel \<Rightarrow> queues" where
  "queues k p = walk_tcbs MAX_TASKS (task_pool k) (ready_lists k p)"

definition kernel_inv :: "kernel \<Rightarrow> bool" where
  "kernel_inv k \<longleftrightarrow> kernel_ok k (queues k)"

lemma walk_tlist: "tlist pool p ts \<Longrightarrow> length ts \<le> n \<Longrightarrow> walk_tcbs n pool p = ts"
proof (induction n pool p arbitrary: ts rule: walk_tcbs.induct)
  case (2 n pool p)
  then show ?case by (cases ts) auto
qed simp

lemma kernel_ok_length:
  assumes "kernel_ok k qs" and "p < NUM_PRIORITY_LEVELS"
  shows "length (qs p) \<le> MAX_TASKS"
proof -
  have q: "distinct (qs p)" "set (qs p) = ready_set (core k) p"
    using tasks_okD(1) [OF kernel_okD(2) [OF assms(1)] assms(2)] by (simp_all add: queue_ok_def)
  have "set (qs p) \<subseteq> {..<MAX_TASKS}" unfolding q(2) by (auto simp: ready_set_def)
  from card_mono [OF _ this] distinct_card [OF q(1)] show ?thesis by simp
qed

lemma kernel_ok_queues:
  assumes "kernel_ok k qs" and "p < NUM_PRIORITY_LEVELS"
  shows "queues k p = qs p"
  unfolding queues_def
  by (rule walk_tlist [OF linkedD(1) [OF kernel_okD(1) [OF assms(1)] assms(2)] kernel_ok_length [OF assms]])

lemma kernel_ok_agree:
  assumes "kernel_ok k qs" and "\<And>p. p < NUM_PRIORITY_LEVELS \<Longrightarrow> qs' p = qs p"
  shows "kernel_ok k qs'"
proof -
  have "linked k qs'" using kernel_okD(1) [OF assms(1)] assms(2) by (simp add: linked_def)
  moreover have "tasks_ok (core k) qs' (current_tcb k) (next_task_id k)"
    using kernel_okD(2) [OF assms(1)] assms(2) by (simp add: tasks_ok_def queue_ok_def)
  ultimately show ?thesis using kernel_okD(3,4) [OF assms(1)] by (simp add: kernel_ok_def)
qed

lemma kernel_invI: "kernel_ok k qs \<Longrightarrow> kernel_inv k"
  unfolding kernel_inv_def using kernel_ok_agree kernel_ok_queues by blast

section \<open>Boot\<close>

definition kernel_boot :: "kernel \<Rightarrow> kernel" where
  "kernel_boot k = scheduler_init (task_init k)"

lemma boot_core: "core (kernel_boot k) t = zero_tcb"
  by (simp add: core_def kernel_boot_def scheduler_init_def task_init_def unlink_def zero_tcb_def)

lemma boot_ok: "kernel_ok (kernel_boot k) (\<lambda>_. [])"
  unfolding kernel_ok_def
proof (intro conjI)
  show "linked (kernel_boot k) (\<lambda>_. [])"
    by (simp add: linked_def kernel_boot_def scheduler_init_def)
  show "tasks_ok (core (kernel_boot k)) (\<lambda>_. []) (current_tcb (kernel_boot k)) (next_task_id (kernel_boot k))"
    by (rule tasks_okI)
      (auto simp: queue_ok_def ready_set_def slot_ok_def ids_distinct_def current_ok_def boot_core
        kernel_boot_def scheduler_init_def task_init_def zero_tcb_def NUM_PRIORITY_LEVELS_def)
qed (simp_all add: kernel_boot_def scheduler_init_def task_init_def)

section \<open>Steps\<close>

text \<open>
  What clients and the timer do: create tasks (the identifiers do not wrap within a run), change
  the state of tasks by identifier (never 0, which no task has), yield, delay, tick, start the
  scheduler once, and run a task, which writes its own stack.
\<close>

inductive kernel_step :: "kernel \<Rightarrow> kernel \<Rightarrow> bool" where
  create: "unat (next_task_id k) + 1 < 2 ^ 32 \<Longrightarrow> task_create f nm prio params k = Some (k', r, i) \<Longrightarrow>
    kernel_step k k'"
| delete: "tid \<noteq> 0 \<Longrightarrow> task_delete tid k = Some (k', r) \<Longrightarrow> kernel_step k k'"
| suspend: "tid \<noteq> 0 \<Longrightarrow> task_suspend tid k = Some (k', r) \<Longrightarrow> kernel_step k k'"
| resume: "tid \<noteq> 0 \<Longrightarrow> task_resume tid k = Some (k', r) \<Longrightarrow> kernel_step k k'"
| delay: "task_delay n k = Some k' \<Longrightarrow> kernel_step k k'"
| yield: "task_yield k = Some k' \<Longrightarrow> kernel_step k k'"
| tick: "scheduler_tick k = Some k' \<Longrightarrow> kernel_step k k'"
| start: "current_tcb k = None \<Longrightarrow> scheduler_start k = Some k' \<Longrightarrow> kernel_step k k'"
| work: "kernel_step k (upd_tcb t (\<lambda>b. b\<lparr>stack := st, stack_ptr := sp\<rparr>) k)"

lemma work_ok: "kernel_ok k qs \<Longrightarrow> kernel_ok (upd_tcb t (\<lambda>b. b\<lparr>stack := st, stack_ptr := sp\<rparr>) k) qs"
  unfolding kernel_ok_def
  by (auto intro: linked_cong tasks_ok_cong)

lemma create_keeps:
  assumes "kernel_ok k qs" and "unat (next_task_id k) + 1 < 2 ^ 32"
  shows "\<exists>k' qs' r i. task_create f nm prio params k = Some (k', r, i) \<and> kernel_ok k' qs'"
proof (cases "f = NULL \<or> NUM_PRIORITY_LEVELS \<le> unat prio \<or> find_free_slot k = None")
  case True
  with assms(1) show ?thesis by (auto simp: task_create_def split: option.splits)
next
  case False
  then obtain t where "find_free_slot k = Some t" by auto
  from create_ok [OF assms _ _ this, of f prio nm params] False show ?thesis by auto
qed

lemma kernel_step_ok:
  assumes "kernel_step k k'" and "kernel_ok k qs"
  shows "\<exists>qs'. kernel_ok k' qs'"
  using assms(1)
proof cases
  case (create f nm prio params r i)
  with create_keeps [OF assms(2) create(1), of f nm prio params] show ?thesis by auto
next
  case (delete tid r)
  with delete_ok [OF assms(2), of tid] show ?thesis by auto
next
  case (suspend tid r)
  with suspend_ok [OF assms(2), of tid] show ?thesis by auto
next
  case (resume tid r)
  with resume_ok [OF assms(2), of tid] show ?thesis by auto
next
  case (delay n)
  with delay_ok [OF assms(2), of n] show ?thesis by auto
next
  case yield
  with yield_ok [OF assms(2)] show ?thesis by (auto simp: task_yield_def)
next
  case tick
  with tick_keeps [OF assms(2)] show ?thesis by auto
next
  case start
  with start_ok [OF assms(2)] show ?thesis by auto
next
  case (work t st sp)
  with work_ok [OF assms(2)] show ?thesis by blast
qed

interpretation kernel_runs: invariant_system
  "\<lambda>k. \<exists>k0. k = kernel_boot k0" kernel_step kernel_inv
proof
  show "\<exists>k0. s = kernel_boot k0 \<Longrightarrow> kernel_inv s" for s
    using boot_ok kernel_invI by blast
  show "kernel_step s t \<Longrightarrow> kernel_inv s \<Longrightarrow> kernel_inv t" for s t
    unfolding kernel_inv_def [of s] using kernel_step_ok kernel_invI by blast
qed

end
