(* ===== verification/Kernel_Props.thy ===== *)
theory Kernel_Props imports Kernel_Run begin

text \<open>
  The properties of tasks and scheduling: the invariant over runs, progress of every operation,
  the refinement of the scheduling decision, priority order, rotation among equals, and the task that
  yields alone and is never replaced by a peer again.
\<close>

section \<open>Well-formedness and progress\<close>

text \<open>An example state: two tasks of priority 1 and one of priority 2, scheduler started.\<close>

definition blank_kernel :: kernel where
  "blank_kernel = kernel_boot \<lparr>task_pool = (\<lambda>_. zero_tcb), next_task_id = 1, current_task = None,
     ready_lists = (\<lambda>_. None), system_tick_count = 0, scheduler_running = False, current_tcb = None,
     delayed_list = None\<rparr>"

lemma blank_ok: "kernel_ok blank_kernel (\<lambda>_. [])"
  unfolding blank_kernel_def by (rule boot_ok)

lemma blank_inv: "kernel_inv blank_kernel"
  using blank_ok by (rule kernel_invI)

lemma blank_simps [simp]:
  "task_pool blank_kernel = (\<lambda>_. zero_tcb)" "next_task_id blank_kernel = 1" "current_task blank_kernel = None"
  "ready_lists blank_kernel = (\<lambda>_. None)" "system_tick_count blank_kernel = 0"
  "scheduler_running blank_kernel = False" "current_tcb blank_kernel = None" "delayed_list blank_kernel = None"
  by (simp_all add: blank_kernel_def kernel_boot_def scheduler_init_def task_init_def)

text \<open>C3: in every state the kernel can reach from boot, the ready lists are well-formed linked lists
  that hold, for each priority, exactly the ready tasks of that priority, each once; at most the
  current task is running; identifiers are distinct; the two current pointers agree; and the list
  of delayed tasks is empty.\<close>

theorem kernel_always_well_formed:
  assumes "kernel_step\<^sup>*\<^sup>* (kernel_boot k0) k"
  shows "kernel_inv k
    \<and> (\<forall>p<NUM_PRIORITY_LEVELS. distinct (queues k p) \<and> set (queues k p) =
         {t. t < MAX_TASKS \<and> task_id (task_pool k t) \<noteq> 0 \<and> tstate (task_pool k t) = TASK_STATE_READY
             \<and> unat (priority (task_pool k t)) = p})
    \<and> (\<forall>t<MAX_TASKS. tstate (task_pool k t) = TASK_STATE_RUNNING \<longrightarrow> current_tcb k = Some t)
    \<and> delayed_list k = None"
proof -
  have inv: "kernel_inv k" using kernel_runs.reachable_inv assms by blast
  note d = kernel_okD [OF inv [unfolded kernel_inv_def]]
  have "distinct (queues k p) \<and> set (queues k p) = ready_set (core k) p" if "p < NUM_PRIORITY_LEVELS" for p
    using tasks_okD(1) [OF d(2) that] by (simp add: queue_ok_def)
  moreover have "tstate (task_pool k t) = TASK_STATE_RUNNING \<Longrightarrow> current_tcb k = Some t" if "t < MAX_TASKS" for t
    using tasks_okD(2) [OF d(2) that] by (simp add: slot_ok_def)
  ultimately show ?thesis using inv d(4) by (simp add: ready_set_def)
qed

theorem kernel_always_well_formed_witness:
  "\<exists>k. task_create 4096 None 1 0 blank_kernel = Some (k, RTOS_OK, Some 1) \<and> kernel_inv k"
proof -
  have "find_free_slot blank_kernel = Some 0"
    by (simp add: find_free_slot_def find_upt_Some zero_tcb_def MAX_TASKS_def)
  from create_ok [OF blank_ok _ _ _ this, of 4096 1 None 0] obtain k where
    k: "task_create 4096 None 1 0 blank_kernel = Some (k, RTOS_OK, Some 1)"
    by (auto simp: NUM_PRIORITY_LEVELS_def)
  have "kernel_step blank_kernel k" by (rule kernel_step.create [OF _ k]) simp
  with kernel_always_well_formed k show ?thesis unfolding blank_kernel_def by blast
qed

text \<open>C20: on a well-formed kernel every operation of the task interface returns (the loops over the
  ready lists end) and the state it returns is well formed: deleting, suspending and resuming a task by
  an identifier other than 0, which no task has; delaying, yielding and the tick; creating a task, with
  any arguments, as long as the 32-bit counter of identifiers does not wrap; and starting the scheduler,
  as long as no task is running already.\<close>

theorem kernel_ops_return:
  assumes "kernel_inv k" and "tid \<noteq> 0"
  shows "(\<exists>k' r. task_delete tid k = Some (k', r) \<and> kernel_inv k')
    \<and> (\<exists>k' r. task_suspend tid k = Some (k', r) \<and> kernel_inv k')
    \<and> (\<exists>k' r. task_resume tid k = Some (k', r) \<and> kernel_inv k')
    \<and> (\<exists>k'. task_delay n k = Some k' \<and> kernel_inv k')
    \<and> (\<exists>k'. task_yield k = Some k' \<and> kernel_inv k')
    \<and> (\<exists>k'. scheduler_tick k = Some k' \<and> kernel_inv k')
    \<and> (unat (next_task_id k) + 1 < 2 ^ 32 \<longrightarrow>
         (\<exists>k' r i. task_create f nm prio params k = Some (k', r, i) \<and> kernel_inv k'))
    \<and> ((\<forall>c. current_tcb k = Some c \<longrightarrow> tstate (task_pool k c) \<noteq> TASK_STATE_RUNNING) \<longrightarrow>
         (\<exists>k'. scheduler_start k = Some k' \<and> kernel_inv k'))"
proof -
  note ok = assms(1) [unfolded kernel_inv_def]
  have "\<exists>k'. scheduler_start k = Some k' \<and> kernel_inv k'"
    if "\<forall>c. current_tcb k = Some c \<longrightarrow> tstate (task_pool k c) \<noteq> TASK_STATE_RUNNING"
    using start_ok [OF ok] that kernel_invI by blast
  moreover have "\<exists>k' r i. task_create f nm prio params k = Some (k', r, i) \<and> kernel_inv k'"
    if "unat (next_task_id k) + 1 < 2 ^ 32"
    using create_keeps [OF ok that, of f nm prio params] kernel_invI by blast
  moreover note delete_ok [OF ok assms(2)] suspend_ok [OF ok assms(2)] resume_ok [OF ok assms(2)] delay_ok [OF ok, of n]
    yield_ok [OF ok] tick_keeps [OF ok]
  ultimately show ?thesis unfolding task_yield_def using kernel_invI by (intro conjI impI; blast)
qed

theorem kernel_ops_return_witness:
  "(\<exists>k'. scheduler_tick blank_kernel = Some k' \<and> kernel_inv k')
   \<and> (\<exists>k' r i. task_create 4096 None 1 0 blank_kernel = Some (k', r, i) \<and> kernel_inv k')
   \<and> (\<exists>k'. scheduler_start blank_kernel = Some k' \<and> kernel_inv k')"
  using kernel_ops_return [OF blank_inv, of 1 0 4096 None 1 0] by auto

section \<open>The scheduling decision\<close>

text \<open>C6: a yield of the running scheduler refines the abstract scheduler: reading the queues off the
  linked lists, it moves a running current task to the end of its queue, and makes the front of
  the highest non-empty queue the current task; without ready task nothing changes.\<close>

theorem scheduler_yield_refines:
  assumes "kernel_inv k" and "scheduler_running k"
  shows "\<exists>k' c' qs' cur'. scheduler_yield k = Some k' \<and> kernel_inv k'
    \<and> spec_yield (core k, queues k, current_tcb k) = (c', qs', cur')
    \<and> core k' = c' \<and> current_tcb k' = cur' \<and> (\<forall>p<NUM_PRIORITY_LEVELS. queues k' p = qs' p)"
proof -
  from yield_ok [OF assms(1) [unfolded kernel_inv_def]] assms(2) obtain k' qs' where
    "scheduler_yield k = Some k'" "kernel_ok k' qs'"
    "spec_yield (core k, queues k, current_tcb k) = (core k', qs', current_tcb k')" by auto
  with kernel_ok_queues kernel_invI show ?thesis by blast
qed

text \<open>A started kernel with three tasks, for the witnesses: task 1 (slot 0, priority 1) runs, task 2
  (slot 1, priority 1) and task 3 (slot 2, priority 2) are ready.\<close>

definition demo_kernel :: kernel where
  "demo_kernel = blank_kernel\<lparr>
     task_pool := (\<lambda>_. zero_tcb)
       (0 := zero_tcb\<lparr>task_id := 1, priority := 1, tstate := TASK_STATE_RUNNING\<rparr>,
        1 := zero_tcb\<lparr>task_id := 2, priority := 1\<rparr>,
        2 := zero_tcb\<lparr>task_id := 3, priority := 2\<rparr>),
     next_task_id := 4, current_task := Some 0, current_tcb := Some 0, scheduler_running := True,
     ready_lists := (\<lambda>_. None)(1 := Some 1, 2 := Some 2)\<rparr>"

definition demo_queues :: queues where
  "demo_queues = (\<lambda>_. [])(1 := [1], 2 := [2])"

lemma demo_simps [simp]:
  "current_task demo_kernel = Some 0" "current_tcb demo_kernel = Some 0" "scheduler_running demo_kernel"
  "delayed_list demo_kernel = None" "next_task_id demo_kernel = 4"
  "tstate (task_pool demo_kernel t) = (if t = 0 then TASK_STATE_RUNNING else TASK_STATE_READY)"
  "task_id (task_pool demo_kernel t) = (if t = 0 then 1 else if t = 1 then 2 else if t = 2 then 3 else 0)"
  "priority (task_pool demo_kernel t) = (if t = 0 \<or> t = 1 then 1 else if t = 2 then 2 else 0)"
  by (auto simp: demo_kernel_def zero_tcb_def)

lemma demo_ok: "kernel_ok demo_kernel demo_queues"
  unfolding kernel_ok_def
proof (intro conjI)
  show "linked demo_kernel demo_queues"
    by (auto simp: linked_def demo_queues_def) (auto simp: demo_kernel_def zero_tcb_def)
  show "tasks_ok (core demo_kernel) demo_queues (current_tcb demo_kernel) (next_task_id demo_kernel)"
  proof (rule tasks_okI)
    show "queue_ok (core demo_kernel) demo_queues p" for p
      by (auto simp: queue_ok_def demo_queues_def ready_set_def MAX_TASKS_def split: if_splits)
    show "slot_ok (core demo_kernel) (current_tcb demo_kernel) (next_task_id demo_kernel) t" for t
      by (auto simp: slot_ok_def NUM_PRIORITY_LEVELS_def)
    show "ids_distinct (core demo_kernel)"
      by (auto simp: ids_distinct_def inj_on_def split: if_splits)
    show "current_ok (core demo_kernel) (current_tcb demo_kernel)"
      by (simp add: current_ok_def MAX_TASKS_def)
  qed
qed simp_all

lemma demo_inv: "kernel_inv demo_kernel"
  using demo_ok by (rule kernel_invI)

lemma demo_queue: "p < NUM_PRIORITY_LEVELS \<Longrightarrow> queues demo_kernel p = demo_queues p"
  by (rule kernel_ok_queues [OF demo_ok])

theorem scheduler_yield_refines_witness:
  "\<exists>k'. scheduler_yield demo_kernel = Some k' \<and> kernel_inv k'"
  using scheduler_yield_refines [OF demo_inv demo_simps(3)] by blast

section \<open>Priority order\<close>

lemma schedule_urgent:
  assumes ok: "tasks_ok c qs cur nid" and res: "spec_schedule (c, qs, cur) = (c', qs', cur')"
    and t: "t < MAX_TASKS" "task_id (c' t) \<noteq> 0" "tstate (c' t) = TASK_STATE_READY"
  shows "\<exists>x. cur' = Some x \<and> prio_of c' x \<le> prio_of c' t"
proof -
  have same: "priority (c' u) = priority (c u)" "task_id (c' u) = task_id (c u)" for u
    using res by (auto simp: spec_schedule_def split: option.splits if_splits)
  have "tstate (c t) = TASK_STATE_READY"
    using res t(3) by (auto simp: spec_schedule_def split: option.splits if_splits)
  then have "t \<in> ready_set c (prio_of c t)" using t same by (simp add: ready_set_def)
  moreover have p: "prio_of c t < NUM_PRIORITY_LEVELS" using tasks_okD(2) [OF ok t(1)] by (simp add: slot_ok_def)
  ultimately have ne: "qs (prio_of c t) \<noteq> []" using in_queue [OF ok p] by force
  then obtain n where n: "front qs = Some n" using p front_None [of qs] by (cases "front qs") auto
  then obtain r where r: "r < NUM_PRIORITY_LEVELS" "qs r \<noteq> []" "hd (qs r) = n" "\<forall>j<r. qs j = []"
    by (auto simp: front_Some)
  have "n \<in> set (qs r)" using r(2,3) hd_in_set by blast
  then have "prio_of c n = r" using in_queue [OF ok r(1)] by (simp add: ready_set_def)
  moreover have "r \<le> prio_of c t" using r(4) ne by (meson not_le)
  moreover have "cur' = Some n" using res n by (auto simp: spec_schedule_def split: if_splits)
  ultimately show ?thesis by (simp add: same)
qed

lemma yield_urgent:
  assumes ok: "tasks_ok c qs cur nid" and res: "spec_yield (c, qs, cur) = (c', qs', cur')"
    and t: "t < MAX_TASKS" "task_id (c' t) \<noteq> 0" "tstate (c' t) = TASK_STATE_READY"
  shows "\<exists>x. cur' = Some x \<and> prio_of c' x \<le> prio_of c' t"
proof (cases "\<exists>x. cur = Some x \<and> tstate (c x) = TASK_STATE_RUNNING")
  case True
  then obtain x where x: "cur = Some x" "tstate (c x) = TASK_STATE_RUNNING" by blast
  from ok_enqueue [OF ok] tasks_okD(4) [OF ok x(1)] x(2)
  have "tasks_ok (set_state TASK_STATE_READY x c) (enqueue c x qs) cur nid" by simp
  moreover have "spec_schedule (set_state TASK_STATE_READY x c, enqueue c x qs, cur) = (c', qs', cur')"
    using res x by (simp add: spec_yield_def)
  ultimately show ?thesis using schedule_urgent t by blast
next
  case False
  then have "spec_schedule (c, qs, cur) = (c', qs', cur')"
    using res by (auto simp: spec_yield_def split: option.splits if_splits)
  from schedule_urgent [OF ok this t] show ?thesis .
qed

text \<open>After a yield of the running scheduler no ready task is more urgent than the current task
  (smaller numbers are more urgent), whatever the current task was before.\<close>

lemma scheduler_yield_most_urgent:
  assumes "kernel_inv k" and "scheduler_running k" and "scheduler_yield k = Some k'"
    and "t < MAX_TASKS" and "task_id (task_pool k' t) \<noteq> 0" and "tstate (task_pool k' t) = TASK_STATE_READY"
  shows "\<exists>c. current_tcb k' = Some c
    \<and> unat (priority (task_pool k' c)) \<le> unat (priority (task_pool k' t))"
proof -
  note ok = assms(1) [unfolded kernel_inv_def]
  from yield_ok [OF ok] assms(2,3) obtain qs' where
    "(core k', qs', current_tcb k') = spec_yield (core k, queues k, current_tcb k)" by auto
  from yield_urgent [OF kernel_okD(2) [OF ok] this [symmetric] assms(4)] assms(5,6) show ?thesis by simp
qed

lemma demo_yield:
  obtains k' where "scheduler_yield demo_kernel = Some k'" "kernel_inv k'" "current_tcb k' = Some 1"
    "tstate (task_pool k' 0) = TASK_STATE_READY" "task_id (task_pool k' 0) = 1"
proof -
  from yield_ok [OF demo_ok] obtain k' qs' where
    k': "scheduler_yield demo_kernel = Some k'" "kernel_ok k' qs'"
      "spec_yield (core demo_kernel, demo_queues, Some 0) = (core k', qs', current_tcb k')" by auto
  have f: "front (enqueue (core demo_kernel) 0 demo_queues) = Some 1"
    by (auto simp: front_Some enqueue_def demo_queues_def NUM_PRIORITY_LEVELS_def intro!: exI [of _ 1])
  have "core k' = set_state TASK_STATE_RUNNING 1 (set_state TASK_STATE_READY 0 (core demo_kernel))"
    "current_tcb k' = Some 1"
    using k'(3) by (auto simp: spec_yield_def spec_schedule_def f)
  then have "current_tcb k' = Some 1" "tstate (core k' 0) = TASK_STATE_READY" "task_id (core k' 0) = 1" by simp_all
  with k'(1) kernel_invI [OF k'(2)] show thesis by (intro that) simp_all
qed

section \<open>Rotation\<close>

lemma yield_rotates:
  assumes ok: "tasks_ok c qs (Some x) nid" and x: "tstate (c x) = TASK_STATE_RUNNING" "prio_of c x = p"
    and hi: "\<forall>r<p. qs r = []" and q: "qs p = n # rest"
  shows "spec_yield (c, qs, Some x) =
    (set_state TASK_STATE_RUNNING n (set_state TASK_STATE_READY x c), qs(p := rest @ [x]), Some n)"
proof -
  have xm: "x < MAX_TASKS" using tasks_okD(4) [OF ok] by simp
  have p: "p < NUM_PRIORITY_LEVELS" using tasks_okD(2) [OF ok xm] x(2) by (simp add: slot_ok_def)
  have out: "x \<notin> set (n # rest)" using in_queue [OF ok p, of x] x(1) q by (simp add: ready_set_def)
  have n: "prio_of c n = p" using in_queue [OF ok p, of n] q by (simp add: ready_set_def)
  have "front (enqueue c x qs) = Some n"
    unfolding front_Some by (rule exI [of _ p]) (use p hi q x(2) in \<open>simp add: enqueue_def\<close>)
  moreover have "dequeue c n (enqueue c x (dequeue c x (enqueue c x qs))) = qs(p := rest @ [x])"
    using out q x(2) n by (simp add: dequeue_def enqueue_def remove1_append remove1_idem)
  ultimately show ?thesis using x(1) out
    by (auto simp: spec_yield_def spec_schedule_def spec_rotate_def dequeue_def enqueue_def)
qed

fun yields :: "nat \<Rightarrow> kernel \<Rightarrow> kernel option" where
  "yields 0 k = Some k"
| "yields (Suc n) k = do { k1 \<leftarrow> yields n k; scheduler_yield k1 }"

lemma yields_rotate:
  assumes ok: "kernel_ok k qs" and run: "scheduler_running k" and cur: "current_tcb k = Some x"
    and x: "tstate (task_pool k x) = TASK_STATE_RUNNING" "unat (priority (task_pool k x)) = p"
    and hi: "\<forall>r<p. qs r = []" and w: "w = x # qs p"
  shows "i < length w \<Longrightarrow> \<exists>k' qs'. yields i k = Some k' \<and> kernel_ok k' qs' \<and> scheduler_running k'
    \<and> current_tcb k' = Some (w ! i) \<and> tstate (task_pool k' (w ! i)) = TASK_STATE_RUNNING
    \<and> (\<forall>t. priority (task_pool k' t) = priority (task_pool k t))
    \<and> (\<forall>r<p. qs' r = []) \<and> qs' p = drop (Suc i) w @ take i w"
proof (induction i)
  case 0
  with assms show ?case by auto
next
  case (Suc i)
  then obtain k1 qs1 where k1: "yields i k = Some k1" "kernel_ok k1 qs1" "scheduler_running k1"
      "current_tcb k1 = Some (w ! i)" "tstate (task_pool k1 (w ! i)) = TASK_STATE_RUNNING"
      "\<forall>t. priority (task_pool k1 t) = priority (task_pool k t)"
      "\<forall>r<p. qs1 r = []" "qs1 p = drop (Suc i) w @ take i w" by auto
  have xm: "x < MAX_TASKS" using tasks_okD(4) [OF kernel_okD(2) [OF ok] cur] by simp
  have p: "p < NUM_PRIORITY_LEVELS" using tasks_okD(2) [OF kernel_okD(2) [OF ok] xm] x(2) by (simp add: slot_ok_def)
  have prio: "prio_of (core k) t = p" if "t \<in> set w" for t
    using that w x(2) in_queue [OF kernel_okD(2) [OF ok] p, of t] by (auto simp: ready_set_def)
  have q: "qs1 p = w ! Suc i # (drop (Suc (Suc i)) w @ take i w)"
    using k1(8) Suc.prems by (simp add: Cons_nth_drop_Suc flip: append_Cons)
  have wi: "prio_of (core k1) (w ! i) = p" using prio [of "w ! i"] k1(6) Suc.prems by simp
  have ok1: "tasks_ok (core k1) qs1 (Some (w ! i)) (next_task_id k1)" using kernel_okD(2) [OF k1(2)] k1(4) by simp
  from yield_ok [OF k1(2)] k1(3) obtain k2 qs2 where
    k2: "scheduler_yield k1 = Some k2" "kernel_ok k2 qs2"
      "(core k2, qs2, current_tcb k2) = spec_yield (core k1, qs1, current_tcb k1)"
      "scheduler_running k2" by auto
  have v: "core k2 = set_state TASK_STATE_RUNNING (w ! Suc i) (set_state TASK_STATE_READY (w ! i) (core k1))"
    "qs2 = qs1(p := (drop (Suc (Suc i)) w @ take i w) @ [w ! i])" "current_tcb k2 = Some (w ! Suc i)"
    using k2(3) yield_rotates [OF ok1 _ wi k1(7) q] k1(4,5) by simp_all
  have st: "tstate (core k2 (w ! Suc i)) = TASK_STATE_RUNNING" and
    pr: "priority (core k2 t) = priority (core k t)" for t using k1(6) by (simp_all add: v(1))
  have "qs2 p = drop (Suc (Suc i)) w @ take (Suc i) w" using Suc.prems by (simp add: v(2) take_Suc_conv_app_nth)
  moreover have "yields (Suc i) k = Some k2" "\<forall>r<p. qs2 r = []" using k1(1,7) k2(1) v(2) by simp_all
  moreover have "tstate (task_pool k2 (w ! Suc i)) = TASK_STATE_RUNNING"
    "\<forall>t. priority (task_pool k2 t) = priority (task_pool k t)" using st pr by simp_all
  ultimately show ?case using k2(2,4) v(3) by blast
qed

text \<open>A current task that is ready, not running, and heads the most urgent queue: the scheduler finds it
  and sees no change, so yields do nothing.\<close>

lemma yields_stuck:
  assumes inv: "kernel_inv k" and cur: "current_tcb k = Some x" and x: "tstate (task_pool k x) = TASK_STATE_READY"
    and hi: "\<forall>r<p. queues k r = []" and q: "queues k p = x # rest" and p: "p < NUM_PRIORITY_LEVELS"
  shows "yields n k = Some k"
proof -
  have lk: "linked k (queues k)" using kernel_okD(1) [OF inv [unfolded kernel_inv_def]] .
  have "front (queues k) = Some x" unfolding front_Some by (rule exI [of _ p]) (use hi q p in simp)
  then have "scheduler_yield k = Some k"
    using cur x by (auto simp: scheduler_yield_def schedule_def highest_front [OF lk])
  then show ?thesis by (induction n) auto
qed

text \<open>A task that runs alone and yields.\<close>

lemma lone_yield:
  assumes inv: "kernel_inv k" and run: "scheduler_running k" and cur: "current_tcb k = Some x"
    and x: "tstate (task_pool k x) = TASK_STATE_RUNNING" "unat (priority (task_pool k x)) = p"
    and alone: "\<forall>r\<le>p. queues k r = []"
  obtains k' where "scheduler_yield k = Some k'" and "kernel_inv k'" and "scheduler_running k'"
    and "current_tcb k' = Some x" and "tstate (task_pool k' x) = TASK_STATE_READY"
    and "priority (task_pool k' x) = priority (task_pool k x)"
    and "\<forall>r<p. queues k' r = []" and "queues k' p = [x]" and "next_task_id k' = next_task_id k"
    and "core k' = set_state TASK_STATE_READY x (core k)"
proof -
  note ok = inv [unfolded kernel_inv_def]
  have p: "p < NUM_PRIORITY_LEVELS" using ok_current [OF ok cur] x(2) by simp
  have "front (enqueue (core k) x (queues k)) = Some x"
    unfolding front_Some by (rule exI [of _ p]) (use p x(2) alone in \<open>simp add: enqueue_def\<close>)
  then have spec: "spec_yield (core k, queues k, Some x) =
      (set_state TASK_STATE_READY x (core k), enqueue (core k) x (queues k), Some x)"
    using x(1) by (simp add: spec_yield_def spec_schedule_def)
  from yield_ok [OF ok] run cur spec obtain k' where
    k': "scheduler_yield k = Some k'" "kernel_ok k' (enqueue (core k) x (queues k))"
      "core k' = set_state TASK_STATE_READY x (core k)" "current_tcb k' = Some x"
      "next_task_id k' = next_task_id k" "scheduler_running k'" by auto
  have q: "queues k' r = enqueue (core k) x (queues k) r" if "r < NUM_PRIORITY_LEVELS" for r
    by (rule kernel_ok_queues [OF k'(2) that])
  have "\<forall>r<p. queues k' r = []" "queues k' p = [x]" using q p alone x(2) by (simp_all add: enqueue_def)
  moreover have "tstate (task_pool k' x) = TASK_STATE_READY" "priority (task_pool k' x) = priority (task_pool k x)"
    using arg_cong [OF k'(3), of "\<lambda>c. tstate (c x)"] arg_cong [OF k'(3), of "\<lambda>c. priority (c x)"] by simp_all
  ultimately show thesis by (intro that [OF k'(1) kernel_invI [OF k'(2)] k'(6,4) _ _ _ _ k'(5,3)])
qed

text \<open>Then a peer it creates at its own priority is queued behind it, and no yield ever runs it.\<close>

lemma lone_yield_starves_peer:
  assumes inv: "kernel_inv k" and run: "scheduler_running k" and cur: "current_tcb k = Some x"
    and x: "tstate (task_pool k x) = TASK_STATE_RUNNING" and alone: "\<forall>r\<le>unat (priority (task_pool k x)). queues k r = []"
    and free: "find_free_slot k = Some t" and nid: "unat (next_task_id k) + 1 < 2 ^ 32" and f: "f \<noteq> NULL"
  shows "\<exists>k1 k2. scheduler_yield k = Some k1
    \<and> task_create f nm (priority (task_pool k x)) params k1 = Some (k2, RTOS_OK, Some (next_task_id k))
    \<and> tstate (task_pool k2 t) = TASK_STATE_READY \<and> queues k2 (unat (priority (task_pool k x))) = [x, t]
    \<and> (\<forall>n. yields n k2 = Some k2) \<and> current_tcb k2 = Some x"
proof -
  let ?p = "unat (priority (task_pool k x))"
  note old = inv [unfolded kernel_inv_def]
  have p: "?p < NUM_PRIORITY_LEVELS" using ok_current [OF old cur] by simp
  obtain k1 where k1: "scheduler_yield k = Some k1" "kernel_inv k1" "current_tcb k1 = Some x"
      "tstate (task_pool k1 x) = TASK_STATE_READY" "priority (task_pool k1 x) = priority (task_pool k x)"
      "\<forall>r<?p. queues k1 r = []" "queues k1 ?p = [x]" "next_task_id k1 = next_task_id k"
      "core k1 = set_state TASK_STATE_READY x (core k)"
    by (rule lone_yield [OF inv run cur x refl alone])
  note ok1 = k1(2) [unfolded kernel_inv_def]
  have xid: "task_id (task_pool k x) \<noteq> 0" using tasks_okD(4) [OF kernel_okD(2) [OF old] cur] by simp
  have same: "task_id (task_pool k1 i) = task_id (task_pool k i)"
    "tstate (task_pool k1 i) = (if i = x then TASK_STATE_READY else tstate (task_pool k i))" for i
    using arg_cong [OF k1(9), of "\<lambda>c. task_id (c i)"] arg_cong [OF k1(9), of "\<lambda>c. tstate (c i)"] by simp_all
  have free1: "find_free_slot k1 = Some t"
    unfolding free [symmetric] find_free_slot_def by (rule find_cong_set) (use x in \<open>simp add: same\<close>)
  have tx: "t \<noteq> x" using free_slot [OF free] x xid by auto
  let ?b = "new_tcb f nm (priority (task_pool k x)) params (next_task_id k)"
  from create_ok [OF ok1 _ f _ free1, of "priority (task_pool k x)" nm params] nid p k1(8) obtain k2 where
    k2: "task_create f nm (priority (task_pool k x)) params k1 = Some (k2, RTOS_OK, Some (next_task_id k))"
      "kernel_ok k2 (enqueue ((core k1)(t := ?b)) t (queues k1))" "core k2 = (core k1)(t := ?b)" by auto
  have cur2: "current_tcb k2 = Some x" using create_current [OF k2(1)] k1(3) by simp
  have q: "queues k2 r = enqueue ((core k1)(t := ?b)) t (queues k1) r" if "r < NUM_PRIORITY_LEVELS" for r
    by (rule kernel_ok_queues [OF k2(2) that])
  have q2: "queues k2 ?p = [x, t]" "\<forall>r<?p. queues k2 r = []"
    using q p k1(6,7) by (simp_all add: enqueue_def)
  have st: "tstate (core k2 t) = TASK_STATE_READY" "tstate (core k2 x) = TASK_STATE_READY"
    using tx k1(4) by (simp_all add: k2(3))
  have "yields n k2 = Some k2" for n
    using yields_stuck [OF kernel_invI [OF k2(2)] cur2 _ q2(2,1) p] st(2) by simp
  with k1(1) k2(1) q2(1) cur2 st(1) show ?thesis by auto
qed

text \<open>C30: what yields do among tasks of one priority while nothing more urgent is ready and tasks only
  yield. When the current task is RUNNING and others wait, they share the processor in turn: the
  \<open>i\<close>-th following yield runs the \<open>i\<close>-th task that was waiting in its queue. When it is RUNNING and
  nobody waits, a yield leaves it current but READY, alone at the head of its queue. And a current
  task that is READY at the head of its queue is never replaced: yields do nothing, whoever waits
  behind it.\<close>

theorem yield_round_robin:
  assumes "kernel_inv k" and "scheduler_running k" and "current_tcb k = Some x"
    and "unat (priority (task_pool k x)) = p" and "\<forall>r<p. queues k r = []"
  shows "(tstate (task_pool k x) = TASK_STATE_RUNNING \<longrightarrow>
        (\<forall>i<length (queues k p). \<exists>k'. yields (Suc i) k = Some k' \<and> current_tcb k' = Some (queues k p ! i)
           \<and> tstate (task_pool k' (queues k p ! i)) = TASK_STATE_RUNNING))
    \<and> (tstate (task_pool k x) = TASK_STATE_RUNNING \<and> queues k p = [] \<longrightarrow>
        (\<exists>k'. scheduler_yield k = Some k' \<and> kernel_inv k' \<and> current_tcb k' = Some x
           \<and> tstate (task_pool k' x) = TASK_STATE_READY \<and> queues k' p = [x] \<and> (\<forall>r<p. queues k' r = [])))
    \<and> (tstate (task_pool k x) = TASK_STATE_READY \<and> queues k p \<noteq> [] \<and> hd (queues k p) = x \<longrightarrow>
        (\<forall>n. yields n k = Some k))"
proof (intro conjI impI allI)
  fix i assume "tstate (task_pool k x) = TASK_STATE_RUNNING" and "i < length (queues k p)"
  with yields_rotate [OF assms(1) [unfolded kernel_inv_def] assms(2,3) _ assms(4,5) refl, of "Suc i"]
  show "\<exists>k'. yields (Suc i) k = Some k' \<and> current_tcb k' = Some (queues k p ! i)
      \<and> tstate (task_pool k' (queues k p ! i)) = TASK_STATE_RUNNING" by auto
next
  assume "tstate (task_pool k x) = TASK_STATE_RUNNING \<and> queues k p = []"
  with lone_yield [OF assms(1-3) _ assms(4)] assms(5)
  show "\<exists>k'. scheduler_yield k = Some k' \<and> kernel_inv k' \<and> current_tcb k' = Some x
      \<and> tstate (task_pool k' x) = TASK_STATE_READY \<and> queues k' p = [x] \<and> (\<forall>r<p. queues k' r = [])"
    by (metis le_neq_implies_less)
next
  fix n assume x: "tstate (task_pool k x) = TASK_STATE_READY \<and> queues k p \<noteq> [] \<and> hd (queues k p) = x"
  then have "queues k p = x # tl (queues k p)" by (metis list.collapse)
  moreover have "p < NUM_PRIORITY_LEVELS" using ok_current [OF assms(1) [unfolded kernel_inv_def] assms(3)] assms(4) by simp
  ultimately show "yields n k = Some k" using yields_stuck [OF assms(1,3) _ assms(5)] x by blast
qed

theorem yield_round_robin_witness:
  "\<exists>k'. yields 1 demo_kernel = Some k' \<and> current_tcb k' = Some 1"
proof -
  have "queues demo_kernel 1 = [1]" "queues demo_kernel 0 = []"
    by (simp_all add: demo_queue demo_queues_def NUM_PRIORITY_LEVELS_def)
  then show ?thesis using yield_round_robin [OF demo_inv, of 0 1] by (auto simp: less_Suc_eq)
qed

end
