(* ===== verification/Task_Props.thy ===== *)
theory Task_Props imports Kernel_Props begin

text \<open>
  Properties of the task operations: creation and its initial stack frame, preemption by the tick,
  delays, and the identifier 0 of unused slots.
\<close>

section \<open>Creation\<close>

lemma no_free_slot:
  "find_free_slot k = None \<longleftrightarrow>
   (\<forall>t<MAX_TASKS. task_id (task_pool k t) \<noteq> 0 \<and> tstate (task_pool k t) \<noteq> TASK_STATE_DELETED)"
proof -
  have "find_free_slot k = None \<longleftrightarrow> \<not> (\<exists>t. t \<in> set [0..<MAX_TASKS] \<and>
      (tstate (task_pool k t) = TASK_STATE_DELETED \<or> task_id (task_pool k t) = 0))"
    unfolding find_free_slot_def by (rule find_None_iff)
  then show ?thesis by auto
qed

text \<open>C29: \<open>task_create\<close> rejects a null function and a priority out of range, answers
  \<open>RTOS_ERROR_NO_MEMORY\<close> exactly when all 16 slots hold living tasks, and otherwise puts a ready
  task with a fresh identifier at the end of the queue of its priority; no other queue changes.\<close>

theorem task_create_outcome:
  assumes "kernel_inv k" and "unat (next_task_id k) + 1 < 2 ^ 32"
  shows "if f = NULL \<or> NUM_PRIORITY_LEVELS \<le> unat prio
     then task_create f nm prio params k = Some (k, RTOS_ERROR_INVALID_PARAM, None)
     else if \<forall>t<MAX_TASKS. task_id (task_pool k t) \<noteq> 0 \<and> tstate (task_pool k t) \<noteq> TASK_STATE_DELETED
     then task_create f nm prio params k = Some (k, RTOS_ERROR_NO_MEMORY, None)
     else \<exists>k' t. task_create f nm prio params k = Some (k', RTOS_OK, Some (next_task_id k))
       \<and> kernel_inv k' \<and> t < MAX_TASKS \<and> task_id (task_pool k' t) = next_task_id k
       \<and> tstate (task_pool k' t) = TASK_STATE_READY
       \<and> (\<forall>p<NUM_PRIORITY_LEVELS. queues k' p = (if p = unat prio then queues k p @ [t] else queues k p))"
proof -
  note ok = assms(1) [unfolded kernel_inv_def]
  show ?thesis
  proof (cases "f = NULL \<or> NUM_PRIORITY_LEVELS \<le> unat prio")
    case arg: False
    show ?thesis
    proof (cases "find_free_slot k")
      case None
      with arg no_free_slot [of k] show ?thesis by (simp add: task_create_def)
    next
      case (Some t)
      have free: "\<not> (\<forall>t<MAX_TASKS. task_id (task_pool k t) \<noteq> 0 \<and> tstate (task_pool k t) \<noteq> TASK_STATE_DELETED)"
        using Some no_free_slot [of k] by simp
      define b where "b = new_tcb f nm prio params (next_task_id k)"
      from create_ok [OF ok assms(2) _ _ Some, of f prio nm params, folded b_def] arg obtain k' where
        k': "task_create f nm prio params k = Some (k', RTOS_OK, Some (next_task_id k))"
          "kernel_ok k' (enqueue ((core k)(t := b)) t (queues k))" "core k' = (core k)(t := b)" by auto
      have b: "task_id b = next_task_id k" "tstate b = TASK_STATE_READY" "priority b = prio"
        by (simp_all add: b_def)
      have "task_id (core k' t) = next_task_id k" "tstate (core k' t) = TASK_STATE_READY"
        by (simp_all add: k'(3) b)
      moreover have "queues k' p = (if p = unat prio then queues k p @ [t] else queues k p)"
        if "p < NUM_PRIORITY_LEVELS" for p
        using kernel_ok_queues [OF k'(2) that] by (simp add: enqueue_def b)
      ultimately show ?thesis
        unfolding if_not_P [OF arg] if_not_P [OF free]
        using k'(1) kernel_invI [OF k'(2)] free_slot(1) [OF Some]
        by (intro exI [of _ k'] exI [of _ t]) simp
    qed
  qed (simp add: task_create_def)
qed

theorem task_create_outcome_witness:
  "\<exists>k' t. task_create 4096 None 1 0 demo_kernel = Some (k', RTOS_OK, Some 4) \<and> queues k' 1 = [1, t]"
proof -
  have "\<not> (\<forall>t<MAX_TASKS. task_id (task_pool demo_kernel t) \<noteq> 0 \<and> tstate (task_pool demo_kernel t) \<noteq> TASK_STATE_DELETED)"
    by (auto simp: MAX_TASKS_def intro!: exI [of _ 5])
  moreover have "queues demo_kernel 1 = [1]" by (simp add: demo_queue demo_queues_def NUM_PRIORITY_LEVELS_def)
  moreover have "\<not> ((4096 :: addr) = NULL \<or> NUM_PRIORITY_LEVELS \<le> unat (1 :: u8))"
    by (simp add: NUM_PRIORITY_LEVELS_def)
  moreover have "if (4096 :: addr) = NULL \<or> NUM_PRIORITY_LEVELS \<le> unat (1 :: u8)
     then task_create 4096 None 1 0 demo_kernel = Some (demo_kernel, RTOS_ERROR_INVALID_PARAM, None)
     else if \<forall>t<MAX_TASKS. task_id (task_pool demo_kernel t) \<noteq> 0 \<and> tstate (task_pool demo_kernel t) \<noteq> TASK_STATE_DELETED
     then task_create 4096 None 1 0 demo_kernel = Some (demo_kernel, RTOS_ERROR_NO_MEMORY, None)
     else \<exists>k' t. task_create 4096 None 1 0 demo_kernel = Some (k', RTOS_OK, Some (next_task_id demo_kernel))
       \<and> kernel_inv k' \<and> t < MAX_TASKS \<and> task_id (task_pool k' t) = next_task_id demo_kernel
       \<and> tstate (task_pool k' t) = TASK_STATE_READY
       \<and> (\<forall>p<NUM_PRIORITY_LEVELS. queues k' p =
            (if p = unat (1 :: u8) then queues demo_kernel p @ [t] else queues demo_kernel p))"
    by (rule task_create_outcome [OF demo_inv]) simp
  ultimately obtain k' t where
    "task_create 4096 None 1 0 demo_kernel = Some (k', RTOS_OK, Some 4)" "queues k' 1 = [1, t]"
    by (simp only: if_False) (auto simp: NUM_PRIORITY_LEVELS_def)
  then show ?thesis by blast
qed

section \<open>The initial stack\<close>

lemma push_words:
  "length vs \<le> n \<Longrightarrow> n \<le> length st \<Longrightarrow>
   fold push_word vs (st, n) = (take (n - length vs) st @ rev vs @ drop n st, n - length vs)"
proof (induction vs arbitrary: st n)
  case (Cons v vs)
  let ?st = "st[n - 1 := v]"
  have "fold push_word (v # vs) (st, n) = fold push_word vs (?st, n - 1)" by (simp add: push_word_def)
  also have "\<dots> = (take (n - 1 - length vs) ?st @ rev vs @ drop (n - 1) ?st, n - 1 - length vs)"
    by (rule Cons.IH) (use Cons.prems in simp_all)
  also have "drop (n - 1) ?st = v # drop n st"
  proof -
    obtain m where m: "n = Suc m" "m < length st" using Cons.prems by (cases n) auto
    have "drop m (st[m := v]) = st[m := v] ! m # drop (Suc m) (st[m := v])"
      by (rule Cons_nth_drop_Suc [symmetric]) (simp add: m(2))
    with m show ?thesis by simp
  qed
  also have "take (n - 1 - length vs) ?st = take (n - length (v # vs)) st" by simp
  finally show ?case by simp
qed simp

lemma init_stack_frame:
  assumes "length (stack b) = TASK_STACK_SIZE"
  shows "stack_ptr (task_init_stack f params b) = Some 1007
    \<and> stack (task_init_stack f params b) = take 1007 (stack b)
      @ [0x04040404, 0x05050505, 0x06060606, 0x07070707, 0x08080808, 0x09090909, 0x10101010, 0x11111111]
      @ [of_nat params, 0x01010101, 0x02020202, 0x03030303, 0x12121212, 0xFFFFFFFD, of_nat f, 0x01000000]
      @ [stack b ! 1023]"
proof -
  have d: "drop 1023 (stack b) = [stack b ! 1023]"
    using Cons_nth_drop_Suc [of 1023 "stack b"] assms by (simp add: TASK_STACK_SIZE_def)
  have "fold push_word [0x01000000, of_nat f, 0xFFFFFFFD, 0x12121212, 0x03030303, 0x02020202,
      0x01010101, of_nat params, 0x11111111, 0x10101010, 0x09090909, 0x08080808, 0x07070707, 0x06060606,
      0x05050505, 0x04040404] (stack b, 1023)
    = (take 1007 (stack b)
      @ [0x04040404, 0x05050505, 0x06060606, 0x07070707, 0x08080808, 0x09090909, 0x10101010, 0x11111111,
         of_nat params, 0x01010101, 0x02020202, 0x03030303, 0x12121212, 0xFFFFFFFD, of_nat f, 0x01000000]
      @ drop 1023 (stack b), 1007)"
    by (subst push_words) (simp_all add: assms TASK_STACK_SIZE_def)
  then show ?thesis
    unfolding task_init_stack_def Let_def by (simp add: TASK_STACK_SIZE_def d split_beta)
qed

text \<open>The initial stack of a task, seen from its stack pointer (word 1007), is the frame an
  exception return expects: R4 to R11, then R0 with the parameter, R1 to R3, R12, the link
  register, the entry point and xPSR with the Thumb bit; nothing else of the stack is written.\<close>

lemma task_init_stack_frame:
  assumes "length (stack b) = TASK_STACK_SIZE"
  shows "stack_ptr (task_init_stack f params b) = Some 1007
    \<and> stack (task_init_stack f params b) = take 1007 (stack b)
      @ [0x04040404, 0x05050505, 0x06060606, 0x07070707, 0x08080808, 0x09090909, 0x10101010, 0x11111111]
      @ [of_nat params, 0x01010101, 0x02020202, 0x03030303, 0x12121212, 0xFFFFFFFD, of_nat f, 0x01000000]
      @ [stack b ! 1023]"
  by (rule init_stack_frame [OF assms])

text \<open>The stack check looks for a canary that nothing writes: the lowest words of every stack a
  task is created with are zero, and the check of the new task reports no overflow; it reports one
  only when one of the four lowest words is neither the canary nor zero, so an overflow that
  leaves zeros there goes unnoticed.\<close>

lemma stack_check_without_canary:
  assumes "kernel_inv k" and "unat (next_task_id k) + 1 < 2 ^ 32"
    and "task_create f nm prio params k = Some (k', RTOS_OK, Some tid)"
  shows "\<not> memory_check_stack_overflow k' tid
    \<and> (\<exists>t. task_get_tcb k' tid = Some t \<and> take 1007 (stack (task_pool k' t)) = replicate 1007 0)"
proof -
  note ok = assms(1) [unfolded kernel_inv_def]
  have arg: "f \<noteq> NULL" "unat prio < NUM_PRIORITY_LEVELS" using assms(3) by (auto simp: task_create_def split: if_splits)
  then obtain t where t: "find_free_slot k = Some t"
    using assms(3) by (cases "find_free_slot k") (auto simp: task_create_def split: if_splits)
  define b where "b = new_tcb f nm prio params (next_task_id k)"
  from create_ok [OF ok assms(2) arg t, of nm params, folded b_def] assms(3) have
    tid: "tid = next_task_id k" and k': "kernel_ok k' (enqueue ((core k)(t := b)) t (queues k))" "core k' = (core k)(t := b)"
    by auto
  have b: "task_id b = tid" "tstate b = TASK_STATE_READY" by (simp_all add: b_def tid)
  have "tid \<noteq> 0" using tasks_okD(2) [OF kernel_okD(2) [OF ok] free_slot(1) [OF t]] by (auto simp: slot_ok_def tid)
  moreover have "task_id (core k' t) = tid" "tstate (core k' t) = TASK_STATE_READY" by (simp_all add: k'(2) b)
  ultimately have get: "task_get_tcb k' tid = Some t"
    using get_tcb_iff [OF kernel_okD(2) [OF k'(1)]] free_slot(1) [OF t] by simp
  have "stack (core k' t) = stack b" by (simp add: k'(2))
  moreover have "take 1007 (stack b) = replicate 1007 0"
    using init_stack_frame [of "zero_tcb\<lparr>task_id := next_task_id k, priority := prio, tstate := TASK_STATE_READY,
      tname := (strncpy (replicate 16 0) (case nm of Some s \<Rightarrow> s | None \<Rightarrow> unnamed) 15)[15 := 0]\<rparr>" f params]
    by (simp add: b_def new_tcb_def Let_def zero_tcb_def TASK_STACK_SIZE_def)
  ultimately have low: "take 1007 (stack (task_pool k' t)) = replicate 1007 0" by (simp add: core_def)
  then have "stack (task_pool k' t) ! i = 0" if "i < 1007" for i
    using that by (metis nth_replicate nth_take)
  then have "\<not> memory_check_stack_overflow k' tid"
    by (simp add: memory_check_stack_overflow_def get Let_def list_ex_iff)
  with get low show ?thesis by blast
qed

section \<open>Time\<close>

text \<open>The tick advances the clock; it yields exactly when the scheduler runs and some ready task
  is strictly more urgent than the current one, and otherwise leaves every task and queue alone.\<close>

lemma scheduler_tick_preempts:
  assumes "kernel_inv k"
  defines "k1 \<equiv> k\<lparr>system_tick_count := system_tick_count k + 1\<rparr>"
  shows "scheduler_tick k =
    (if scheduler_running k \<and> (\<exists>c t. current_tcb k = Some c \<and> t < MAX_TASKS \<and> task_id (task_pool k t) \<noteq> 0
          \<and> tstate (task_pool k t) = TASK_STATE_READY \<and> priority (task_pool k t) < priority (task_pool k c))
     then scheduler_yield k1 else Some k1)"
proof -
  note ok = assms(1) [unfolded kernel_inv_def]
  note d = kernel_okD [OF ok]
  have "(\<exists>h. front (queues k) = Some h \<and> priority (task_pool k h) < priority (task_pool k c)) \<longleftrightarrow>
      (\<exists>t. t < MAX_TASKS \<and> task_id (task_pool k t) \<noteq> 0 \<and> tstate (task_pool k t) = TASK_STATE_READY
        \<and> priority (task_pool k t) < priority (task_pool k c))" (is "?front \<longleftrightarrow> ?ready") for c
  proof
    assume ?front
    then obtain h where h: "front (queues k) = Some h" "priority (task_pool k h) < priority (task_pool k c)" by blast
    then obtain p where "p < NUM_PRIORITY_LEVELS" "h \<in> set (queues k p)" by (auto simp: front_Some)
    with in_queue [OF d(2)] h(2) show ?ready by (auto simp: ready_set_def)
  next
    assume ?ready
    then obtain t where t: "t < MAX_TASKS" "t \<in> ready_set (core k) (unat (priority (task_pool k t)))"
      "priority (task_pool k t) < priority (task_pool k c)" by (auto simp: ready_set_def)
    have p: "unat (priority (task_pool k t)) < NUM_PRIORITY_LEVELS"
      using tasks_okD(2) [OF d(2) t(1)] by (simp add: slot_ok_def)
    have ne: "queues k (unat (priority (task_pool k t))) \<noteq> []" using in_queue [OF d(2) p] t(2) by force
    then obtain h where h: "front (queues k) = Some h" using p front_None [of "queues k"] by (cases "front (queues k)") auto
    then obtain r where r: "r < NUM_PRIORITY_LEVELS" "h \<in> set (queues k r)" "\<forall>j<r. queues k j = []"
      by (auto simp: front_Some)
    have "unat (priority (task_pool k h)) = r" using in_queue [OF d(2) r(1)] r(2) by (simp add: ready_set_def)
    moreover have "r \<le> unat (priority (task_pool k t))" using r(3) ne by (meson not_le)
    ultimately have "priority (task_pool k h) \<le> priority (task_pool k t)" by (simp add: word_le_nat_alt)
    with h t(3) show ?front by (auto intro: le_less_trans)
  qed
  then show ?thesis using tick_ok(1) [OF ok] unfolding k1_def by (auto split: if_splits)
qed

end
