(* ===== verification/Delay_Props.thy ===== *)
theory Delay_Props imports Task_Props begin

text \<open>
  What happens to tasks that wait: a delayed task is put back into a ready list only by suspending
  and resuming it, a waiting current task is not replaced by the tick, and the identifier 0 of unused slots corrupts the
  ready lists.
\<close>

section \<open>Delayed tasks\<close>

text \<open>A scheduling decision leaves every task alone that is neither ready nor running.\<close>

lemma schedule_parked:
  assumes ok: "tasks_ok c qs cur nid" and res: "spec_schedule (c, qs, cur) = (c', qs', cur')"
    and t: "tstate (c t) = st" "st \<noteq> TASK_STATE_READY"
  shows "tstate (c' t) = st"
proof (cases "front qs = None \<or> front qs = cur")
  case True
  with res t show ?thesis by (auto simp: spec_schedule_def split: option.splits if_splits)
next
  case False
  then obtain n where n: "front qs = Some n" "Some n \<noteq> cur" by auto
  then obtain p where "p < NUM_PRIORITY_LEVELS" "n \<in> set (qs p)" by (auto simp: front_Some)
  then have "tstate (c n) = TASK_STATE_READY" using in_queue [OF ok] by (simp add: ready_set_def)
  with n res t show ?thesis by (auto simp: spec_schedule_def)
qed

lemma spec_yield_parked:
  assumes ok: "tasks_ok c qs cur nid" and res: "spec_yield (c, qs, cur) = (c', qs', cur')"
    and t: "tstate (c t) = st" "st \<noteq> TASK_STATE_READY" "st \<noteq> TASK_STATE_RUNNING"
  shows "tstate (c' t) = st"
proof (cases "\<exists>x. cur = Some x \<and> tstate (c x) = TASK_STATE_RUNNING")
  case True
  then obtain x where x: "cur = Some x" "tstate (c x) = TASK_STATE_RUNNING" by blast
  from ok_enqueue [OF ok] tasks_okD(4) [OF ok x(1)] x(2)
  have ok': "tasks_ok (set_state TASK_STATE_READY x c) (enqueue c x qs) cur nid" by simp
  have "t \<noteq> x" using t x(2) by auto
  then have "tstate (set_state TASK_STATE_READY x c t) = st" using t by simp
  with schedule_parked [OF ok' _ this t(2)] res x show ?thesis by (simp add: spec_yield_def)
next
  case False
  then have "spec_schedule (c, qs, cur) = (c', qs', cur')"
    using res by (auto simp: spec_yield_def split: option.splits if_splits)
  from schedule_parked [OF ok this t(1,2)] show ?thesis .
qed

lemma spec_yield_id: "spec_yield (c, qs, cur) = (c', qs', cur') \<Longrightarrow> task_id (c' t) = task_id (c t)"
  by (auto simp: spec_yield_def spec_schedule_def split: option.splits if_splits)

text \<open>\<open>parked st t i k\<close>: slot \<open>t\<close> holds task \<open>i\<close> in a state \<open>st\<close> other than ready and running.\<close>

definition parked :: "task_state \<Rightarrow> nat \<Rightarrow> u32 \<Rightarrow> kernel \<Rightarrow> bool" where
  "parked st t i k \<longleftrightarrow> t < MAX_TASKS \<and> i \<noteq> 0 \<and> task_id (task_pool k t) = i \<and> tstate (task_pool k t) = st
     \<and> st \<noteq> TASK_STATE_READY \<and> st \<noteq> TASK_STATE_RUNNING"

lemma parked_core: "parked st t i k \<Longrightarrow> task_id (core k' t) = i \<Longrightarrow> tstate (core k' t) = st \<Longrightarrow> parked st t i k'"
  by (simp add: parked_def)

lemma yield_parked:
  assumes "kernel_ok k qs" and "scheduler_yield k = Some k'" and "parked st t i k"
  shows "parked st t i k'"
proof (cases "scheduler_running k")
  case True
  with yield_ok [OF assms(1)] assms(2) obtain qs' where
    "(core k', qs', current_tcb k') = spec_yield (core k, qs, current_tcb k)" by auto
  note v = this [symmetric]
  show ?thesis
    by (rule parked_core [OF assms(3)])
      (use spec_yield_parked [OF kernel_okD(2) [OF assms(1)] v, of t st] spec_yield_id [OF v, of t] assms(3)
        in \<open>simp_all add: parked_def\<close>)
next
  case False
  with assms(2,3) show ?thesis by (simp add: scheduler_yield_def)
qed

lemma yield_after_parked:
  "kernel_ok k qs \<Longrightarrow> (if b then task_yield k else Some k) = Some k' \<Longrightarrow> parked st t i k \<Longrightarrow> parked st t i k'"
  using yield_parked by (cases b) (auto simp: task_yield_def)

text \<open>Everything that may happen while task \<open>i\<close> sleeps, except that it is itself suspended or deleted:
  ticks, yields, delays of the current task, creations, resumptions of any task, suspensions and
  deletions of others, starting the scheduler, and the work of tasks on their stacks. As in a run of the
  kernel (\<open>kernel_step\<close>), the counter of identifiers does not wrap, nobody uses the identifier 0, and the
  scheduler is not started over a running task.\<close>

inductive passing :: "u32 \<Rightarrow> kernel \<Rightarrow> kernel \<Rightarrow> bool" for i where
  tick: "scheduler_tick k = Some k' \<Longrightarrow> passing i k k'"
| yield: "task_yield k = Some k' \<Longrightarrow> passing i k k'"
| delay: "task_delay n k = Some k' \<Longrightarrow> passing i k k'"
| create: "unat (next_task_id k) + 1 < 2 ^ 32 \<Longrightarrow> task_create f nm prio params k = Some (k', r, j) \<Longrightarrow> passing i k k'"
| resume: "tid \<noteq> 0 \<Longrightarrow> task_resume tid k = Some (k', r) \<Longrightarrow> passing i k k'"
| suspend: "tid \<noteq> 0 \<Longrightarrow> tid \<noteq> i \<Longrightarrow> task_suspend tid k = Some (k', r) \<Longrightarrow> passing i k k'"
| delete: "tid \<noteq> 0 \<Longrightarrow> tid \<noteq> i \<Longrightarrow> task_delete tid k = Some (k', r) \<Longrightarrow> passing i k k'"
| start: "(\<And>c. current_tcb k = Some c \<Longrightarrow> tstate (task_pool k c) \<noteq> TASK_STATE_RUNNING) \<Longrightarrow>
    scheduler_start k = Some k' \<Longrightarrow> passing i k k'"
| work: "passing i k (upd_tcb u (\<lambda>b. b\<lparr>stack := st, stack_ptr := sp\<rparr>) k)"

lemma passing_ok:
  assumes "passing i k k'" and inv: "kernel_inv k"
  shows "kernel_inv k'"
  using assms(1)
proof cases
  case start
  from start_ok [OF inv [unfolded kernel_inv_def] start(1)] start(2) kernel_invI show ?thesis by auto
qed (use kernel_runs.step_inv [OF _ inv] in \<open>blast intro: kernel_step.intros\<close>)+

lemma delay_parked:
  assumes ok: "kernel_ok k qs" and r: "task_delay n k = Some k'" and t: "parked TASK_STATE_BLOCKED t i k"
  shows "parked TASK_STATE_BLOCKED t i k'"
proof (cases "\<exists>c. current_task k = Some c \<and> 0 < n")
  case False
  with r t show ?thesis by (auto simp: task_delay_def split: option.splits if_splits)
next
  case True
  then obtain c where c: "current_task k = Some c" "0 < n" by blast
  define f where "f = (\<lambda>b :: tcb. b\<lparr>wake_time := scheduler_get_tick_count k + n, tstate := TASK_STATE_BLOCKED\<rparr>)"
  have "c < MAX_TASKS" "task_id (core k c) \<noteq> 0"
    using tasks_okD(4) [OF kernel_okD(2) [OF ok], of c] kernel_okD(3) [OF ok] c by auto
  from stop_task [OF ok this, of f TASK_STATE_BLOCKED] obtain k1 where
    k1: "scheduler_remove_task (upd_tcb c f k) (Some c) = Some k1"
      "kernel_ok k1 (dequeue (core k) c qs)" "core k1 = core (upd_tcb c f k)" by (auto simp: f_def)
  have "parked TASK_STATE_BLOCKED t i k1"
    by (rule parked_core [OF t]) (use t in \<open>auto simp: k1(3) f_def parked_def\<close>)
  moreover have "scheduler_yield k1 = Some k'"
    using r c k1(1) by (simp add: task_delay_def task_yield_def f_def)
  ultimately show ?thesis using yield_parked [OF k1(2)] by blast
qed

lemma create_parked:
  assumes ok: "kernel_ok k qs" and nid: "unat (next_task_id k) + 1 < 2 ^ 32"
    and r: "task_create f nm prio params k = Some (k', st, j)" and t: "parked TASK_STATE_BLOCKED t i k"
  shows "parked TASK_STATE_BLOCKED t i k'"
proof (cases "f = NULL \<or> NUM_PRIORITY_LEVELS \<le> unat prio \<or> find_free_slot k = None")
  case True
  with r t show ?thesis by (auto simp: task_create_def split: option.splits if_splits)
next
  case False
  then obtain u where u: "find_free_slot k = Some u" by auto
  from create_ok [OF ok nid _ _ u, of f prio nm params] False r have
    core': "core k' = (core k)(u := new_tcb f nm prio params (next_task_id k))" by auto
  have "t \<noteq> u" using free_slot(2) [OF u] t by (auto simp: parked_def)
  then show ?thesis
    by (intro parked_core [OF t]) (use t in \<open>simp_all add: core' parked_def\<close>)
qed

lemma resume_parked:
  assumes ok: "kernel_ok k qs" and tid: "tid \<noteq> 0" and r: "task_resume tid k = Some (k', st)"
    and t: "parked TASK_STATE_BLOCKED t i k"
  shows "parked TASK_STATE_BLOCKED t i k'"
proof (cases "\<exists>u. task_get_tcb k tid = Some u \<and> tstate (task_pool k u) = TASK_STATE_SUSPENDED")
  case False
  with r t show ?thesis by (auto simp: task_resume_def split: option.splits)
next
  case True
  then obtain u where u: "task_get_tcb k tid = Some u" "tstate (task_pool k u) = TASK_STATE_SUSPENDED" by blast
  from start_task [OF ok get_tcb_Some(1) [OF u(1)]] get_tcb_Some(2) [OF u(1)] tid u r have
    core': "core k' = set_state TASK_STATE_READY u (core k)" by (auto simp: task_resume_def)
  have "t \<noteq> u" using u(2) t by (auto simp: parked_def)
  then show ?thesis
    by (intro parked_core [OF t]) (use t in \<open>simp_all add: core' parked_def\<close>)
qed

lemma suspend_parked:
  assumes ok: "kernel_ok k qs" and tid: "tid \<noteq> 0" and r: "task_suspend tid k = Some (k', st')" and t: "parked st t i k"
  shows "parked (if tid = i \<and> st \<noteq> TASK_STATE_DELETED then TASK_STATE_SUSPENDED else st) t i k'"
proof (cases "task_get_tcb k tid")
  case None
  with get_tcb_None t have "tid \<noteq> i \<or> st = TASK_STATE_DELETED" by (auto simp: parked_def)
  with None r t show ?thesis by (auto simp: task_suspend_def)
next
  case (Some u)
  note u = get_tcb_Some [OF Some]
  let ?st = "if tid = i \<and> st \<noteq> TASK_STATE_DELETED then TASK_STATE_SUSPENDED else st"
  have uid: "task_id (core k u) \<noteq> 0" using u(2) tid by simp
  from stop_task [OF ok u(1) uid, of "\<lambda>b. b\<lparr>tstate := TASK_STATE_SUSPENDED\<rparr>" TASK_STATE_SUSPENDED] obtain k1 where
    k1: "scheduler_remove_task (upd_tcb u (\<lambda>b. b\<lparr>tstate := TASK_STATE_SUSPENDED\<rparr>) k) (Some u) = Some k1"
      "kernel_ok k1 (dequeue (core k) u qs)" "core k1 = core (upd_tcb u (\<lambda>b. b\<lparr>tstate := TASK_STATE_SUSPENDED\<rparr>) k)" by auto
  have "u = t" if "tid = i" "st \<noteq> TASK_STATE_DELETED"
    using that t get_tcb_iff [OF kernel_okD(2) [OF ok] tid, of t] Some by (simp add: parked_def)
  moreover have "u \<noteq> t" if "tid \<noteq> i \<or> st = TASK_STATE_DELETED" using that t u by (auto simp: parked_def)
  ultimately have "parked ?st t i k1"
    using t arg_cong [OF k1(3), of "\<lambda>c. task_id (c t)"] arg_cong [OF k1(3), of "\<lambda>c. tstate (c t)"]
    by (cases "u = t") (auto simp: parked_def)
  moreover have "(if Some u = current_task k1 then task_yield k1 else Some k1) = Some k'"
    using r Some u(3) k1(1) by (auto simp: task_suspend_def split: if_splits Option.bind_splits)
  ultimately show ?thesis using yield_after_parked [OF k1(2)] by blast
qed

lemma delete_parked:
  assumes ok: "kernel_ok k qs" and tid: "tid \<noteq> 0" "tid \<noteq> i" and r: "task_delete tid k = Some (k', st')" and t: "parked st t i k"
  shows "parked st t i k'"
proof (cases "task_get_tcb k tid")
  case None
  with r t show ?thesis by (auto simp: task_delete_def)
next
  case (Some u)
  note u = get_tcb_Some [OF Some]
  have uid: "task_id (core k u) \<noteq> 0" using u(2) tid(1) by simp
  from mark_deleted [OF ok u(1) uid] obtain k1 where k1: "scheduler_remove_task k (Some u) = Some k1"
    and k2: "kernel_ok (upd_tcb u (\<lambda>b. b\<lparr>tstate := TASK_STATE_DELETED\<rparr>) k1) (dequeue (core k) u qs)"
      "core (upd_tcb u (\<lambda>b. b\<lparr>tstate := TASK_STATE_DELETED\<rparr>) k1) = set_state TASK_STATE_DELETED u (core k)" by blast
  have "t \<noteq> u" using t u(2) tid(2) by (auto simp: parked_def)
  then have "parked st t i (upd_tcb u (\<lambda>b. b\<lparr>tstate := TASK_STATE_DELETED\<rparr>) k1)"
    by (intro parked_core [OF t]) (use t in \<open>simp_all only: k2(2) set_state_simps, simp_all add: parked_def\<close>)
  moreover have "(if Some u = current_task k1 then task_yield (upd_tcb u (\<lambda>b. b\<lparr>tstate := TASK_STATE_DELETED\<rparr>) k1)
      else Some (upd_tcb u (\<lambda>b. b\<lparr>tstate := TASK_STATE_DELETED\<rparr>) k1)) = Some k'"
    using r Some k1(1) by (auto simp: task_delete_def Let_def split: if_splits Option.bind_splits)
  ultimately show ?thesis using yield_after_parked [OF k2(1)] by blast
qed

lemma passing_parked:
  assumes "passing i k k'" and ok: "kernel_ok k qs" and t: "parked TASK_STATE_BLOCKED t i k"
  shows "parked TASK_STATE_BLOCKED t i k'"
  using assms(1)
proof cases
  case tick
  define k1 where "k1 = k\<lparr>system_tick_count := system_tick_count k + 1\<rparr>"
  have "parked TASK_STATE_BLOCKED t i k1" using t by (simp add: parked_def k1_def)
  moreover have "kernel_ok k1 qs" using tick_ok(2) [OF ok] by (simp add: k1_def)
  moreover have "scheduler_yield k1 = Some k' \<or> k1 = k'"
    using tick tick_ok(1) [OF ok] by (simp add: k1_def split: if_splits)
  ultimately show ?thesis using yield_parked by blast
next
  case yield
  with yield_parked [OF ok _ t] show ?thesis by (simp add: task_yield_def)
next
  case (delay n)
  with delay_parked [OF ok _ t] show ?thesis by simp
next
  case (create f nm prio params r j)
  with create_parked [OF ok create(1) _ t] show ?thesis by simp
next
  case (resume tid r)
  with resume_parked [OF ok resume(1) _ t] show ?thesis by simp
next
  case (suspend tid r)
  from suspend_parked [OF ok suspend(1,3) t] suspend(2) show ?thesis by simp
next
  case (delete tid r)
  from delete_parked [OF ok delete t] show ?thesis .
next
  case start
  have "parked TASK_STATE_BLOCKED t i (k\<lparr>scheduler_running := True\<rparr>)" using t by (simp add: parked_def)
  with start_yields [OF ok start(1)] start(2) yield_parked show ?thesis by metis
next
  case (work u st sp)
  then show ?thesis using t by (cases "t = u") (auto simp: parked_def)
qed

lemma passing_run_parked:
  "(passing i)\<^sup>*\<^sup>* k k' \<Longrightarrow> kernel_inv k \<Longrightarrow> parked TASK_STATE_BLOCKED t i k \<Longrightarrow>
   kernel_inv k' \<and> parked TASK_STATE_BLOCKED t i k'"
proof (induction rule: rtranclp_induct)
  case (step k1 k2)
  then have "kernel_inv k1" "parked TASK_STATE_BLOCKED t i k1" by auto
  with step(2) passing_parked [of i k1 k2 "queues k1"] passing_ok show ?case
    by (auto simp: kernel_inv_def)
qed simp

text \<open>What does make it ready: a suspension and a resumption.\<close>

lemma suspend_resume_wakes:
  assumes inv: "kernel_inv k" and t: "parked TASK_STATE_BLOCKED t i k"
  shows "\<exists>k1 k2. task_suspend i k = Some (k1, RTOS_OK) \<and> task_resume i k1 = Some (k2, RTOS_OK)
    \<and> tstate (task_pool k2 t) = TASK_STATE_READY"
proof -
  note ok = inv [unfolded kernel_inv_def]
  have i: "i \<noteq> 0" using t by (simp add: parked_def)
  have get: "task_get_tcb k i = Some t" using t get_tcb_iff [OF kernel_okD(2) [OF ok] i, of t] by (simp add: parked_def)
  from suspend_ok [OF ok i] obtain k1 qs1 r where k1: "task_suspend i k = Some (k1, r)" "kernel_ok k1 qs1" by blast
  have "r = RTOS_OK" using k1(1) get get_tcb_Some(3) [OF get]
    by (auto simp: task_suspend_def split: if_splits Option.bind_splits)
  have "parked TASK_STATE_SUSPENDED t i k1" using suspend_parked [OF ok i k1(1) t] by simp
  then have p1: "t < MAX_TASKS" "task_id (core k1 t) = i" "tstate (task_pool k1 t) = TASK_STATE_SUSPENDED"
    by (simp_all add: parked_def)
  have get1: "task_get_tcb k1 i = Some t" using p1 get_tcb_iff [OF kernel_okD(2) [OF k1(2)] i, of t] by simp
  from start_task [OF k1(2) p1(1)] p1(2,3) i obtain k2 where
    k2: "scheduler_add_task (upd_tcb t (\<lambda>b. b\<lparr>tstate := TASK_STATE_READY\<rparr>) k1) (Some t) = Some k2"
      "core k2 = set_state TASK_STATE_READY t (core k1)" by auto
  have "tstate (task_pool k2 t) = TASK_STATE_READY" using arg_cong [OF k2(2), of "\<lambda>c. tstate (c t)"] by simp
  moreover have "task_resume i k1 = Some (k2, RTOS_OK)" using get1 p1(3) k2(1) by (simp add: task_resume_def)
  ultimately show ?thesis using k1(1) \<open>r = RTOS_OK\<close> by blast
qed

text \<open>C38: time never wakes a delayed task. A call of \<open>task_delay\<close> with a positive number of ticks
  blocks the current task, and whatever follows, unless it is this task that is suspended or deleted by
  its identifier (ticks, yields, delays, creations, resumptions, starting the scheduler while no task runs,
  suspensions and deletions of other tasks, all as \<open>passing\<close> lists them), it stays blocked: it is in no
  ready list and \<open>delayed_list\<close> stays empty. Suspending it and then resuming it makes it ready.\<close>

theorem delayed_task_never_wakes:
  assumes "kernel_inv k" and "current_task k = Some t" and "0 < n"
    and "task_delay n k = Some k1" and "(passing (task_id (task_pool k t)))\<^sup>*\<^sup>* k1 k2"
  shows "tstate (task_pool k2 t) = TASK_STATE_BLOCKED \<and> delayed_list k2 = None
    \<and> (\<forall>p<NUM_PRIORITY_LEVELS. t \<notin> set (queues k2 p))
    \<and> (\<exists>k3 k4. task_suspend (task_id (task_pool k t)) k2 = Some (k3, RTOS_OK)
          \<and> task_resume (task_id (task_pool k t)) k3 = Some (k4, RTOS_OK)
          \<and> tstate (task_pool k4 t) = TASK_STATE_READY)"
proof -
  let ?i = "task_id (task_pool k t)"
  note ok = assms(1) [unfolded kernel_inv_def]
  define f where "f = (\<lambda>b :: tcb. b\<lparr>wake_time := scheduler_get_tick_count k + n, tstate := TASK_STATE_BLOCKED\<rparr>)"
  have t: "t < MAX_TASKS" "task_id (core k t) \<noteq> 0"
    using tasks_okD(4) [OF kernel_okD(2) [OF ok], of t] kernel_okD(3) [OF ok] assms(2) by auto
  from stop_task [OF ok t, of f TASK_STATE_BLOCKED] obtain k0 where
    k0: "scheduler_remove_task (upd_tcb t f k) (Some t) = Some k0"
      "kernel_ok k0 (dequeue (core k) t (queues k))" "core k0 = core (upd_tcb t f k)" by (auto simp: f_def)
  have "task_id (core k0 t) = ?i" "tstate (core k0 t) = TASK_STATE_BLOCKED"
    by (simp_all add: k0(3) f_def)
  then have "parked TASK_STATE_BLOCKED t ?i k0" using t by (simp add: parked_def)
  moreover have "scheduler_yield k0 = Some k1"
    using assms(2-4) k0(1) by (simp add: task_delay_def task_yield_def f_def)
  ultimately have "parked TASK_STATE_BLOCKED t ?i k1" using yield_parked [OF k0(2)] by blast
  moreover have "kernel_inv k1" using delay_ok [OF ok, of n] assms(4) kernel_invI by auto
  ultimately have k2: "kernel_inv k2" "parked TASK_STATE_BLOCKED t ?i k2" using passing_run_parked assms(5) by blast+
  from k2(1) have d: "kernel_ok k2 (queues k2)" by (simp add: kernel_inv_def)
  have "tstate (task_pool k2 t) = TASK_STATE_BLOCKED" using k2(2) by (simp add: parked_def)
  with suspend_resume_wakes [OF k2] in_queue [OF kernel_okD(2) [OF d]] kernel_okD(4) [OF d] show ?thesis
    by (auto simp: ready_set_def)
qed

theorem delayed_task_never_wakes_witness:
  "\<exists>k1 k2 k3 r. task_delay 1 demo_kernel = Some k1 \<and> scheduler_tick k1 = Some k2 \<and> task_suspend 2 k2 = Some (k3, r)
     \<and> tstate (task_pool k3 0) = TASK_STATE_BLOCKED"
proof -
  from delay_ok [OF demo_ok, of 1] obtain k1 qs1 where k1: "task_delay 1 demo_kernel = Some k1" "kernel_ok k1 qs1" by blast
  from tick_keeps [OF k1(2)] obtain k2 qs2 where k2: "scheduler_tick k1 = Some k2" "kernel_ok k2 qs2" by blast
  from suspend_ok [OF k2(2), of 2] obtain k3 r where k3: "task_suspend 2 k2 = Some (k3, r)" by auto
  have "passing 1 k1 k2" "passing 1 k2 k3" using passing.tick [OF k2(1)] passing.suspend [OF _ _ k3] by auto
  then have "(passing (task_id (task_pool demo_kernel 0)))\<^sup>*\<^sup>* k1 k3" by simp
  from delayed_task_never_wakes [OF demo_inv _ _ k1(1) this] k1(1) k2(1) k3 show ?thesis by simp
qed

section \<open>The tick and a waiting current task\<close>

fun ticks :: "nat \<Rightarrow> kernel \<Rightarrow> kernel option" where
  "ticks 0 k = Some k"
| "ticks (Suc n) k = do { k1 \<leftarrow> scheduler_tick k; ticks n k1 }"

text \<open>The tick alone never hands the processor on while no ready task is strictly more urgent
  than the current one: tasks of equal priority are not time-sliced, and when the current task is
  itself blocked or suspended, ready tasks of its priority or below wait forever.\<close>

lemma tick_never_rotates:
  assumes "kernel_inv k" and "current_tcb k = Some c"
    and "\<forall>t<MAX_TASKS. task_id (task_pool k t) \<noteq> 0 \<longrightarrow> tstate (task_pool k t) = TASK_STATE_READY \<longrightarrow>
      priority (task_pool k c) \<le> priority (task_pool k t)"
  shows "ticks n k = Some (k\<lparr>system_tick_count := system_tick_count k + of_nat n\<rparr>)"
  using assms
proof (induction n arbitrary: k)
  case (Suc n)
  define k1 where "k1 = k\<lparr>system_tick_count := system_tick_count k + 1\<rparr>"
  note ok = Suc.prems(1) [unfolded kernel_inv_def]
  have inv1: "kernel_inv k1" using tick_ok(2) [OF ok] kernel_invI by (simp add: k1_def)
  have "\<not> priority (task_pool k h) < priority (task_pool k c)" if h: "front (queues k) = Some h" for h
  proof -
    from h obtain p where "p < NUM_PRIORITY_LEVELS" "h \<in> set (queues k p)" by (auto simp: front_Some)
    then have "h \<in> ready_set (core k) p" using in_queue [OF kernel_okD(2) [OF ok]] by blast
    with Suc.prems(3) show ?thesis by (simp add: ready_set_def not_less)
  qed
  then have "scheduler_tick k = Some k1" using tick_ok(1) [OF ok] Suc.prems(2) by (auto simp: k1_def)
  moreover have "ticks n k1 = Some (k1\<lparr>system_tick_count := system_tick_count k1 + of_nat n\<rparr>)"
    by (rule Suc.IH [OF inv1]) (use Suc.prems(2,3) in \<open>simp_all add: k1_def\<close>)
  ultimately show ?case by (simp add: k1_def ac_simps)
qed simp

section \<open>The identifier of unused slots\<close>

lemma find_tail_loop: "tnext (pool t) = Some t \<Longrightarrow> find_tail pool t = None"
proof (rule ccontr)
  assume l: "tnext (pool t) = Some t" and "find_tail pool t \<noteq> None"
  then obtain y where "find_tail pool t = Some y" by auto
  then have "\<not> tnext (pool t) = Some t"
    by (rule find_tail.raw_induct [rotated]) (auto split: option.splits)
  with l show False by simp
qed

lemma find_upt_0: "P 0 \<Longrightarrow> 0 < n \<Longrightarrow> find P [0..<n] = Some 0"
  by (simp add: find_upt_Some)

lemma suspend_zero:
  assumes "task_id (task_pool k 0) = 0" and "tstate (task_pool k 0) \<noteq> TASK_STATE_DELETED"
    and "priority (task_pool k 0) = 0" and "ready_lists k 0 = None" and "current_task k = None"
  shows "task_suspend 0 k = Some (upd_tcb 0 (\<lambda>b. b\<lparr>tstate := TASK_STATE_SUSPENDED\<rparr>) k, RTOS_OK)"
proof -
  have "task_get_tcb k 0 = Some 0" using assms(1,2) by (simp add: task_get_tcb_def find_upt_0 MAX_TASKS_def)
  with assms show ?thesis
    by (simp add: task_suspend_def scheduler_remove_task_def NUM_PRIORITY_LEVELS_def remove_loop.simps)
qed

lemma resume_zero:
  assumes "task_id (task_pool k 0) = 0" and "tstate (task_pool k 0) = TASK_STATE_SUSPENDED"
    and "priority (task_pool k 0) = 0" and "ready_lists k 0 = None"
  shows "task_resume 0 k = Some ((upd_tcb 0 (\<lambda>b. b\<lparr>tstate := TASK_STATE_READY, tnext := None\<rparr>) k)
    \<lparr>ready_lists := (ready_lists k)(0 := Some 0)\<rparr>, RTOS_OK)"
proof -
  have "task_get_tcb k 0 = Some 0" using assms(1,2) by (simp add: task_get_tcb_def find_upt_0 MAX_TASKS_def)
  with assms show ?thesis
    by (simp add: task_resume_def scheduler_add_task_def NUM_PRIORITY_LEVELS_def upd_tcb_def)
qed

lemma create_over_queued:
  assumes "task_id (task_pool k 0) = 0" and "ready_lists k 0 = Some 0"
  obtains k' where "task_create 4096 nm 0 params k = Some (k', RTOS_OK, Some (next_task_id k))"
    "ready_lists k' 0 = Some 0" "tnext (task_pool k' 0) = Some 0" "task_pool k' 1 = task_pool k 1"
    "task_id (task_pool k' 0) = next_task_id k" "tstate (task_pool k' 0) = TASK_STATE_READY"
proof -
  have "find_free_slot k = Some 0" using assms(1) by (simp add: find_free_slot_def find_upt_0 MAX_TASKS_def)
  then show thesis
    using assms(2) by (simp add: create_unfold NUM_PRIORITY_LEVELS_def scheduler_add_task_def find_tail.simps that)
qed

lemma create_behind_loop:
  assumes "ready_lists k 0 = Some 0" and "tnext (task_pool k 0) = Some 0" and "find_free_slot k = Some t" "t \<noteq> 0"
  shows "task_create 4096 nm 0 params k = None"
  using assms by (simp add: create_unfold NUM_PRIORITY_LEVELS_def scheduler_add_task_def find_tail_loop)

text \<open>C39: unused slots have the identifier 0, so 0 names one of them. Suspending and resuming "task
  0" after boot succeeds and puts the unused slot into the ready list of priority 0; the next
  creation takes that slot and makes it its own successor, and a creation at priority 0 that takes
  another slot after that never returns.\<close>

theorem task_zero_corrupts_ready_list:
  "\<exists>k1 k2 k3. task_suspend 0 (kernel_boot k) = Some (k1, RTOS_OK) \<and> task_resume 0 k1 = Some (k2, RTOS_OK)
    \<and> task_create 4096 nm 0 params k2 = Some (k3, RTOS_OK, Some 1)
    \<and> ready_lists k3 0 = Some 0 \<and> tnext (task_pool k3 0) = Some 0
    \<and> task_create 4096 nm' 0 params' k3 = None"
proof -
  let ?b = "kernel_boot k"
  define k1 where "k1 = upd_tcb 0 (\<lambda>b. b\<lparr>tstate := TASK_STATE_SUSPENDED\<rparr>) ?b"
  define k2 where "k2 = (upd_tcb 0 (\<lambda>b. b\<lparr>tstate := TASK_STATE_READY, tnext := None\<rparr>) k1)
    \<lparr>ready_lists := (ready_lists k1)(0 := Some 0)\<rparr>"
  have b: "task_pool ?b = (\<lambda>_. zero_tcb)" "ready_lists ?b = (\<lambda>_. None)" "current_task ?b = None" "next_task_id ?b = 1"
    by (simp_all add: kernel_boot_def scheduler_init_def task_init_def)
  have "task_suspend 0 ?b = Some (k1, RTOS_OK)"
    unfolding k1_def by (rule suspend_zero) (simp_all add: b zero_tcb_def)
  moreover have "task_resume 0 k1 = Some (k2, RTOS_OK)"
    unfolding k2_def by (rule resume_zero) (simp_all add: k1_def b zero_tcb_def)
  moreover obtain k3 where k3: "task_create 4096 nm 0 params k2 = Some (k3, RTOS_OK, Some 1)"
    "ready_lists k3 0 = Some 0" "tnext (task_pool k3 0) = Some 0" "task_id (task_pool k3 1) = 0"
    "task_id (task_pool k3 0) \<noteq> 0" "tstate (task_pool k3 0) = TASK_STATE_READY"
    by (rule create_over_queued [of k2 nm params]) (simp_all add: k2_def k1_def b zero_tcb_def)
  moreover obtain t where t: "find_free_slot k3 = Some t"
    using k3(4) no_free_slot [of k3] by (cases "find_free_slot k3") (auto simp: MAX_TASKS_def)
  moreover have "t \<noteq> 0" using free_slot(2) [OF t] k3(5,6) by (cases "t = 0") auto
  then have "task_create 4096 nm' 0 params' k3 = None" using create_behind_loop [OF k3(2,3) t] by simp
  ultimately show ?thesis by blast
qed

end
