(* ===== verification/I2c.thy ===== *)
theory I2c imports Rtos_Types Address_Space begin

text \<open>
  The I2C driver (\<^verbatim>\<open>src/drivers/i2c_driver.c\<close>): four static instances; an
  \<^verbatim>\<open>i2c_handle_t *\<close> is the index of one. The transfers of the source are simulated: a write
  only logs, a read fills the buffer with a counter, a scan finds three fixed addresses. Buffers are
  addresses in the flat memory.
\<close>

section \<open>The model\<close>

datatype i2c_speed = I2C_SPEED_STANDARD | I2C_SPEED_FAST | I2C_SPEED_FAST_PLUS

datatype i2c_addr_mode = I2C_ADDR_7BIT | I2C_ADDR_10BIT

record i2c_config =
  i2c_speed :: i2c_speed
  i2c_addr_mode :: i2c_addr_mode
  i2c_enable_dma :: bool
  i2c_timeout_ms :: u16

text \<open>\<open>i2c_cfg\<close> is \<open>None\<close> in a zeroed handle.\<close>

record i2c_handle =
  i2c_id :: u8
  i2c_cfg :: "i2c_config option"
  i2c_initialized :: bool
  i2c_busy :: bool

definition MAX_I2C_INSTANCES :: nat where
  "MAX_I2C_INSTANCES = 4"

type_synonym i2c_state = "nat \<Rightarrow> i2c_handle"

definition zero_i2c :: i2c_handle where
  "zero_i2c = \<lparr>i2c_id = 0, i2c_cfg = None, i2c_initialized = False, i2c_busy = False\<rparr>"

definition i2c_init :: "i2c_state \<Rightarrow> u8 \<Rightarrow> i2c_config option \<Rightarrow> i2c_state \<times> nat option" where
  "i2c_init s iid config =
     (if MAX_I2C_INSTANCES \<le> unat iid \<or> config = None then (s, None)
      else if i2c_initialized (s (unat iid)) then (s, Some (unat iid))
      else (s(unat iid := zero_i2c\<lparr>i2c_id := iid, i2c_cfg := config, i2c_initialized := True, i2c_busy := False\<rparr>),
            Some (unat iid)))"

definition i2c_ready :: "i2c_state \<Rightarrow> nat option \<Rightarrow> bool" where
  "i2c_ready s i2c = (case i2c of None \<Rightarrow> False | Some i \<Rightarrow> i2c_initialized (s i))"

definition i2c_deinit :: "i2c_state \<Rightarrow> nat option \<Rightarrow> i2c_state \<times> rtos_status" where
  "i2c_deinit s i2c =
     (if \<not> i2c_ready s i2c then (s, RTOS_ERROR_INVALID_PARAM)
      else (s(the i2c := s (the i2c)\<lparr>i2c_initialized := False\<rparr>), RTOS_OK))"

definition set_busy :: "nat \<Rightarrow> bool \<Rightarrow> i2c_state \<Rightarrow> i2c_state" where
  "set_busy i b s = s(i := s i\<lparr>i2c_busy := b\<rparr>)"

definition i2c_master_write :: "i2c_state \<Rightarrow> nat option \<Rightarrow> u16 \<Rightarrow> addr \<Rightarrow> size_t \<Rightarrow> i2c_state \<times> rtos_status" where
  "i2c_master_write s i2c slave_addr data len =
     (if \<not> i2c_ready s i2c \<or> data = NULL \<or> len = 0 then (s, RTOS_ERROR_INVALID_PARAM)
      else if i2c_busy (s (the i2c)) then (s, RTOS_ERROR_BUSY)
      else (set_busy (the i2c) False (set_busy (the i2c) True s), RTOS_OK))"

text \<open>The loop that stands for the bytes of the slave: \<^verbatim>\<open>buffer[i] = start + i\<close>, truncated to a byte.\<close>

fun i2c_fill :: "u8 \<Rightarrow> nat \<Rightarrow> nat \<Rightarrow> addr \<Rightarrow> memory \<Rightarrow> memory" where
  "i2c_fill start i 0 buf m = m"
| "i2c_fill start i (Suc n) buf m = i2c_fill start (i + 1) n buf (m(buf + i := start + of_nat i))"

definition i2c_master_read ::
    "i2c_state \<Rightarrow> memory \<Rightarrow> nat option \<Rightarrow> u16 \<Rightarrow> addr \<Rightarrow> size_t \<Rightarrow> i2c_state \<times> memory \<times> rtos_status" where
  "i2c_master_read s m i2c slave_addr buf len =
     (if \<not> i2c_ready s i2c \<or> buf = NULL \<or> len = 0 then (s, m, RTOS_ERROR_INVALID_PARAM)
      else if i2c_busy (s (the i2c)) then (s, m, RTOS_ERROR_BUSY)
      else let s1 = set_busy (the i2c) True s; m1 = i2c_fill 0xAA 0 (unat len) buf m
           in (set_busy (the i2c) False s1, m1, RTOS_OK))"

text \<open>No pointer is checked here: a null buffer with a length is written through, which is
  undefined (\<open>None\<close>).\<close>

definition i2c_master_write_read ::
    "i2c_state \<Rightarrow> memory \<Rightarrow> nat option \<Rightarrow> u16 \<Rightarrow> addr \<Rightarrow> size_t \<Rightarrow> addr \<Rightarrow> size_t \<Rightarrow>
     (i2c_state \<times> memory \<times> rtos_status) option" where
  "i2c_master_write_read s m i2c slave_addr write_data write_len read_buffer read_len =
     (if \<not> i2c_ready s i2c then Some (s, m, RTOS_ERROR_INVALID_PARAM)
      else if i2c_busy (s (the i2c)) then Some (s, m, RTOS_ERROR_BUSY)
      else if write_len \<noteq> 0 \<and> write_data = NULL \<or> read_len \<noteq> 0 \<and> read_buffer = NULL then None
      else let s1 = set_busy (the i2c) True s; m1 = i2c_fill 0xBB 0 (unat read_len) read_buffer m
           in Some (set_busy (the i2c) False s1, m1, RTOS_OK))"

text \<open>The helpers for registers pass the address of a local variable, \<open>frame\<close>.\<close>

definition i2c_write_register :: "i2c_state \<Rightarrow> memory \<Rightarrow> addr \<Rightarrow> nat option \<Rightarrow> u16 \<Rightarrow> u8 \<Rightarrow> u8 \<Rightarrow> i2c_state \<times> memory \<times> rtos_status" where
  "i2c_write_register s m frame i2c slave_addr reg_addr v =
     (let m1 = m(frame := reg_addr, frame + 1 := v); (s1, r) = i2c_master_write s i2c slave_addr frame 2 in (s1, m1, r))"

definition i2c_read_registers ::
    "i2c_state \<Rightarrow> memory \<Rightarrow> addr \<Rightarrow> nat option \<Rightarrow> u16 \<Rightarrow> u8 \<Rightarrow> addr \<Rightarrow> size_t \<Rightarrow> (i2c_state \<times> memory \<times> rtos_status) option" where
  "i2c_read_registers s m frame i2c slave_addr reg_addr buf len =
     i2c_master_write_read s (m(frame := reg_addr)) i2c slave_addr frame 1 buf len"

definition i2c_read_register ::
    "i2c_state \<Rightarrow> memory \<Rightarrow> addr \<Rightarrow> nat option \<Rightarrow> u16 \<Rightarrow> u8 \<Rightarrow> addr \<Rightarrow> (i2c_state \<times> memory \<times> rtos_status) option" where
  "i2c_read_register s m frame i2c slave_addr reg_addr v =
     i2c_master_write_read s (m(frame := reg_addr)) i2c slave_addr frame 1 v 1"

text \<open>The scan, over the addresses \<open>a\<close> up to 0x77; \<open>count\<close> is the variable pointed to.\<close>

function i2c_scan_loop :: "u16 \<Rightarrow> addr \<Rightarrow> size_t \<Rightarrow> memory \<Rightarrow> memory \<times> size_t" where
  "i2c_scan_loop a found_devices count m =
     (if a \<le> 0x77
      then if a = 0x50 \<or> a = 0x68 \<or> a = 0x77
           then i2c_scan_loop (a + 1) found_devices (count + 1) (m(found_devices + unat count := ucast a))
           else i2c_scan_loop (a + 1) found_devices count m
      else (m, count))"
  by auto
termination
proof (relation "measure (\<lambda>(a, _, _, _). 0x78 - unat a)")
  show "wf (measure (\<lambda>(a :: u16, _ :: addr, _ :: size_t, _ :: memory). 0x78 - unat a))" by simp
qed (simp_all add: word_le_nat_alt unat_word_ariths)

declare i2c_scan_loop.simps [simp del]

definition i2c_scan_bus ::
    "i2c_state \<Rightarrow> memory \<Rightarrow> nat option \<Rightarrow> addr \<Rightarrow> size_t option \<Rightarrow> memory \<times> rtos_status \<times> size_t option" where
  "i2c_scan_bus s m i2c found_devices count =
     (if \<not> i2c_ready s i2c \<or> found_devices = NULL \<or> count = None then (m, RTOS_ERROR_INVALID_PARAM, count)
      else let (m1, n) = i2c_scan_loop 3 found_devices 0 m in (m1, RTOS_OK, Some n))"

end
