(* ===== verification/I2c_Props.thy ===== *)
theory I2c_Props imports I2c Transitions begin

text \<open>
  The properties of the I2C driver: over any run no instance is left busy, so no transfer is ever
  refused for that reason; what the simulated reads and the scan deliver.
\<close>

section \<open>Loops\<close>

lemma i2c_fill_spec:
  "i2c_fill start i n buf m x = (if buf + i \<le> x \<and> x < buf + i + n then start + of_nat (x - buf) else m x)"
proof (induction n arbitrary: i m)
  case 0
  show ?case by auto
next
  case (Suc n)
  show ?case unfolding i2c_fill.simps Suc.IH by auto
qed

lemma bytes_at_fill: "bytes_at (i2c_fill start 0 n buf m) buf n = map (\<lambda>i. start + of_nat i) [0..<n]"
  by (simp add: list_eq_iff_nth_eq i2c_fill_spec)

text \<open>A stretch of addresses none of which answers is passed over.\<close>

lemma i2c_scan_skip:
  "a \<le> b \<Longrightarrow> b \<le> 0x77 \<Longrightarrow> b \<le> 0x50 \<or> 0x50 < a \<and> b \<le> 0x68 \<or> 0x68 < a \<Longrightarrow>
   i2c_scan_loop a f c m = i2c_scan_loop b f c m"
proof (induction "unat b - unat a" arbitrary: a)
  case 0
  then have "a = b" by (simp add: word_le_nat_alt word_unat_eq_iff)
  then show ?case by simp
next
  case (Suc n)
  then have lt: "unat a < unat b" by simp
  have suc: "unat (a + 1) = unat a + 1"
    using lt unsigned_less [where w = b, where ?'a = nat] by (simp add: unat_add_small)
  have "i2c_scan_loop a f c m = i2c_scan_loop (a + 1) f c m"
    using lt Suc.prems by (subst i2c_scan_loop.simps) (auto simp: word_le_nat_alt word_less_nat_alt)
  also have "\<dots> = i2c_scan_loop b f c m"
    using lt suc Suc.hyps(2) Suc.prems by (intro Suc.hyps(1)) (auto simp: word_le_nat_alt word_less_nat_alt)
  finally show ?case .
qed

lemma i2c_scan_all:
  "i2c_scan_loop 3 f 0 m = (m(f := 0x50, f + 1 := 0x68, f + 2 := 0x77), 3)"
proof -
  have step: "i2c_scan_loop a f c m' = i2c_scan_loop (a + 1) f (c + 1) (m'(f + unat c := ucast a))"
    if "a = 0x50 \<or> a = 0x68 \<or> a = 0x77" for a c m'
    using that by (subst i2c_scan_loop.simps) auto
  have stop: "i2c_scan_loop 0x78 f c m' = (m', c)" for c m'
    by (subst i2c_scan_loop.simps) simp
  have "i2c_scan_loop 3 f 0 m = i2c_scan_loop 0x50 f 0 m" by (rule i2c_scan_skip) simp_all
  also have "\<dots> = i2c_scan_loop 0x51 f 1 (m(f := 0x50))" by (subst step) simp_all
  also have "\<dots> = i2c_scan_loop 0x68 f 1 (m(f := 0x50))" by (rule i2c_scan_skip) simp_all
  also have "\<dots> = i2c_scan_loop 0x69 f 2 (m(f := 0x50, f + 1 := 0x68))" by (subst step) simp_all
  also have "\<dots> = i2c_scan_loop 0x77 f 2 (m(f := 0x50, f + 1 := 0x68))" by (rule i2c_scan_skip) simp_all
  also have "\<dots> = (m(f := 0x50, f + 1 := 0x68, f + 2 := 0x77), 3)" by (subst step) (simp_all add: stop)
  finally show ?thesis .
qed

section \<open>Runs\<close>

text \<open>The operations as steps on the instances; memory and results do not feed back.\<close>

inductive i2c_step :: "i2c_state \<Rightarrow> i2c_state \<Rightarrow> bool" where
  init: "i2c_init s iid config = (s', r) \<Longrightarrow> i2c_step s s'"
| deinit: "i2c_deinit s i2c = (s', r) \<Longrightarrow> i2c_step s s'"
| send: "i2c_master_write s i2c a data len = (s', r) \<Longrightarrow> i2c_step s s'"
| recv: "i2c_master_read s m i2c a buf len = (s', m', r) \<Longrightarrow> i2c_step s s'"
| both: "i2c_master_write_read s m i2c a data wlen buf rlen = Some (s', m', r) \<Longrightarrow> i2c_step s s'"

definition i2c_idle :: "i2c_state \<Rightarrow> bool" where
  "i2c_idle s \<longleftrightarrow> (\<forall>i. \<not> i2c_busy (s i))"

lemma set_busy_back: "\<not> i2c_busy (s i) \<Longrightarrow> set_busy i False (set_busy i True s) = s"
  by (auto simp: set_busy_def fun_eq_iff intro: i2c_handle.equality)

interpretation i2c_runs: invariant_system "\<lambda>s. \<forall>i. s i = zero_i2c" i2c_step i2c_idle
proof
  show "i2c_idle s" if "\<forall>i. s i = zero_i2c" for s using that by (simp add: i2c_idle_def zero_i2c_def)
  show "i2c_idle t" if "i2c_step s t" "i2c_idle s" for s t
    using that
    by cases (auto simp: i2c_idle_def i2c_init_def i2c_deinit_def i2c_master_write_def i2c_master_read_def
      i2c_master_write_read_def set_busy_def zero_i2c_def Let_def split: if_splits)
qed

section \<open>The properties\<close>

text \<open>C37: no transfer ever finds its port busy: in every reachable state the transfers on an open port
  leave the state as it is and answer \<open>RTOS_OK\<close>. The read delivers a counter from 0xAA on, the
  register read one from 0xBB on, into exactly the client's buffer (and the local variable with the
  register address), whatever the slave address; the scan finds 0x50, 0x68 and 0x77.\<close>

theorem i2c_transfers_succeed:
  assumes "\<forall>i. s0 i = zero_i2c" and "i2c_step\<^sup>*\<^sup>* s0 s" and "i2c_ready s i2c"
    and "buf \<noteq> NULL" and "len \<noteq> 0" and "frame \<noteq> NULL" and "frame < buf \<or> buf + unat len \<le> frame"
  shows "i2c_master_write s i2c a buf len = (s, RTOS_OK)
    \<and> (\<exists>m'. i2c_master_read s m i2c a buf len = (s, m', RTOS_OK)
         \<and> bytes_at m' buf (unat len) = map (\<lambda>i. 0xAA + of_nat i) [0..<unat len]
         \<and> (\<forall>x. x < buf \<or> buf + unat len \<le> x \<longrightarrow> m' x = m x))
    \<and> (\<exists>m'. i2c_read_registers s m frame i2c a reg buf len = Some (s, m', RTOS_OK)
         \<and> bytes_at m' buf (unat len) = map (\<lambda>i. 0xBB + of_nat i) [0..<unat len] \<and> m' frame = reg
         \<and> (\<forall>x. (x < buf \<or> buf + unat len \<le> x) \<and> x \<noteq> frame \<longrightarrow> m' x = m x))
    \<and> i2c_scan_bus s m i2c buf (Some n) = (m(buf := 0x50, buf + 1 := 0x68, buf + 2 := 0x77), RTOS_OK, Some 3)"
proof -
  have idle: "\<not> i2c_busy (s i)" for i using i2c_runs.reachable_inv [OF assms(1,2)] by (simp add: i2c_idle_def)
  note d = assms(3-6) idle set_busy_back [of s, OF idle]
  have w: "i2c_master_write s i2c a buf len = (s, RTOS_OK)"
    using d by (simp add: i2c_master_write_def)
  have r: "i2c_master_read s m i2c a buf len = (s, i2c_fill 0xAA 0 (unat len) buf m, RTOS_OK)"
    using d by (simp add: i2c_master_read_def Let_def)
  have rr: "i2c_read_registers s m frame i2c a reg buf len =
      Some (s, i2c_fill 0xBB 0 (unat len) buf (m(frame := reg)), RTOS_OK)"
    using d by (simp add: i2c_read_registers_def i2c_master_write_read_def Let_def)
  have sc: "i2c_scan_bus s m i2c buf (Some n) = (m(buf := 0x50, buf + 1 := 0x68, buf + 2 := 0x77), RTOS_OK, Some 3)"
    using d by (simp add: i2c_scan_bus_def i2c_scan_all)
  show ?thesis unfolding w r rr sc using assms(7) by (auto simp: bytes_at_fill i2c_fill_spec)
qed

theorem i2c_transfers_succeed_witness:
  "\<exists>s cfg. i2c_init (\<lambda>_. zero_i2c) 1 (Some cfg) = (s, Some 1)
     \<and> (\<exists>m'. i2c_read_registers s (\<lambda>_. 0) 64 (Some 1) 0x68 0x75 4096 2 = Some (s, m', RTOS_OK) \<and> bytes_at m' 4096 2 = [0xBB, 0xBC])"
proof -
  define cfg where "cfg = \<lparr>i2c_speed = I2C_SPEED_FAST, i2c_addr_mode = I2C_ADDR_7BIT, i2c_enable_dma = False, i2c_timeout_ms = 100\<rparr>"
  obtain s where s: "i2c_init (\<lambda>_. zero_i2c) 1 (Some cfg) = (s, Some 1)" and r: "i2c_ready s (Some 1)"
    by (simp add: i2c_init_def MAX_I2C_INSTANCES_def zero_i2c_def i2c_ready_def)
  have "i2c_step\<^sup>*\<^sup>* (\<lambda>_. zero_i2c) s" using i2c_step.init [OF s] by blast
  from i2c_transfers_succeed [OF _ this r, where buf = 4096 and len = 2 and frame = 64 and a = "0x68" and m = "\<lambda>_. 0" and reg = "0x75" and n = 0]
  obtain m' where m': "i2c_read_registers s (\<lambda>_. 0) 64 (Some 1) 0x68 0x75 4096 2 = Some (s, m', RTOS_OK)"
    "bytes_at m' 4096 2 = map (\<lambda>i. 0xBB + of_nat i) [0..<2]" by auto
  have "[0..<2] = [0, 1]" by (simp add: upt_rec)
  with m' have "bytes_at m' 4096 2 = [0xBB, 0xBC]" by simp
  with s m'(1) show ?thesis by blast
qed

end
