(* ===== verification/Bootloader.thy ===== *)
theory Bootloader imports Rtos_Types begin

text \<open>
  The bootloader (\<^verbatim>\<open>src/bootloader/bootloader.c\<close>): the bitwise CRC-32 and the
  verification of a firmware header. \<^verbatim>\<open>bootloader_init\<close> and
  \<^verbatim>\<open>bootloader_jump_to_app\<close> only print and are not modelled.
\<close>

section \<open>The model\<close>

text \<open>One round of the inner loop, \<^verbatim>\<open>crc = (crc >> 1) ^ (0xEDB88320 & -(crc & 1))\<close>.\<close>

definition crc_bit :: "u32 \<Rightarrow> u32" where
  "crc_bit crc = drop_bit 1 crc XOR (0xEDB88320 AND - (crc AND 1))"

text \<open>The body of the outer loop: mix a byte in, then eight rounds.\<close>

definition crc_byte :: "u32 \<Rightarrow> u8 \<Rightarrow> u32" where
  "crc_byte crc b = (crc_bit ^^ 8) (crc XOR ucast b)"

fun crc_loop :: "u32 \<Rightarrow> u8 list \<Rightarrow> u32" where
  "crc_loop crc [] = crc"
| "crc_loop crc (b # data) = crc_loop (crc_byte crc b) data"

definition crc32_calculate :: "u8 list \<Rightarrow> u32" where
  "crc32_calculate data = NOT (crc_loop 0xFFFFFFFF data)"

record firmware_header =
  fw_magic :: u32
  fw_version :: u32
  fw_size :: u32
  fw_crc32 :: u32
  fw_entry_point :: u32

definition FIRMWARE_MAGIC :: u32 where
  "FIRMWARE_MAGIC = 0xDEADC0DE"

definition bootloader_verify_image :: "firmware_header option \<Rightarrow> rtos_status" where
  "bootloader_verify_image header =
     (case header of
        None \<Rightarrow> RTOS_ERROR_INVALID_PARAM
      | Some h \<Rightarrow> if fw_magic h \<noteq> FIRMWARE_MAGIC then RTOS_ERROR else RTOS_OK)"

section \<open>One round is linear and reversible\<close>

lemma crc_bit_if: "crc_bit c = (if bit c 0 then drop_bit 1 c XOR 0xEDB88320 else drop_bit 1 c)"
  by (simp add: crc_bit_def and_one_if)

lemma crc_bit_xor: "crc_bit (a XOR b) = crc_bit a XOR crc_bit b"
  by (rule bit_word_eqI) (auto simp: crc_bit_if bit_simps)

text \<open>The inverse round: the top bit of the result tells whether the polynomial was mixed in.\<close>

definition crc_unbit :: "u32 \<Rightarrow> u32" where
  "crc_unbit c = (if bit c 31 then push_bit 1 (c XOR 0xEDB88320) OR 1 else push_bit 1 c)"

lemma crc_unbit_crc_bit: "crc_unbit (crc_bit c) = c"
proof (rule bit_word_eqI)
  fix n :: nat
  assume n: "n < LENGTH(32)"
  have t: "\<not> bit c 32" by (rule not_bit_length) simp
  show "bit (crc_unbit (crc_bit c)) n = bit c n"
    using n t by (cases n)
      (auto simp: crc_unbit_def crc_bit_if bit_simps bit_times_two)
qed

lemma crc_bits_xor: "(crc_bit ^^ n) (a XOR b) = (crc_bit ^^ n) a XOR (crc_bit ^^ n) b"
  by (induction n) (simp_all add: crc_bit_xor)

lemma crc_bits_inj: "(crc_bit ^^ n) a = (crc_bit ^^ n) b \<Longrightarrow> a = b"
proof (induction n)
  case 0
  then show ?case by simp
next
  case (Suc n)
  then have "crc_unbit (crc_bit ((crc_bit ^^ n) a)) = crc_unbit (crc_bit ((crc_bit ^^ n) b))"
    by simp
  with Suc.IH show ?case by (simp add: crc_unbit_crc_bit)
qed

text \<open>While the low bits are clear a round is a plain shift.\<close>

lemma crc_bit_push: "\<forall>i\<ge>24. \<not> bit w i \<Longrightarrow> k < 8 \<Longrightarrow> crc_bit (push_bit (Suc k) w) = push_bit k w"
proof (rule bit_word_eqI)
  fix n :: nat
  assume w: "\<forall>i\<ge>24. \<not> bit w i" and "k < 8" and "n < LENGTH(32)"
  moreover have "n - k < 24" if "bit w (n - k)"
    using w that by (meson not_le)
  ultimately show "bit (crc_bit (push_bit (Suc k) w)) n = bit (push_bit k w) n"
    by (fastforce simp: crc_bit_if bit_simps bit_times_two Suc_diff_le)
qed

lemma crc_bits_push:
  assumes "\<forall>i\<ge>24. \<not> bit w i" and "k \<le> 8"
  shows "(crc_bit ^^ k) (push_bit k w) = w"
  using assms(2)
proof (induction k)
  case 0
  show ?case by simp
next
  case (Suc k)
  then have "(crc_bit ^^ Suc k) (push_bit (Suc k) w) = (crc_bit ^^ k) (push_bit k w)"
    using crc_bit_push [OF assms(1), of k] by (simp only: funpow_Suc_right o_apply)
  with Suc show ?case by simp
qed

section \<open>Up to four bytes are one 32-bit word\<close>

fun le_word :: "u8 list \<Rightarrow> u32" where
  "le_word [] = 0"
| "le_word (b # bs) = ucast b XOR push_bit 8 (le_word bs)"

lemma le_word_high: "8 * length bs \<le> i \<Longrightarrow> \<not> bit (le_word bs) i"
proof (induction bs arbitrary: i)
  case Nil
  show ?case by simp
next
  case (Cons b bs)
  then have "\<not> bit (le_word bs) (i - 8)" and "\<not> bit b i"
    using not_bit_length [of i b] by auto
  then show ?case by (simp add: bit_simps)
qed

lemma le_word_inj:
  assumes "length xs = length ys" "length xs \<le> 4" "le_word xs = le_word ys"
  shows "xs = ys"
  using assms
proof (induction xs ys rule: list_induct2)
  case Nil
  show ?case by simp
next
  case (Cons x xs y ys)
  have bits: "bit (le_word (x # xs)) n = bit (le_word (y # ys)) n" for n
    using Cons.prems by simp
  have "x = y"
  proof (rule bit_word_eqI)
    fix n :: nat
    assume "n < LENGTH(8)"
    then show "bit x n = bit y n" using bits [of n] by (simp add: bit_simps)
  qed
  moreover have "le_word xs = le_word ys"
  proof (rule bit_word_eqI)
    fix n :: nat
    have hi: "\<not> bit x (n + 8)" "\<not> bit y (n + 8)" by (simp_all add: not_bit_length)
    show "bit (le_word xs) n = bit (le_word ys) n"
    proof (cases "n < 24")
      case True
      with bits [of "n + 8"] hi show ?thesis by (simp add: bit_simps)
    next
      case False
      then show ?thesis using Cons.prems(1) Cons.hyps
        by (simp add: le_word_high)
    qed
  qed
  ultimately show ?case using Cons by simp
qed

lemma crc_loop_word:
  "length bs \<le> 4 \<Longrightarrow> crc_loop c bs = (crc_bit ^^ (8 * length bs)) (c XOR le_word bs)"
proof (induction bs arbitrary: c)
  case Nil
  show ?case by simp
next
  case (Cons b bs)
  have "(crc_bit ^^ 8) (push_bit 8 (le_word bs)) = le_word bs"
    using Cons.prems by (intro crc_bits_push) (simp_all add: le_word_high)
  then have "crc_byte c b XOR le_word bs = (crc_bit ^^ 8) (c XOR le_word (b # bs))"
    by (simp only: crc_byte_def crc_bits_xor le_word.simps xor.assoc)
  moreover have "crc_loop c (b # bs) = (crc_bit ^^ (8 * length bs)) (crc_byte c b XOR le_word bs)"
    using Cons by simp
  ultimately show ?case
    by (simp add: funpow_add [symmetric, THEN fun_cong, unfolded o_apply] add.commute)
qed

lemma crc_loop_append: "crc_loop c (xs @ ys) = crc_loop (crc_loop c xs) ys"
  by (induction xs arbitrary: c) simp_all

lemma crc_byte_inj: "crc_byte a b = crc_byte a' b \<Longrightarrow> a = a'"
proof -
  assume "crc_byte a b = crc_byte a' b"
  then have "(a XOR ucast b) XOR ucast b = (a' XOR ucast b) XOR ucast b"
    unfolding crc_byte_def by (drule_tac crc_bits_inj) simp
  then show "a = a'" by (simp add: xor.assoc)
qed

lemma crc_loop_inj: "crc_loop a bs = crc_loop a' bs \<Longrightarrow> a = a'"
  by (induction bs arbitrary: a a') (auto dest: crc_byte_inj)

section \<open>Properties\<close>

text \<open>C35: two messages that differ only in a window of at most four bytes (so in particular in
  one byte, or in any burst of up to 32 bits inside such a window) never have the same CRC-32.\<close>

theorem crc32_detects_burst:
  assumes "length old = length new" and "length old \<le> 4" and "old \<noteq> new"
  shows "crc32_calculate (pre @ old @ post) \<noteq> crc32_calculate (pre @ new @ post)"
proof
  assume "crc32_calculate (pre @ old @ post) = crc32_calculate (pre @ new @ post)"
  then have "crc_loop (crc_loop 0xFFFFFFFF pre) old = crc_loop (crc_loop 0xFFFFFFFF pre) new"
    by (auto simp: crc32_calculate_def crc_loop_append dest: crc_loop_inj)
  then have "crc_loop 0xFFFFFFFF pre XOR le_word old = crc_loop 0xFFFFFFFF pre XOR le_word new"
    using assms(1,2) by (auto simp: crc_loop_word dest: crc_bits_inj)
  then have "le_word old = le_word new"
    by (simp add: xor_left_cancel)
  with le_word_inj [OF assms(1,2)] assms(3) show False by blast
qed

theorem crc32_detects_burst_witness:
  "crc32_calculate ([1] @ [2, 3] @ [4]) \<noteq> crc32_calculate ([1] @ [2, 7] @ [4])"
  by (rule crc32_detects_burst) simp_all

lemma crc_byte_rounds:
  "crc_byte c b = crc_bit (crc_bit (crc_bit (crc_bit (crc_bit (crc_bit (crc_bit (crc_bit
     (c XOR ucast b))))))))"
  by (simp add: crc_byte_def numeral_eq_Suc)

text \<open>The function computes the standard CRC-32: on the nine ASCII digits 1 to 9 it returns
  the check value 0xCBF43926 of the published parameter set, and 0 on the empty message.\<close>

lemma crc32_check_value:
  "crc32_calculate [0x31, 0x32, 0x33, 0x34, 0x35, 0x36, 0x37, 0x38, 0x39] = 0xCBF43926
   \<and> crc32_calculate [] = 0"
  by (simp add: crc32_calculate_def crc_byte_rounds crc_bit_if)

text \<open>The verification accepts exactly the headers with the right magic number; in particular
  its answer does not depend on the recorded size or CRC.\<close>

lemma bootloader_verify_image_iff:
  "bootloader_verify_image hdr = RTOS_OK \<longleftrightarrow> (\<exists>h. hdr = Some h \<and> fw_magic h = 0xDEADC0DE)"
  by (auto simp: bootloader_verify_image_def FIRMWARE_MAGIC_def split: option.splits)

end
