(* ===== verification/Ipc_Sync.thy ===== *)
theory Ipc_Sync imports Heap_Alloc Task begin

text \<open>
  Counting semaphores (\<^verbatim>\<open>src/ipc/semaphore.c\<close>) and mutexes (\<^verbatim>\<open>src/ipc/mutex.c\<close>).
  Both are structures in the heap; no operation waits, the timeout is ignored.

  A store into one live block keeps the heap well formed and every other block intact
  (\<open>block_store\<close>); the operations are such stores.
\<close>

section \<open>Stores into one block\<close>

definition others_kept :: "heap_state \<Rightarrow> heap_state \<Rightarrow> addr set \<Rightarrow> bool" where
  "others_kept s s' A \<longleftrightarrow> heap_inv s' \<and> heap_live s' = heap_live s \<and>
     (\<forall>q l. heap_live s q = Some l \<longrightarrow> q \<notin> A \<longrightarrow> bytes_at (mem s') q l = bytes_at (mem s) q l)"

lemma block_store:
  assumes "heap_inv s" and "heap_live s p = Some k" and "inside p k f" and "p \<in> A"
  shows "others_kept s (heap_store f s) A"
proof -
  have "bytes_at (mem (heap_store f s)) q l = bytes_at (mem s) q l"
    if "heap_live s q = Some l" "q \<notin> A" for q l
    using heap.store_other [OF assms(1,2) that(1) _ assms(3)] that(2) assms(4) by (intro bytes_at_cong) auto
  with heap.store_live [OF assms(1-3)] show ?thesis by (simp add: others_kept_def)
qed

lemma others_kept_refl: "heap_inv s \<Longrightarrow> others_kept s s A"
  by (simp add: others_kept_def)

lemma mem_heap_store [simp]: "mem (heap_store f s) = f (mem s)"
  by (simp add: heap_store_def)

section \<open>Semaphores\<close>

text \<open>\<^verbatim>\<open>struct semaphore\<close>: \<open>count\<close> at 0, \<open>max_count\<close> at 4; 8 bytes.\<close>

definition sizeof_semaphore :: size_t where
  "sizeof_semaphore = 8"

definition sem_count :: "memory \<Rightarrow> addr \<Rightarrow> u32" where
  "sem_count m sem = rd_u32 m sem"

definition sem_max_count :: "memory \<Rightarrow> addr \<Rightarrow> u32" where
  "sem_max_count m sem = rd_u32 m (sem + 4)"

definition set_sem_count :: "addr \<Rightarrow> u32 \<Rightarrow> memory \<Rightarrow> memory" where
  "set_sem_count sem v m = wr_u32 m sem v"

definition set_sem_max_count :: "addr \<Rightarrow> u32 \<Rightarrow> memory \<Rightarrow> memory" where
  "set_sem_max_count sem v m = wr_u32 m (sem + 4) v"

definition sem_create :: "heap_state \<Rightarrow> u32 \<Rightarrow> u32 \<Rightarrow> (heap_state \<times> addr) option" where
  "sem_create s initial_count max_count =
     do { (s1, sem) \<leftarrow> rtos_malloc s sizeof_semaphore;
          if sem = NULL then Some (s1, NULL)
          else Some (heap_store (\<lambda>m. set_sem_max_count sem max_count (set_sem_count sem initial_count m)) s1, sem) }"

definition sem_take :: "heap_state \<Rightarrow> addr \<Rightarrow> tick_t \<Rightarrow> heap_state \<times> rtos_status" where
  "sem_take s sem timeout =
     (if sem = NULL then (s, RTOS_ERROR_INVALID_PARAM)
      else if sem_count (mem s) sem = 0 then (s, RTOS_ERROR_TIMEOUT)
      else (heap_store (\<lambda>m. set_sem_count sem (sem_count m sem - 1) m) s, RTOS_OK))"

definition sem_give :: "heap_state \<Rightarrow> addr \<Rightarrow> heap_state \<times> rtos_status" where
  "sem_give s sem =
     (if sem = NULL then (s, RTOS_ERROR_INVALID_PARAM)
      else if sem_max_count (mem s) sem \<le> sem_count (mem s) sem then (s, RTOS_ERROR)
      else (heap_store (\<lambda>m. set_sem_count sem (sem_count m sem + 1) m) s, RTOS_OK))"

definition sem_destroy :: "heap_state \<Rightarrow> addr \<Rightarrow> heap_state option" where
  "sem_destroy s sem = (if sem \<noteq> NULL then rtos_free s sem else Some s)"

definition sem_ok :: "heap_state \<Rightarrow> addr \<Rightarrow> bool" where
  "sem_ok s sem \<longleftrightarrow> heap_inv s \<and> (\<exists>k. heap_live s sem = Some k \<and> 8 \<le> k)"

lemma set_count_simps [simp]:
  "sem_count (set_sem_count sem v m) sem = v" "sem_max_count (set_sem_count sem v m) sem = sem_max_count m sem"
  "sem_max_count (set_sem_max_count sem v m) sem = v" "sem_count (set_sem_max_count sem v m) sem = sem_count m sem"
  unfolding sem_count_def sem_max_count_def set_sem_count_def set_sem_max_count_def
  by (auto intro: rd_u32_cong simp: frames)

lemma inside_sem:
  "8 \<le> k \<Longrightarrow> inside sem k (\<lambda>m. set_sem_count sem (g m) m)" "8 \<le> k \<Longrightarrow> inside sem k (\<lambda>m. set_sem_max_count sem (h m) m)"
  by (auto simp: inside_def set_sem_count_def set_sem_max_count_def frames)

lemma sem_store:
  assumes "sem_ok s sem"
  shows "sem_ok (heap_store (\<lambda>m. set_sem_count sem (g m) m) s) sem"
    and "others_kept s (heap_store (\<lambda>m. set_sem_count sem (g m) m) s) {sem}"
proof -
  from assms obtain k where k: "heap_inv s" "heap_live s sem = Some k" "8 \<le> k" by (auto simp: sem_ok_def)
  show "others_kept s (heap_store (\<lambda>m. set_sem_count sem (g m) m) s) {sem}"
    by (rule block_store [OF k(1,2) inside_sem(1) [OF k(3)]]) simp
  with k show "sem_ok (heap_store (\<lambda>m. set_sem_count sem (g m) m) s) sem" by (auto simp: others_kept_def sem_ok_def)
qed

lemma sem_ok_nonnull: "sem_ok s sem \<Longrightarrow> sem \<noteq> NULL"
  using heap.live_range by (fastforce simp: sem_ok_def)

lemma sem_create_cases:
  assumes "heap_inv s"
  obtains (failed) "sem_create s i n = Some (s, NULL)"
  | (created) s' sem where "sem_create s i n = Some (s', sem)" "sem \<noteq> NULL" "sem_ok s' sem" "heap_live s sem = None"
      "sem_count (mem s') sem = i" "sem_max_count (mem s') sem = n"
proof (cases rule: heap.malloc_cases [OF assms, of sizeof_semaphore])
  case 1
  with failed show ?thesis by (simp add: sem_create_def)
next
  case (2 s1 sem k)
  define f where "f = (\<lambda>m. set_sem_max_count sem n (set_sem_count sem i m))"
  have k: "8 \<le> k" using 2(5) by (simp add: sizeof_semaphore_def)
  have ins: "inside sem k f" unfolding f_def
    using inside_comp [OF inside_sem(2) [OF k] inside_sem(1) [OF k], of sem "\<lambda>_. n" "\<lambda>_. i"] by simp
  have live: "heap_live s1 sem = Some k" by (simp add: 2(4))
  from heap.store_live [OF 2(6) live ins] live k have "sem_ok (heap_store f s1) sem" by (simp add: sem_ok_def)
  moreover have "sem_create s i n = Some (heap_store f s1, sem)"
    using 2(1,2) by (simp add: sem_create_def f_def)
  ultimately show ?thesis using created 2(2,3) by (simp add: f_def)
qed

section \<open>Mutexes\<close>

text \<open>\<^verbatim>\<open>struct mutex\<close>: \<open>locked\<close> at 0, \<open>owner_task_id\<close> at 4; 8 bytes.\<close>

definition sizeof_mutex :: size_t where
  "sizeof_mutex = 8"

definition mutex_locked :: "memory \<Rightarrow> addr \<Rightarrow> bool" where
  "mutex_locked m mutex = rd_bool m mutex"

definition mutex_owner :: "memory \<Rightarrow> addr \<Rightarrow> u32" where
  "mutex_owner m mutex = rd_u32 m (mutex + 4)"

definition set_mutex :: "addr \<Rightarrow> bool \<Rightarrow> u32 \<Rightarrow> memory \<Rightarrow> memory" where
  "set_mutex mutex locked owner m = wr_u32 (wr_bool m mutex locked) (mutex + 4) owner"

definition mutex_create :: "heap_state \<Rightarrow> (heap_state \<times> addr) option" where
  "mutex_create s =
     do { (s1, mutex) \<leftarrow> rtos_malloc s sizeof_mutex;
          if mutex = NULL then Some (s1, NULL)
          else Some (heap_store (set_mutex mutex False 0) s1, mutex) }"

definition mutex_lock :: "kernel \<Rightarrow> heap_state \<Rightarrow> addr \<Rightarrow> tick_t \<Rightarrow> heap_state \<times> rtos_status" where
  "mutex_lock k s mutex timeout =
     (if mutex = NULL then (s, RTOS_ERROR_INVALID_PARAM)
      else if mutex_locked (mem s) mutex then (s, RTOS_ERROR_TIMEOUT)
      else (heap_store (set_mutex mutex True (task_get_current_id k)) s, RTOS_OK))"

definition mutex_unlock :: "kernel \<Rightarrow> heap_state \<Rightarrow> addr \<Rightarrow> heap_state \<times> rtos_status" where
  "mutex_unlock k s mutex =
     (if mutex = NULL then (s, RTOS_ERROR_INVALID_PARAM)
      else if \<not> mutex_locked (mem s) mutex then (s, RTOS_ERROR)
      else if mutex_owner (mem s) mutex \<noteq> task_get_current_id k then (s, RTOS_ERROR)
      else (heap_store (set_mutex mutex False 0) s, RTOS_OK))"

definition mutex_destroy :: "heap_state \<Rightarrow> addr \<Rightarrow> heap_state option" where
  "mutex_destroy s mutex = (if mutex \<noteq> NULL then rtos_free s mutex else Some s)"

definition mutex_ok :: "heap_state \<Rightarrow> addr \<Rightarrow> bool" where
  "mutex_ok s mutex \<longleftrightarrow> heap_inv s \<and> (\<exists>k. heap_live s mutex = Some k \<and> 8 \<le> k)"

text \<open>Who holds the mutex.\<close>

definition holder :: "heap_state \<Rightarrow> addr \<Rightarrow> u32 option" where
  "holder s mutex = (if mutex_locked (mem s) mutex then Some (mutex_owner (mem s) mutex) else None)"

lemma set_mutex_simps [simp]:
  "mutex_locked (set_mutex mutex l w m) mutex = l" "mutex_owner (set_mutex mutex l w m) mutex = w"
proof -
  have "rd_bool (wr_u32 (wr_bool m mutex l) (mutex + 4) w) mutex = rd_bool (wr_bool m mutex l) mutex"
    by (rule rd_bool_cong) (simp add: frames)
  then show "mutex_locked (set_mutex mutex l w m) mutex = l" by (simp add: mutex_locked_def set_mutex_def)
qed (simp add: mutex_owner_def set_mutex_def)

lemma mutex_store:
  assumes "mutex_ok s mutex"
  shows "mutex_ok (heap_store (set_mutex mutex l w) s) mutex"
    and "others_kept s (heap_store (set_mutex mutex l w) s) {mutex}"
proof -
  from assms obtain k where k: "heap_inv s" "heap_live s mutex = Some k" "8 \<le> k" by (auto simp: mutex_ok_def)
  have "inside mutex k (set_mutex mutex l w)" using k(3) by (auto simp: inside_def set_mutex_def frames)
  then show "others_kept s (heap_store (set_mutex mutex l w) s) {mutex}" by (rule block_store [OF k(1,2)]) simp
  with k show "mutex_ok (heap_store (set_mutex mutex l w) s) mutex" by (auto simp: others_kept_def mutex_ok_def)
qed

lemma mutex_ok_nonnull: "mutex_ok s mutex \<Longrightarrow> mutex \<noteq> NULL"
  using heap.live_range by (fastforce simp: mutex_ok_def)

end
