(* ===== verification/Fifo.thy ===== *)
theory Fifo imports Main begin

text \<open>
  The contract of the bounded queues of the code (message queues, the buffers of the UART driver):
  a put on a queue with room appends and on a full queue is refused, a get takes the first item and
  on an empty queue is refused. The result of a whole run then is that of a list with a capacity.
\<close>

datatype 'a fifo_op = Put 'a | Get

text \<open>A run of the abstract queue: what every operation returns, and the items left.
  \<open>None\<close> is a refused operation; a successful put returns its own item.\<close>

fun spec_run :: "nat \<Rightarrow> 'a fifo_op list \<Rightarrow> 'a list \<Rightarrow> 'a option list \<times> 'a list" where
  "spec_run n [] xs = ([], xs)"
| "spec_run n (Put x # ops) xs =
     (if length xs < n
      then let (rs, ys) = spec_run n ops (xs @ [x]) in (Some x # rs, ys)
      else let (rs, ys) = spec_run n ops xs in (None # rs, ys))"
| "spec_run n (Get # ops) xs =
     (case xs of
        [] \<Rightarrow> let (rs, ys) = spec_run n ops [] in (None # rs, ys)
      | y # ys \<Rightarrow> let (rs, zs) = spec_run n ops ys in (Some y # rs, zs))"

text \<open>The items that went in, in order, are those that came out followed by those still there.\<close>

fun taken :: "'a fifo_op list \<Rightarrow> 'a option list \<Rightarrow> 'a list" where
  "taken (Get # ops) (Some x # rs) = x # taken ops rs"
| "taken (_ # ops) (_ # rs) = taken ops rs"
| "taken _ _ = []"

fun given :: "'a fifo_op list \<Rightarrow> 'a option list \<Rightarrow> 'a list" where
  "given (Put _ # ops) (Some x # rs) = x # given ops rs"
| "given (_ # ops) (_ # rs) = given ops rs"
| "given _ _ = []"

lemma spec_run_fifo:
  "spec_run n ops xs = (rs, ys) \<Longrightarrow> xs @ given ops rs = taken ops rs @ ys"
proof (induction n ops xs arbitrary: rs ys rule: spec_run.induct)
  case (2 n x ops xs)
  then show ?case by (auto split: if_splits prod.splits)
next
  case (3 n ops xs)
  then show ?case by (auto split: list.splits prod.splits)
qed simp

lemma spec_run_bound: "spec_run n ops xs = (rs, ys) \<Longrightarrow> length xs \<le> n \<Longrightarrow> length ys \<le> n"
  by (induction n ops xs arbitrary: rs ys rule: spec_run.induct) (auto split: if_splits list.splits prod.splits)

locale bounded_fifo =
  fixes put :: "'a \<Rightarrow> 's \<Rightarrow> 's option"
    and get :: "'s \<Rightarrow> ('a \<times> 's) option"
    and items :: "'s \<Rightarrow> 'a list"
    and capacity :: "'s \<Rightarrow> nat"
    and invar :: "'s \<Rightarrow> bool"
    and storable :: "'s \<Rightarrow> 'a \<Rightarrow> bool"
  assumes put_room: "invar s \<Longrightarrow> storable s x \<Longrightarrow> length (items s) < capacity s \<Longrightarrow>
          \<exists>s'. put x s = Some s' \<and> invar s' \<and> items s' = items s @ [x] \<and> capacity s' = capacity s
            \<and> storable s' = storable s"
    and put_full: "invar s \<Longrightarrow> storable s x \<Longrightarrow> capacity s \<le> length (items s) \<Longrightarrow> put x s = None"
    and get_item: "invar s \<Longrightarrow> items s = x # xs \<Longrightarrow>
          \<exists>s'. get s = Some (x, s') \<and> invar s' \<and> items s' = xs \<and> capacity s' = capacity s
            \<and> storable s' = storable s"
    and get_empty: "invar s \<Longrightarrow> items s = [] \<Longrightarrow> get s = None"
begin

fun run :: "'a fifo_op list \<Rightarrow> 's \<Rightarrow> 'a option list \<times> 's" where
  "run [] s = ([], s)"
| "run (Put x # ops) s =
     (case put x s of
        None \<Rightarrow> let (rs, s') = run ops s in (None # rs, s')
      | Some s1 \<Rightarrow> let (rs, s') = run ops s1 in (Some x # rs, s'))"
| "run (Get # ops) s =
     (case get s of
        None \<Rightarrow> let (rs, s') = run ops s in (None # rs, s')
      | Some (x, s1) \<Rightarrow> let (rs, s') = run ops s1 in (Some x # rs, s'))"

lemma run_spec:
  "invar s \<Longrightarrow> (\<forall>x. Put x \<in> set ops \<longrightarrow> storable s x) \<Longrightarrow> run ops s = (rs, s') \<Longrightarrow>
   spec_run (capacity s) ops (items s) = (rs, items s') \<and> invar s' \<and> capacity s' = capacity s"
proof (induction ops arbitrary: s rs)
  case (Cons op ops)
  show ?case
  proof (cases op)
    case (Put x)
    show ?thesis
    proof (cases "length (items s) < capacity s")
      case True
      from put_room [OF Cons.prems(1) _ True] Cons.prems(2) Put obtain s1 where
        s1: "put x s = Some s1" "invar s1" "items s1 = items s @ [x]" "capacity s1 = capacity s"
          "storable s1 = storable s" by auto
      obtain rs' where rs': "run ops s1 = (rs', s')" "rs = Some x # rs'"
        using Cons.prems(3) Put s1(1) by (auto split: prod.splits)
      from Cons.IH [OF s1(2) _ rs'(1)] Cons.prems(2) s1 rs' Put True show ?thesis by simp
    next
      case False
      then have none: "put x s = None" using put_full Cons.prems(1,2) Put by simp
      obtain rs' where rs': "run ops s = (rs', s')" "rs = None # rs'"
        using Cons.prems(3) Put none by (auto split: prod.splits)
      from Cons.IH [OF Cons.prems(1) _ rs'(1)] Cons.prems(2) rs' Put False show ?thesis by simp
    qed
  next
    case Get
    show ?thesis
    proof (cases "items s")
      case Nil
      then have none: "get s = None" using get_empty Cons.prems(1) by simp
      obtain rs' where rs': "run ops s = (rs', s')" "rs = None # rs'"
        using Cons.prems(3) Get none by (auto split: prod.splits)
      from Cons.IH [OF Cons.prems(1) _ rs'(1)] Cons.prems(2) rs' Get Nil show ?thesis by simp
    next
      case (Cons y ys)
      from get_item [OF Cons.prems(1) Cons] obtain s1 where
        s1: "get s = Some (y, s1)" "invar s1" "items s1 = ys" "capacity s1 = capacity s"
          "storable s1 = storable s" by auto
      obtain rs' where rs': "run ops s1 = (rs', s')" "rs = Some y # rs'"
        using Cons.prems(3) Get s1(1) by (auto split: prod.splits)
      from Cons.IH [OF s1(2) _ rs'(1)] Cons.prems(2) s1 rs' Get Cons show ?thesis by simp
    qed
  qed
qed simp

text \<open>First in, first out, over any run: nothing is lost, duplicated or reordered.\<close>

lemma run_fifo:
  assumes "invar s" and "\<forall>x. Put x \<in> set ops \<longrightarrow> storable s x" and "run ops s = (rs, s')"
  shows "items s @ given ops rs = taken ops rs @ items s'"
  using run_spec [OF assms] spec_run_fifo by blast

end

end
