(* ===== verification/Uart.thy ===== *)
theory Uart imports Ipc_Sync Fifo begin

text \<open>
  The UART driver (\<^verbatim>\<open>src/drivers/uart_driver.c\<close>): circular byte buffers in the heap and the
  four static UART instances. A \<^verbatim>\<open>uart_handle_t *\<close> is the index of an instance. What the
  comments of the driver describe as real hardware is not code and has no counterpart here; a
  registered callback is code of the client, a parameter of \<open>uart_write\<close>.
\<close>

section \<open>Circular buffers\<close>

record circular_buffer =
  cb_buffer :: addr
  cb_size :: size_t
  cb_head :: size_t
  cb_tail :: size_t
  cb_count :: size_t

definition circ_buf_init :: "heap_state \<Rightarrow> size_t \<Rightarrow> (heap_state \<times> circular_buffer) option" where
  "circ_buf_init s sz =
     do { (s1, p) \<leftarrow> rtos_malloc s sz;
          Some (s1, \<lparr>cb_buffer = p, cb_size = sz, cb_head = 0, cb_tail = 0, cb_count = 0\<rparr>) }"

definition circ_buf_deinit :: "heap_state \<Rightarrow> circular_buffer \<Rightarrow> (heap_state \<times> circular_buffer) option" where
  "circ_buf_deinit s cb =
     (if cb_buffer cb \<noteq> NULL
      then do { s1 \<leftarrow> rtos_free s (cb_buffer cb); Some (s1, cb\<lparr>cb_buffer := NULL\<rparr>) }
      else Some (s, cb))"

definition circ_buf_put :: "heap_state \<Rightarrow> circular_buffer \<Rightarrow> u8 \<Rightarrow> heap_state \<times> circular_buffer \<times> bool" where
  "circ_buf_put s cb data =
     (if cb_size cb \<le> cb_count cb then (s, cb, False)
      else (heap_store (\<lambda>m. m(cb_buffer cb + unat (cb_head cb) := data)) s,
            cb\<lparr>cb_head := (cb_head cb + 1) mod cb_size cb, cb_count := cb_count cb + 1\<rparr>, True))"

text \<open>\<open>data\<close> is the address the byte is stored at.\<close>

definition circ_buf_get :: "heap_state \<Rightarrow> circular_buffer \<Rightarrow> addr \<Rightarrow> heap_state \<times> circular_buffer \<times> bool" where
  "circ_buf_get s cb data =
     (if cb_count cb = 0 then (s, cb, False)
      else (heap_store (\<lambda>m. m(data := m (cb_buffer cb + unat (cb_tail cb)))) s,
            cb\<lparr>cb_tail := (cb_tail cb + 1) mod cb_size cb, cb_count := cb_count cb - 1\<rparr>, True))"

definition circ_buf_available :: "circular_buffer \<Rightarrow> size_t" where
  "circ_buf_available cb = cb_count cb"

definition circ_buf_flush :: "circular_buffer \<Rightarrow> circular_buffer" where
  "circ_buf_flush cb = cb\<lparr>cb_head := 0, cb_tail := 0, cb_count := 0\<rparr>"

section \<open>Instances\<close>

datatype uart_baud = UART_BAUD_9600 | UART_BAUD_19200 | UART_BAUD_38400 | UART_BAUD_57600
  | UART_BAUD_115200 | UART_BAUD_230400 | UART_BAUD_460800 | UART_BAUD_921600

datatype uart_parity = UART_PARITY_NONE | UART_PARITY_EVEN | UART_PARITY_ODD

datatype uart_stopbits = UART_STOPBITS_1 | UART_STOPBITS_2

datatype uart_databits = UART_DATABITS_7 | UART_DATABITS_8 | UART_DATABITS_9

record uart_config =
  baud_rate :: uart_baud
  parity :: uart_parity
  stop_bits :: uart_stopbits
  data_bits :: uart_databits
  enable_dma :: bool
  enable_interrupts :: bool
  rx_buffer_size :: u16
  tx_buffer_size :: u16

text \<open>\<open>config\<close> is \<open>None\<close> in the zeroed handle, where no enumeration value need be meant.\<close>

record uart_handle =
  uart_id :: u8
  uart_cfg :: "uart_config option"
  rx_buffer :: circular_buffer
  tx_buffer :: circular_buffer
  rx_callback :: addr
  rx_callback_data :: addr
  tx_callback :: addr
  tx_callback_data :: addr
  uart_initialized :: bool
  tx_busy :: bool

definition MAX_UART_INSTANCES :: nat where
  "MAX_UART_INSTANCES = 4"

record uart_state =
  uheap :: heap_state
  uart_instances :: "nat \<Rightarrow> uart_handle"

definition zero_cb :: circular_buffer where
  "zero_cb = \<lparr>cb_buffer = NULL, cb_size = 0, cb_head = 0, cb_tail = 0, cb_count = 0\<rparr>"

definition zero_uart :: uart_handle where
  "zero_uart = \<lparr>uart_id = 0, uart_cfg = None, rx_buffer = zero_cb, tx_buffer = zero_cb,
     rx_callback = NULL, rx_callback_data = NULL, tx_callback = NULL, tx_callback_data = NULL,
     uart_initialized = False, tx_busy = False\<rparr>"

definition upd_uart :: "nat \<Rightarrow> (uart_handle \<Rightarrow> uart_handle) \<Rightarrow> uart_state \<Rightarrow> uart_state" where
  "upd_uart u f s = s\<lparr>uart_instances := (uart_instances s)(u := f (uart_instances s u))\<rparr>"

definition uart_init :: "uart_state \<Rightarrow> u8 \<Rightarrow> uart_config option \<Rightarrow> (uart_state \<times> nat option) option" where
  "uart_init s uid config =
     (case config of
        None \<Rightarrow> Some (s, None)
      | Some cfg \<Rightarrow>
          if MAX_UART_INSTANCES \<le> unat uid then Some (s, None)
          else let u = unat uid in
            if uart_initialized (uart_instances s u) then Some (s, Some u)
            else do {
              let h0 = zero_uart\<lparr>uart_id := uid, uart_cfg := Some cfg\<rparr>;
              (s1, rx) \<leftarrow> circ_buf_init (uheap s) (ucast (rx_buffer_size cfg));
              (s2, tx) \<leftarrow> circ_buf_init s1 (ucast (tx_buffer_size cfg));
              let h1 = h0\<lparr>rx_buffer := rx, tx_buffer := tx\<rparr>;
              if cb_buffer rx = NULL \<or> cb_buffer tx = NULL
              then do { (s3, rx') \<leftarrow> circ_buf_deinit s2 rx;
                        (s4, tx') \<leftarrow> circ_buf_deinit s3 tx;
                        Some (upd_uart u (\<lambda>_. h1\<lparr>rx_buffer := rx', tx_buffer := tx'\<rparr>) (s\<lparr>uheap := s4\<rparr>), None) }
              else Some (upd_uart u (\<lambda>_. h1\<lparr>uart_initialized := True, tx_busy := False\<rparr>) (s\<lparr>uheap := s2\<rparr>),
                         Some u) })"

text \<open>The guard the operations share: a non-null handle that is initialised.\<close>

definition uart_ready :: "uart_state \<Rightarrow> nat option \<Rightarrow> bool" where
  "uart_ready s uart = (case uart of None \<Rightarrow> False | Some u \<Rightarrow> uart_initialized (uart_instances s u))"

definition uart_deinit :: "uart_state \<Rightarrow> nat option \<Rightarrow> (uart_state \<times> rtos_status) option" where
  "uart_deinit s uart =
     (if \<not> uart_ready s uart then Some (s, RTOS_ERROR_INVALID_PARAM)
      else let u = the uart; h = uart_instances s u in
        do { (s1, rx) \<leftarrow> circ_buf_deinit (uheap s) (rx_buffer h);
             (s2, tx) \<leftarrow> circ_buf_deinit s1 (tx_buffer h);
             Some (upd_uart u (\<lambda>h. h\<lparr>rx_buffer := rx, tx_buffer := tx, uart_initialized := False\<rparr>) (s\<lparr>uheap := s2\<rparr>),
                   RTOS_OK) })"

text \<open>The loop of \<^verbatim>\<open>uart_write\<close>: \<open>n\<close> bytes from address \<open>data\<close> on; \<open>False\<close> when the buffer is full.\<close>

fun uart_write_loop :: "nat \<Rightarrow> addr \<Rightarrow> heap_state \<Rightarrow> circular_buffer \<Rightarrow> heap_state \<times> circular_buffer \<times> bool" where
  "uart_write_loop 0 data s cb = (s, cb, True)"
| "uart_write_loop (Suc n) data s cb =
     (let (s1, cb1, ok) = circ_buf_put s cb (mem s data)
      in if ok then uart_write_loop n (data + 1) s1 cb1 else (s1, cb1, False))"

definition uart_write ::
    "(addr \<Rightarrow> nat \<Rightarrow> addr \<Rightarrow> uart_state \<Rightarrow> uart_state) \<Rightarrow> uart_state \<Rightarrow> nat option \<Rightarrow> addr \<Rightarrow> size_t \<Rightarrow>
     uart_state \<times> rtos_status" where
  "uart_write call s uart data len =
     (if \<not> uart_ready s uart \<or> data = NULL \<or> len = 0 then (s, RTOS_ERROR_INVALID_PARAM)
      else let u = the uart;
               (h, tx, ok) = uart_write_loop (unat len) data (uheap s) (tx_buffer (uart_instances s u));
               s1 = upd_uart u (\<lambda>h. h\<lparr>tx_buffer := tx\<rparr>) (s\<lparr>uheap := h\<rparr>)
           in if \<not> ok then (s1, RTOS_ERROR_BUSY)
              else if tx_callback (uart_instances s1 u) \<noteq> NULL
              then (call (tx_callback (uart_instances s1 u)) u (tx_callback_data (uart_instances s1 u)) s1, RTOS_OK)
              else (s1, RTOS_OK))"

text \<open>The loop of \<^verbatim>\<open>uart_read\<close>, which counts the bytes it got.\<close>

fun uart_read_loop :: "nat \<Rightarrow> addr \<Rightarrow> size_t \<Rightarrow> heap_state \<Rightarrow> circular_buffer \<Rightarrow> heap_state \<times> circular_buffer \<times> size_t" where
  "uart_read_loop 0 buf got s cb = (s, cb, got)"
| "uart_read_loop (Suc n) buf got s cb =
     (let (s1, cb1, ok) = circ_buf_get s cb buf
      in if ok then uart_read_loop n (buf + 1) (got + 1) s1 cb1 else (s1, cb1, got))"

text \<open>\<open>bytes_read\<close> is the variable the pointer argument points to, \<open>None\<close> for a null pointer.\<close>

definition uart_read ::
    "uart_state \<Rightarrow> nat option \<Rightarrow> addr \<Rightarrow> size_t \<Rightarrow> size_t option \<Rightarrow> uart_state \<times> rtos_status \<times> size_t option" where
  "uart_read s uart buf len bytes_read =
     (if \<not> uart_ready s uart \<or> buf = NULL \<or> bytes_read = None then (s, RTOS_ERROR_INVALID_PARAM, bytes_read)
      else let u = the uart;
               (h, rx, got) = uart_read_loop (unat len) buf 0 (uheap s) (rx_buffer (uart_instances s u))
           in (upd_uart u (\<lambda>h. h\<lparr>rx_buffer := rx\<rparr>) (s\<lparr>uheap := h\<rparr>), RTOS_OK, Some got))"

text \<open>The simulated transfer only raises and lowers the busy flag.\<close>

definition uart_write_dma :: "uart_state \<Rightarrow> nat option \<Rightarrow> addr \<Rightarrow> size_t \<Rightarrow> uart_state \<times> rtos_status" where
  "uart_write_dma s uart data len =
     (if \<not> uart_ready s uart \<or> data = NULL \<or> len = 0 then (s, RTOS_ERROR_INVALID_PARAM)
      else let u = the uart; h = uart_instances s u in
        if \<not> (case uart_cfg h of None \<Rightarrow> False | Some cfg \<Rightarrow> enable_dma cfg) then (s, RTOS_ERROR_NOT_READY)
        else if tx_busy h then (s, RTOS_ERROR_BUSY)
        else let s1 = upd_uart u (\<lambda>h. h\<lparr>tx_busy := True\<rparr>) s
             in (upd_uart u (\<lambda>h. h\<lparr>tx_busy := False\<rparr>) s1, RTOS_OK))"

definition uart_available :: "uart_state \<Rightarrow> nat option \<Rightarrow> size_t" where
  "uart_available s uart =
     (if \<not> uart_ready s uart then 0 else circ_buf_available (rx_buffer (uart_instances s (the uart))))"

definition uart_flush :: "uart_state \<Rightarrow> nat option \<Rightarrow> uart_state \<times> rtos_status" where
  "uart_flush s uart =
     (if \<not> uart_ready s uart then (s, RTOS_ERROR_INVALID_PARAM)
      else (upd_uart (the uart) (\<lambda>h. h\<lparr>rx_buffer := circ_buf_flush (rx_buffer h),
              tx_buffer := circ_buf_flush (tx_buffer h)\<rparr>) s, RTOS_OK))"

definition uart_set_callback :: "uart_state \<Rightarrow> nat option \<Rightarrow> addr \<Rightarrow> addr \<Rightarrow> uart_state \<times> rtos_status" where
  "uart_set_callback s uart callback user_data =
     (if \<not> uart_ready s uart then (s, RTOS_ERROR_INVALID_PARAM)
      else (upd_uart (the uart) (\<lambda>h. h\<lparr>rx_callback := callback, rx_callback_data := user_data\<rparr>) s, RTOS_OK))"

text \<open>The simulated interrupt handler checks its argument and the instance, and logs.\<close>

definition uart_irq_handler :: "uart_state \<Rightarrow> u8 \<Rightarrow> uart_state" where
  "uart_irq_handler s uid =
     (if MAX_UART_INSTANCES \<le> unat uid then s
      else if \<not> uart_initialized (uart_instances s (unat uid)) then s
      else s)"

end
