(* ===== verification/Spi.thy ===== *)
theory Spi imports Rtos_Types Address_Space begin

text \<open>
  The SPI driver (\<^verbatim>\<open>src/drivers/spi_driver.c\<close>): four static instances; a
  \<^verbatim>\<open>spi_handle_t *\<close> is the index of one. A transfer is simulated as a loopback that returns
  the complement of every byte. Local arrays have an address, the parameter \<open>frame\<close>, so that an
  access beyond their end reaches the bytes that lie there.
\<close>

section \<open>The model\<close>

datatype spi_mode = SPI_MODE_0 | SPI_MODE_1 | SPI_MODE_2 | SPI_MODE_3

datatype spi_speed = SPI_SPEED_LOW | SPI_SPEED_MEDIUM | SPI_SPEED_HIGH | SPI_SPEED_VERY_HIGH

record spi_config =
  spi_mode :: spi_mode
  spi_speed :: spi_speed
  spi_enable_dma :: bool

text \<open>\<open>spi_cfg\<close> is \<open>None\<close> in a zeroed handle.\<close>

record spi_handle =
  spi_id :: u8
  spi_cfg :: "spi_config option"
  spi_initialized :: bool
  spi_busy :: bool

definition MAX_SPI_INSTANCES :: nat where
  "MAX_SPI_INSTANCES = 4"

type_synonym spi_state = "nat \<Rightarrow> spi_handle"

definition zero_spi :: spi_handle where
  "zero_spi = \<lparr>spi_id = 0, spi_cfg = None, spi_initialized = False, spi_busy = False\<rparr>"

definition spi_init :: "spi_state \<Rightarrow> u8 \<Rightarrow> spi_config option \<Rightarrow> spi_state \<times> nat option" where
  "spi_init s sid config =
     (if MAX_SPI_INSTANCES \<le> unat sid \<or> config = None then (s, None)
      else if spi_initialized (s (unat sid)) then (s, Some (unat sid))
      else (s(unat sid := zero_spi\<lparr>spi_id := sid, spi_cfg := config, spi_initialized := True\<rparr>), Some (unat sid)))"

definition spi_ready :: "spi_state \<Rightarrow> nat option \<Rightarrow> bool" where
  "spi_ready s spi = (case spi of None \<Rightarrow> False | Some i \<Rightarrow> spi_initialized (s i))"

definition spi_deinit :: "spi_state \<Rightarrow> nat option \<Rightarrow> spi_state \<times> rtos_status" where
  "spi_deinit s spi =
     (if \<not> spi_ready s spi then (s, RTOS_ERROR_INVALID_PARAM)
      else (s(the spi := s (the spi)\<lparr>spi_initialized := False\<rparr>), RTOS_OK))"

text \<open>The loop of the transfer: byte \<open>i\<close> on, in increasing order, one after the other.\<close>

fun spi_transfer_loop :: "nat \<Rightarrow> nat \<Rightarrow> addr \<Rightarrow> addr \<Rightarrow> memory \<Rightarrow> memory" where
  "spi_transfer_loop i 0 tx_data rx_data m = m"
| "spi_transfer_loop i (Suc n) tx_data rx_data m =
     spi_transfer_loop (i + 1) n tx_data rx_data (m(rx_data + i := m (tx_data + i) XOR 0xFF))"

definition spi_transfer :: "spi_state \<Rightarrow> memory \<Rightarrow> nat option \<Rightarrow> addr \<Rightarrow> addr \<Rightarrow> size_t \<Rightarrow> memory \<times> rtos_status" where
  "spi_transfer s m spi tx_data rx_data len =
     (if \<not> spi_ready s spi \<or> tx_data = NULL \<or> rx_data = NULL \<or> len = 0 then (m, RTOS_ERROR_INVALID_PARAM)
      else (spi_transfer_loop 0 (unat len) tx_data rx_data m, RTOS_OK))"

text \<open>The array \<^verbatim>\<open>dummy_rx\<close> is not initialised.\<close>

definition spi_write :: "spi_state \<Rightarrow> memory \<Rightarrow> addr \<Rightarrow> nat option \<Rightarrow> addr \<Rightarrow> size_t \<Rightarrow> memory \<times> rtos_status" where
  "spi_write s m frame spi data len = spi_transfer s m spi data frame len"

text \<open>The initialiser \<^verbatim>\<open>{0xFF}\<close> sets the first byte of \<^verbatim>\<open>dummy_tx\<close>, the others are zero.\<close>

definition dummy_tx :: "u8 list" where
  "dummy_tx = 0xFF # replicate 255 0"

definition spi_read :: "spi_state \<Rightarrow> memory \<Rightarrow> addr \<Rightarrow> nat option \<Rightarrow> addr \<Rightarrow> size_t \<Rightarrow> memory \<times> rtos_status" where
  "spi_read s m frame spi buf len =
     (let m1 = (\<lambda>x. if frame \<le> x \<and> x < frame + 256 then dummy_tx ! (x - frame) else m x)
      in spi_transfer s m1 spi frame buf len)"

section \<open>Transfers\<close>

text \<open>Full duplex: when the receive buffer is the transmit buffer or does not overlap it, every byte
  received is the complement of the byte sent, and nothing else changes.\<close>

lemma spi_transfer_loop_spec:
  assumes "rx = tx \<or> rx + i + n \<le> tx + i \<or> tx + i + n \<le> rx + i"
  shows "spi_transfer_loop i n tx rx m x =
    (if rx + i \<le> x \<and> x < rx + i + n then m (tx + (x - rx)) XOR 0xFF else m x)"
  using assms
proof (induction n arbitrary: i m)
  case 0
  show ?case by auto
next
  case (Suc n)
  have "rx = tx \<or> rx + (i + 1) + n \<le> tx + (i + 1) \<or> tx + (i + 1) + n \<le> rx + (i + 1)" using Suc.prems by auto
  note IH = Suc.IH [OF this, of "m(rx + i := m (tx + i) XOR 0xFF)"]
  show ?case unfolding spi_transfer_loop.simps IH using Suc.prems by auto
qed

lemma spi_read_bytes:
  assumes "spi_ready s spi" and "buf \<noteq> NULL" and "frame \<noteq> NULL" and "0 < unat len"
    and "buf + unat len \<le> frame \<or> frame + max 256 (unat len) \<le> buf"
  shows "fst (spi_read s m frame spi buf len) x =
    (if buf \<le> x \<and> x < buf + unat len
     then (if x = buf then 0 else if x < buf + 256 then 0xFF else m (frame + (x - buf)) XOR 0xFF)
     else if frame \<le> x \<and> x < frame + 256 then dummy_tx ! (x - frame) else m x)"
proof -
  define m1 where "m1 = (\<lambda>x. if frame \<le> x \<and> x < frame + 256 then dummy_tx ! (x - frame) else m x)"
  have "fst (spi_read s m frame spi buf len) x = spi_transfer_loop 0 (unat len) frame buf m1 x"
    using assms(1-4) by (auto simp: spi_read_def spi_transfer_def Let_def m1_def)
  also have "\<dots> = (if buf \<le> x \<and> x < buf + unat len then m1 (frame + (x - buf)) XOR 0xFF else m1 x)"
    using spi_transfer_loop_spec [of buf frame 0 "unat len" m1 x] assms(5) by (auto simp: max_def split: if_splits)
  finally have r: "fst (spi_read s m frame spi buf len) x =
    (if buf \<le> x \<and> x < buf + unat len then m1 (frame + (x - buf)) XOR 0xFF else m1 x)" .
  have d: "m1 (frame + d) = (if d = 0 then 0xFF else if d < 256 then 0 else m (frame + d))" for d
    by (auto simp: m1_def dummy_tx_def nth_Cons split: nat.splits)
  show ?thesis
  proof (cases "buf \<le> x \<and> x < buf + unat len")
    case True
    then show ?thesis unfolding r using d [of "x - buf"] by auto
  next
    case False
    then show ?thesis unfolding r if_not_P [OF False] by (simp add: m1_def)
  qed
qed

text \<open>An open port, for the witnesses.\<close>

definition open_spi :: spi_state where
  "open_spi = (\<lambda>i. zero_spi)(0 := zero_spi\<lparr>spi_initialized := True\<rparr>)"

section \<open>The properties\<close>

text \<open>C36: a transfer is full duplex: with the same buffer for both directions or two that do not
  overlap, every byte received is the complement of the byte sent and no other byte changes.
  A write sends through a local array of 256 bytes, so exactly the writes of more bytes
  than that change memory beyond the array: they store complements of the client's data there.\<close>

theorem spi_transfer_loopback:
  assumes "spi_ready s spi" and "tx \<noteq> NULL" and "rx \<noteq> NULL" and "0 < unat len"
    and "rx = tx \<or> rx + unat len \<le> tx \<or> tx + unat len \<le> rx"
  shows "\<exists>m'. spi_transfer s m spi tx rx len = (m', RTOS_OK)
    \<and> bytes_at m' rx (unat len) = map (\<lambda>b. b XOR 0xFF) (bytes_at m tx (unat len))
    \<and> (\<forall>x. x < rx \<or> rx + unat len \<le> x \<longrightarrow> m' x = m x)
    \<and> spi_write s m rx spi tx len = (m', RTOS_OK)
    \<and> (256 < unat len \<longrightarrow> m' (rx + 256) = m (tx + 256) XOR 0xFF)"
proof -
  let ?m = "spi_transfer_loop 0 (unat len) tx rx m"
  have spec: "?m x = (if rx \<le> x \<and> x < rx + unat len then m (tx + (x - rx)) XOR 0xFF else m x)" for x
    using spi_transfer_loop_spec [of rx tx 0 "unat len" m x] assms(5) by simp
  have "spi_transfer s m spi tx rx len = (?m, RTOS_OK)"
    using assms(1-4) by (auto simp: spi_transfer_def)
  moreover have "bytes_at ?m rx (unat len) = map (\<lambda>b. b XOR 0xFF) (bytes_at m tx (unat len))"
    by (simp add: list_eq_iff_nth_eq spec)
  ultimately show ?thesis by (simp add: spec spi_write_def)
qed

theorem spi_transfer_loopback_witness:
  "\<exists>m'. spi_write open_spi (\<lambda>x. of_nat (x div 256)) 4096 (Some 0) 1024 300 = (m', RTOS_OK) \<and> m' (4096 + 256) = 5 XOR 0xFF"
  using spi_transfer_loopback [of open_spi "Some 0" 1024 4096 300 "\<lambda>x. of_nat (x div 256)"]
  by (auto simp: open_spi_def spi_ready_def)

text \<open>A read of up to 256 bytes receives the complement of the local array it sends, a zero followed
  by bytes 0xFF: the array is not all 0xFF. A longer read delivers what lies behind the array.\<close>

lemma spi_read_outcome:
  assumes "spi_ready s spi" and "buf \<noteq> NULL" and "frame \<noteq> NULL" and "0 < unat len"
    and "buf + unat len \<le> frame \<or> frame + max 256 (unat len) \<le> buf"
  shows "snd (spi_read s m frame spi buf len) = RTOS_OK
    \<and> (\<forall>i<unat len. fst (spi_read s m frame spi buf len) (buf + i) =
         (if i = 0 then 0 else if i < 256 then 0xFF else m (frame + i) XOR 0xFF))"
  using assms spi_read_bytes [OF assms, of m] by (auto simp: spi_read_def spi_transfer_def Let_def)

end
