(* ===== verification/Driver_Framework.thy ===== *)
theory Driver_Framework imports Uart I2c Spi "HOL-Library.Monad_Syntax" begin

text \<open>
  The driver framework (\<^verbatim>\<open>src/driver_framework.c\<close>): the two registries, the lookups, the
  initialisation of all devices in order of priority, and the initialisation callbacks of the three
  built-in drivers. A \<^verbatim>\<open>device_t *\<close> into the registry is an index.

  A \<^verbatim>\<open>void *platform_data\<close> points to the configuration object of one driver; reading an
  object of another type through it is undefined in C, and \<open>None\<close> here. Names are the strings
  the pointers refer to; the framework keeps the pointers and assumes the strings do not change.
\<close>

section \<open>State\<close>

datatype device_status =
    DEVICE_STATUS_OK
  | DEVICE_STATUS_ERROR
  | DEVICE_STATUS_NOT_FOUND
  | DEVICE_STATUS_ALREADY_INITIALIZED
  | DEVICE_STATUS_INVALID_PARAM

datatype config_object = UART_CONFIG uart_config | I2C_CONFIG i2c_config | SPI_CONFIG spi_config

datatype handle_object = UART_HANDLE nat | I2C_HANDLE nat | SPI_HANDLE nat

record device =
  dev_name :: "string option"
  dev_id :: u8
  dev_driver_name :: "string option"
  platform_data :: "config_object option"
  driver_data :: "handle_object option"
  init_priority :: u8
  dev_initialized :: bool

text \<open>Function pointers: the three callbacks of the source and those of clients.\<close>

datatype driver_fn = DRIVER_UART_INIT | DRIVER_I2C_INIT | DRIVER_SPI_INIT | CLIENT_FN nat

record driver =
  drv_name :: "string option"
  drv_init :: "driver_fn option"
  drv_deinit :: "driver_fn option"

definition MAX_DRIVERS :: nat where
  "MAX_DRIVERS = 16"

definition MAX_DEVICES :: nat where
  "MAX_DEVICES = 32"

text \<open>The statics of the framework and of the drivers its callbacks open.\<close>

record world =
  driver_registry :: "nat \<Rightarrow> driver"
  driver_count :: u32
  device_registry :: "nat \<Rightarrow> device"
  device_count :: u32
  uarts :: uart_state
  i2cs :: i2c_state
  spis :: spi_state

definition zero_driver :: driver where
  "zero_driver = \<lparr>drv_name = None, drv_init = None, drv_deinit = None\<rparr>"

definition zero_device :: device where
  "zero_device = \<lparr>dev_name = None, dev_id = 0, dev_driver_name = None, platform_data = None,
     driver_data = None, init_priority = 0, dev_initialized = False\<rparr>"

definition upd_device :: "nat \<Rightarrow> (device \<Rightarrow> device) \<Rightarrow> world \<Rightarrow> world" where
  "upd_device i f w = w\<lparr>device_registry := (device_registry w)(i := f (device_registry w i))\<rparr>"

section \<open>Registries\<close>

text \<open>The linear searches: the first of \<open>n\<close> entries from \<open>i\<close> on that satisfies the test.\<close>

fun first_index :: "(nat \<Rightarrow> bool) \<Rightarrow> nat \<Rightarrow> nat \<Rightarrow> nat option" where
  "first_index P i 0 = None"
| "first_index P i (Suc n) = (if P i then Some i else first_index P (i + 1) n)"

definition driver_register :: "world \<Rightarrow> driver option \<Rightarrow> world \<times> device_status" where
  "driver_register w driver =
     (case driver of
        None \<Rightarrow> (w, DEVICE_STATUS_INVALID_PARAM)
      | Some d \<Rightarrow>
          if drv_name d = None then (w, DEVICE_STATUS_INVALID_PARAM)
          else if first_index (\<lambda>i. drv_name (driver_registry w i) = drv_name d) 0 (unat (driver_count w)) \<noteq> None
          then (w, DEVICE_STATUS_ALREADY_INITIALIZED)
          else if MAX_DRIVERS \<le> unat (driver_count w) then (w, DEVICE_STATUS_ERROR)
          else (w\<lparr>driver_registry := (driver_registry w)(unat (driver_count w) := d),
                  driver_count := driver_count w + 1\<rparr>, DEVICE_STATUS_OK))"

definition driver_lookup :: "world \<Rightarrow> string option \<Rightarrow> nat option" where
  "driver_lookup w name =
     (if name = None then None
      else first_index (\<lambda>i. drv_name (driver_registry w i) = name) 0 (unat (driver_count w)))"

definition device_register :: "world \<Rightarrow> device option \<Rightarrow> world \<times> device_status" where
  "device_register w dev =
     (case dev of
        None \<Rightarrow> (w, DEVICE_STATUS_INVALID_PARAM)
      | Some d \<Rightarrow>
          if dev_name d = None \<or> dev_driver_name d = None then (w, DEVICE_STATUS_INVALID_PARAM)
          else if first_index (\<lambda>i. dev_name (device_registry w i) = dev_name d) 0 (unat (device_count w)) \<noteq> None
          then (w, DEVICE_STATUS_ALREADY_INITIALIZED)
          else if MAX_DEVICES \<le> unat (device_count w) then (w, DEVICE_STATUS_ERROR)
          else (w\<lparr>device_registry := (device_registry w)(unat (device_count w) := d),
                  device_count := device_count w + 1\<rparr>, DEVICE_STATUS_OK))"

definition device_get_by_name :: "world \<Rightarrow> string option \<Rightarrow> nat option" where
  "device_get_by_name w name =
     (if name = None then None
      else first_index (\<lambda>i. dev_name (device_registry w i) = name) 0 (unat (device_count w)))"

definition device_get_by_driver_and_id :: "world \<Rightarrow> string option \<Rightarrow> u8 \<Rightarrow> nat option" where
  "device_get_by_driver_and_id w name did =
     (if name = None then None
      else first_index (\<lambda>i. dev_driver_name (device_registry w i) = name \<and> dev_id (device_registry w i) = did)
             0 (unat (device_count w)))"

definition device_get_count :: "world \<Rightarrow> u32" where
  "device_get_count w = device_count w"

definition device_framework_init :: "world \<Rightarrow> world" where
  "device_framework_init w =
     w\<lparr>driver_registry := (\<lambda>i. if i < MAX_DRIVERS then zero_driver else driver_registry w i),
       device_registry := (\<lambda>i. if i < MAX_DEVICES then zero_device else device_registry w i),
       driver_count := 0, device_count := 0\<rparr>"

definition device_register_builtin_drivers :: "world \<Rightarrow> world" where
  "device_register_builtin_drivers w =
     (let w1 = fst (driver_register w (Some \<lparr>drv_name = Some ''uart_driver'', drv_init = Some DRIVER_UART_INIT, drv_deinit = None\<rparr>));
          w2 = fst (driver_register w1 (Some \<lparr>drv_name = Some ''i2c_driver'', drv_init = Some DRIVER_I2C_INIT, drv_deinit = None\<rparr>))
      in fst (driver_register w2 (Some \<lparr>drv_name = Some ''spi_driver'', drv_init = Some DRIVER_SPI_INIT, drv_deinit = None\<rparr>)))"

section \<open>The callbacks of the drivers\<close>

definition driver_uart_init :: "nat option \<Rightarrow> world \<Rightarrow> (world \<times> device_status) option" where
  "driver_uart_init dev w =
     (case dev of
        None \<Rightarrow> Some (w, DEVICE_STATUS_INVALID_PARAM)
      | Some i \<Rightarrow>
          case platform_data (device_registry w i) of
            None \<Rightarrow> Some (w, DEVICE_STATUS_INVALID_PARAM)
          | Some (UART_CONFIG cfg) \<Rightarrow>
              do { (u, h) \<leftarrow> uart_init (uarts w) (dev_id (device_registry w i)) (Some cfg);
                   let w1 = w\<lparr>uarts := u\<rparr>;
                   case h of
                     None \<Rightarrow> Some (w1, DEVICE_STATUS_ERROR)
                   | Some u \<Rightarrow> Some (upd_device i (\<lambda>d. d\<lparr>driver_data := Some (UART_HANDLE u)\<rparr>) w1, DEVICE_STATUS_OK) }
          | Some _ \<Rightarrow> None)"

definition driver_i2c_init :: "nat option \<Rightarrow> world \<Rightarrow> (world \<times> device_status) option" where
  "driver_i2c_init dev w =
     (case dev of
        None \<Rightarrow> Some (w, DEVICE_STATUS_INVALID_PARAM)
      | Some i \<Rightarrow>
          case platform_data (device_registry w i) of
            None \<Rightarrow> Some (w, DEVICE_STATUS_INVALID_PARAM)
          | Some (I2C_CONFIG cfg) \<Rightarrow>
              (let (s, h) = i2c_init (i2cs w) (dev_id (device_registry w i)) (Some cfg);
                   w1 = w\<lparr>i2cs := s\<rparr>
               in case h of
                    None \<Rightarrow> Some (w1, DEVICE_STATUS_ERROR)
                  | Some j \<Rightarrow> Some (upd_device i (\<lambda>d. d\<lparr>driver_data := Some (I2C_HANDLE j)\<rparr>) w1, DEVICE_STATUS_OK))
          | Some _ \<Rightarrow> None)"

definition driver_spi_init :: "nat option \<Rightarrow> world \<Rightarrow> (world \<times> device_status) option" where
  "driver_spi_init dev w =
     (case dev of
        None \<Rightarrow> Some (w, DEVICE_STATUS_INVALID_PARAM)
      | Some i \<Rightarrow>
          case platform_data (device_registry w i) of
            None \<Rightarrow> Some (w, DEVICE_STATUS_INVALID_PARAM)
          | Some (SPI_CONFIG cfg) \<Rightarrow>
              (let (s, h) = spi_init (spis w) (dev_id (device_registry w i)) (Some cfg);
                   w1 = w\<lparr>spis := s\<rparr>
               in case h of
                    None \<Rightarrow> Some (w1, DEVICE_STATUS_ERROR)
                  | Some j \<Rightarrow> Some (upd_device i (\<lambda>d. d\<lparr>driver_data := Some (SPI_HANDLE j)\<rparr>) w1, DEVICE_STATUS_OK))
          | Some _ \<Rightarrow> None)"

text \<open>A call through a function pointer; \<open>client\<close> is the code of clients.\<close>

definition call_init ::
    "(nat \<Rightarrow> nat \<Rightarrow> world \<Rightarrow> (world \<times> device_status) option) \<Rightarrow> driver_fn \<Rightarrow> nat \<Rightarrow> world \<Rightarrow>
     (world \<times> device_status) option" where
  "call_init client f i w =
     (case f of
        DRIVER_UART_INIT \<Rightarrow> driver_uart_init (Some i) w
      | DRIVER_I2C_INIT \<Rightarrow> driver_i2c_init (Some i) w
      | DRIVER_SPI_INIT \<Rightarrow> driver_spi_init (Some i) w
      | CLIENT_FN n \<Rightarrow> client n i w)"

section \<open>Initialising all devices\<close>

text \<open>The inner loop: the first uninitialised device of least priority below \<open>min_priority\<close>.\<close>

fun next_device :: "(nat \<Rightarrow> device) \<Rightarrow> nat \<Rightarrow> nat \<Rightarrow> nat option \<Rightarrow> u8 \<Rightarrow> nat option" where
  "next_device reg i 0 next_dev min_priority = next_dev"
| "next_device reg i (Suc n) next_dev min_priority =
     (if \<not> dev_initialized (reg i) \<and> init_priority (reg i) < min_priority
      then next_device reg (i + 1) n (Some i) (init_priority (reg i))
      else next_device reg (i + 1) n next_dev min_priority)"

text \<open>One round for the device chosen, with the status to report: \<open>Inl\<close> after a \<^verbatim>\<open>continue\<close>
  with an error, \<open>Inr\<close> when the device is initialised.\<close>

definition init_device ::
    "(driver_fn \<Rightarrow> nat \<Rightarrow> world \<Rightarrow> (world \<times> device_status) option) \<Rightarrow> nat \<Rightarrow> world \<Rightarrow>
     (world \<times> device_status option) option" where
  "init_device call i w =
     (case driver_lookup w (dev_driver_name (device_registry w i)) of
        None \<Rightarrow> Some (w, Some DEVICE_STATUS_NOT_FOUND)
      | Some k \<Rightarrow>
          case drv_init (driver_registry w k) of
            None \<Rightarrow> Some (upd_device i (\<lambda>d. d\<lparr>dev_initialized := True\<rparr>) w, None)
          | Some f \<Rightarrow>
              do { (w1, r) \<leftarrow> call f i w;
                   if r \<noteq> DEVICE_STATUS_OK then Some (w1, Some r)
                   else Some (upd_device i (\<lambda>d. d\<lparr>dev_initialized := True\<rparr>) w1, None) })"

text \<open>The outer loop; \<open>device_count\<close> is read again in every round.\<close>

function init_loop ::
    "(driver_fn \<Rightarrow> nat \<Rightarrow> world \<Rightarrow> (world \<times> device_status) option) \<Rightarrow> nat \<Rightarrow> device_status \<Rightarrow> world \<Rightarrow>
     (world \<times> device_status) option" where
  "init_loop call iter status w =
     (if iter < unat (device_count w)
      then case next_device (device_registry w) 0 (unat (device_count w)) None 255 of
             None \<Rightarrow> Some (w, status)
           | Some i \<Rightarrow>
               (case init_device call i w of
                  None \<Rightarrow> None
                | Some (w1, None) \<Rightarrow> init_loop call (iter + 1) status w1
                | Some (w1, Some r) \<Rightarrow> init_loop call (iter + 1) r w1)
      else Some (w, status))"
  by pat_completeness auto
termination
proof (relation "measure (\<lambda>(_, iter, _, _). 2 ^ 32 - iter)", goal_cases)
  case 1
  show ?case by simp
next
  case (2 call iter status w)
  then have "iter < 2 ^ 32" using unsigned_less [where w = "device_count w", where ?'a = nat] by simp
  then show ?case by simp
next
  case (3 call iter status w)
  then have "iter < 2 ^ 32" using unsigned_less [where w = "device_count w", where ?'a = nat] by simp
  then show ?case by simp
qed

declare init_loop.simps [simp del]

definition device_init_all ::
    "(driver_fn \<Rightarrow> nat \<Rightarrow> world \<Rightarrow> (world \<times> device_status) option) \<Rightarrow> world \<Rightarrow> (world \<times> device_status) option" where
  "device_init_all call w = init_loop call 0 DEVICE_STATUS_OK w"

end
