(* ===== verification/Heap_Object.thy ===== *)
theory Heap_Object imports Ipc_Sync begin

text \<open>
  Objects that live in heap blocks of their own (semaphores, mutexes, message queues): what they
  share is that their state is a function of the blocks they own, so nothing that leaves these blocks
  alone can change them. The locale \<open>heap_object\<close> states this once; populations of objects with
  disjoint blocks are stable under operations on one of them.
\<close>

section \<open>Blocks left alone\<close>

definition block_same :: "heap_state \<Rightarrow> heap_state \<Rightarrow> addr \<Rightarrow> bool" where
  "block_same s s' p \<longleftrightarrow> heap_live s' p = heap_live s p
     \<and> (\<forall>k. heap_live s p = Some k \<longrightarrow> bytes_at (mem s') p k = bytes_at (mem s) p k)"

lemma block_same_refl [simp]: "block_same s s p"
  by (simp add: block_same_def)

lemma block_same_trans: "block_same s s1 p \<Longrightarrow> block_same s1 s2 p \<Longrightarrow> block_same s s2 p"
  by (simp add: block_same_def)

lemma others_kept_same: "others_kept s s' A \<Longrightarrow> p \<notin> A \<Longrightarrow> block_same s s' p"
  by (simp add: others_kept_def block_same_def)

lemma malloc_same:
  assumes "rtos_malloc s n = Some (s', q)" and "heap_inv s" and "heap_live s p \<noteq> None"
  shows "block_same s s' p"
proof (cases "q = NULL")
  case True
  with heap.malloc_null [of s n s'] assms(1,2) show ?thesis by simp
next
  case False
  from heap.malloc_live [OF assms(1,2) False] assms(3) have "heap_live s' p = heap_live s p" by (auto split: if_splits)
  with heap.malloc_frame [OF assms(1,2)] show ?thesis by (auto simp: block_same_def intro!: bytes_at_cong)
qed

lemma free_same:
  assumes "rtos_free s q = Some s'" and "heap_inv s" and "heap_live s q = Some j" and "p \<noteq> q"
  shows "block_same s s' p"
proof -
  from heap.free_live [OF assms(2,3)] assms(1,4) have "heap_live s' p = heap_live s p" by auto
  with heap.free_frame [OF assms(1-3)] show ?thesis by (auto simp: block_same_def intro!: bytes_at_cong)
qed

lemma block_same_bytes:
  assumes "block_same s s' p" and "heap_live s p = Some k" and "p \<le> x" and "x < p + k"
  shows "mem s' x = mem s x"
proof -
  have "\<forall>i<k. mem s' (p + i) = mem s (p + i)"
    using assms(1,2) unfolding block_same_def bytes_at_eq_iff by blast
  moreover have "x - p < k" "p + (x - p) = x" using assms(3,4) by auto
  ultimately show ?thesis by metis
qed

text \<open>Everything but the blocks of \<open>W\<close> is left alone: every operation of the allocator and of the
  objects is of this form, and such effects compose.\<close>

definition touches :: "heap_state \<Rightarrow> heap_state \<Rightarrow> addr set \<Rightarrow> bool" where
  "touches s s' W \<longleftrightarrow> heap_inv s' \<and> (\<forall>p. p \<notin> W \<longrightarrow> block_same s s' p)"

lemma touches_inv: "touches s s' W \<Longrightarrow> heap_inv s'"
  by (simp add: touches_def)

lemma touches_same: "touches s s' W \<Longrightarrow> p \<notin> W \<Longrightarrow> block_same s s' p"
  by (simp add: touches_def)

lemma touches_live: "touches s s' W \<Longrightarrow> p \<notin> W \<Longrightarrow> heap_live s' p = heap_live s p"
  by (simp add: touches_def block_same_def)

lemma touches_none_live: "touches s s' {} \<Longrightarrow> heap_live s' = heap_live s"
  by (rule ext) (simp add: touches_live)

lemma touches_refl: "heap_inv s \<Longrightarrow> touches s s W"
  by (simp add: touches_def)

lemma touches_trans: "touches s s1 A \<Longrightarrow> touches s1 s2 B \<Longrightarrow> touches s s2 (A \<union> B)"
  by (meson UnI1 UnI2 block_same_trans touches_def)

lemma others_kept_touches: "others_kept s s' A \<Longrightarrow> touches s s' A"
  by (simp add: touches_def others_kept_same) (simp add: others_kept_def)

lemma malloc_touches:
  assumes "rtos_malloc s n = Some (s', q)" and "heap_inv s"
  shows "touches s s' {q}"
proof (cases "q = NULL")
  case True
  with heap.malloc_null [of s n s'] assms show ?thesis by (simp add: touches_refl)
next
  case False
  from heap.malloc_live [OF assms False] have "heap_live s p = None \<Longrightarrow> p \<noteq> q \<Longrightarrow> heap_live s' p = None" for p by auto
  with malloc_same [OF assms] heap.malloc_invar [OF assms] show ?thesis
    unfolding touches_def by (metis block_same_def insertI1 option.distinct(1))
qed

lemma free_touches:
  assumes "rtos_free s q = Some s'" and "heap_inv s" and "heap_live s q = Some j"
  shows "touches s s' {q}" and "heap_live s' = (heap_live s)(q := None)"
  using free_same [OF assms] heap.free_live [OF assms(2,3)] assms(1) by (auto simp: touches_def)

lemma live_null [simp]: "heap_inv s \<Longrightarrow> heap_live s NULL = None"
  using heap.live_range [of s NULL] by (cases "heap_live s NULL") auto

lemma malloc_dead: "rtos_malloc s n = Some (s', q) \<Longrightarrow> heap_inv s \<Longrightarrow> heap_live s q = None"
  by (cases "q = NULL") (auto dest: heap.malloc_live)

text \<open>What was allocated and given back again has not been touched.\<close>

lemma touches_back:
  assumes "touches s s' W" and "\<And>p. p \<in> W \<Longrightarrow> heap_live s p = None \<and> heap_live s' p = None"
  shows "touches s s' {}"
  using assms unfolding touches_def block_same_def by (metis option.distinct(1))

text \<open>A fresh block that is written only inside: how the objects are created.\<close>

lemma malloc_store:
  assumes r: "rtos_malloc s n = Some (s1, p)" and inv: "heap_inv s" and p: "p \<noteq> NULL"
    and n: "unat n \<le> 2 ^ 64 - 4" and f: "inside p (unat n) f"
  obtains k where "touches s (heap_store f s1) {p}" and "heap_live (heap_store f s1) = (heap_live s)(p \<mapsto> k)"
    and "unat n \<le> k" and "heap_live s p = None"
proof -
  from heap.malloc_live [OF r inv p] n obtain k where
    k: "heap_live s p = None" "heap_live s1 = (heap_live s)(p \<mapsto> k)" "unat n \<le> k" by auto
  have ins: "inside p k f" using inside_mono [OF f] k(3) by simp
  have live: "heap_live s1 p = Some k" by (simp add: k(2))
  note m = malloc_touches [OF r inv]
  from block_store [OF touches_inv [OF m] live ins, of "{p}"] have o: "others_kept s1 (heap_store f s1) {p}" by simp
  show thesis
  proof (rule that [of k])
    show "touches s (heap_store f s1) {p}" using touches_trans [OF m others_kept_touches [OF o]] by simp
    show "heap_live (heap_store f s1) = (heap_live s)(p \<mapsto> k)" using o k(2) by (simp add: others_kept_def)
  qed (fact k)+
qed

section \<open>The contract\<close>

definition blocks_of :: "(memory \<Rightarrow> 'o \<Rightarrow> addr set) \<Rightarrow> heap_state \<Rightarrow> 'o set \<Rightarrow> addr set" where
  "blocks_of owns s X = (\<Union>x\<in>X. owns (mem s) x)"

text \<open>Well-formed objects, no two of which share a block.\<close>

definition population ::
    "(heap_state \<Rightarrow> 'o \<Rightarrow> bool) \<Rightarrow> (memory \<Rightarrow> 'o \<Rightarrow> addr set) \<Rightarrow> heap_state \<Rightarrow> 'o set \<Rightarrow> bool" where
  "population ok owns s X \<longleftrightarrow> (\<forall>x\<in>X. ok s x)
     \<and> (\<forall>x\<in>X. \<forall>y\<in>X. x \<noteq> y \<longrightarrow> owns (mem s) x \<inter> owns (mem s) y = {})"

locale heap_object =
  fixes ok :: "heap_state \<Rightarrow> 'o \<Rightarrow> bool"
    and owns :: "memory \<Rightarrow> 'o \<Rightarrow> addr set"
    and view :: "memory \<Rightarrow> 'o \<Rightarrow> 'v"
  assumes owns_live: "ok s x \<Longrightarrow> p \<in> owns (mem s) x \<Longrightarrow> heap_live s p \<noteq> None"
    and stable: "ok s x \<Longrightarrow> heap_inv s' \<Longrightarrow> (\<forall>p\<in>owns (mem s) x. block_same s s' p) \<Longrightarrow>
          ok s' x \<and> owns (mem s') x = owns (mem s) x \<and> view (mem s') x = view (mem s) x"
begin

lemma population_live: "population ok owns s X \<Longrightarrow> p \<in> blocks_of owns s X \<Longrightarrow> heap_live s p \<noteq> None"
  using owns_live by (auto simp: population_def blocks_of_def)

text \<open>An allocation by anybody, or a release of a block that belongs to no object.\<close>

lemma population_kept:
  assumes "population ok owns s X" and "heap_inv s'" and "\<And>p. p \<in> blocks_of owns s X \<Longrightarrow> block_same s s' p"
  shows "population ok owns s' X" and "blocks_of owns s' X = blocks_of owns s X"
    and "x \<in> X \<Longrightarrow> view (mem s') x = view (mem s) x"
proof -
  have st: "ok s' x \<and> owns (mem s') x = owns (mem s) x \<and> view (mem s') x = view (mem s) x" if "x \<in> X" for x
    using stable [of s x s'] assms that by (auto simp: population_def blocks_of_def)
  with assms(1) show "population ok owns s' X" by (simp add: population_def)
  show "blocks_of owns s' X = blocks_of owns s X" using st by (simp add: blocks_of_def)
  show "x \<in> X \<Longrightarrow> view (mem s') x = view (mem s) x" using st by blast
qed

lemma population_subset: "population ok owns s X \<Longrightarrow> Y \<subseteq> X \<Longrightarrow> population ok owns s Y"
  unfolding population_def by (meson subsetD)

text \<open>The blocks of one member are apart from those of the others.\<close>

lemma member_blocks:
  assumes "population ok owns s X" and "y \<in> X"
  shows "blocks_of owns s X = blocks_of owns s (X - {y}) \<union> owns (mem s) y"
    and "blocks_of owns s (X - {y}) \<inter> owns (mem s) y = {}"
  using assms by (auto simp: population_def blocks_of_def)

end

section \<open>Semaphores and mutexes as objects\<close>

lemma sem_stable:
  assumes "sem_ok s a" and "heap_inv s'" and "block_same s s' a"
  shows "sem_ok s' a \<and> sem_count (mem s') a = sem_count (mem s) a \<and> sem_max_count (mem s') a = sem_max_count (mem s) a"
proof -
  from assms(1) obtain k where k: "heap_live s a = Some k" "8 \<le> k" by (auto simp: sem_ok_def)
  have "mem s' x = mem s x" if "a \<le> x" "x < a + 8" for x
    using block_same_bytes [OF assms(3) k(1)] that k(2) by simp
  then have "sem_count (mem s') a = sem_count (mem s) a \<and> sem_max_count (mem s') a = sem_max_count (mem s) a"
    unfolding sem_count_def sem_max_count_def by (auto intro!: rd_u32_cong)
  with assms(2,3) k show ?thesis by (auto simp: sem_ok_def block_same_def)
qed

lemma mutex_stable:
  assumes "mutex_ok s a" and "heap_inv s'" and "block_same s s' a"
  shows "mutex_ok s' a \<and> holder s' a = holder s a"
proof -
  from assms(1) obtain k where k: "heap_live s a = Some k" "8 \<le> k" by (auto simp: mutex_ok_def)
  have "mem s' x = mem s x" if "a \<le> x" "x < a + 8" for x
    using block_same_bytes [OF assms(3) k(1)] that k(2) by simp
  then have "mutex_locked (mem s') a = mutex_locked (mem s) a \<and> mutex_owner (mem s') a = mutex_owner (mem s) a"
    unfolding mutex_locked_def mutex_owner_def by (auto intro!: rd_u32_cong rd_bool_cong)
  with assms(2,3) k show ?thesis by (auto simp: mutex_ok_def block_same_def holder_def)
qed

text \<open>\<open>holder\<close> depends on the memory only.\<close>

definition mutex_view :: "memory \<Rightarrow> addr \<Rightarrow> u32 option" where
  "mutex_view m a = (if mutex_locked m a then Some (mutex_owner m a) else None)"

lemma holder_view: "holder s a = mutex_view (mem s) a"
  by (simp add: holder_def mutex_view_def)

interpretation sem: heap_object sem_ok "\<lambda>m a. {a}" "\<lambda>m a. (sem_count m a, sem_max_count m a)"
proof
  show "heap_live s p \<noteq> None" if "sem_ok s a" "p \<in> {a}" for s a p using that by (auto simp: sem_ok_def)
qed (use sem_stable in simp)

interpretation mutex: heap_object mutex_ok "\<lambda>m a. {a}" mutex_view
proof
  show "heap_live s p \<noteq> None" if "mutex_ok s a" "p \<in> {a}" for s a p using that by (auto simp: mutex_ok_def)
qed (use mutex_stable in \<open>simp add: holder_view\<close>)

section \<open>Memory outside the heap\<close>

text \<open>Globals, and buffers of clients that are not allocated: a store into them does not touch the heap.\<close>

definition outside_heap :: "heap_state \<Rightarrow> addr \<Rightarrow> nat \<Rightarrow> bool" where
  "outside_heap s p k \<longleftrightarrow> p + k \<le> heap_memory s \<or> heap_memory s + HEAP_SIZE \<le> p"

lemma live_in_heap:
  assumes "heap_inv s" and "heap_live s p = Some k"
  shows "heap_memory s \<le> p \<and> p + k \<le> heap_memory s + HEAP_SIZE"
proof -
  from assms(1) obtain bs where ok: "heap_ok s bs" by (rule heap_inv_obtain)
  have "32 \<le> p" "(p - 32, k, False) \<in> set bs" using assms(2) heap_live_Some [OF ok] by auto
  from heap_ok_mem [OF ok this(2)] this(1) show ?thesis by auto
qed

lemma outside_store:
  assumes inv: "heap_inv s" and out: "outside_heap s p k" and f: "inside p k f"
  shows "others_kept s (heap_store f s) A"
proof -
  from inv obtain bs where ok: "heap_ok s bs" by (rule heap_inv_obtain)
  have same: "f (mem s) x = mem s x" if "heap_memory s \<le> x" "x < heap_memory s + HEAP_SIZE" for x
    using that out f by (auto simp: outside_heap_def inside_def)
  have "chain (f (mem s)) (heap_memory s) (heap_memory s + HEAP_SIZE) 0 bs"
  proof (rule chain_cong [OF _ heap_ok_chain [OF ok]])
    fix b n g
    assume "(b, n, g) \<in> set bs"
    from heap_ok_mem [OF ok this] same show "same_on b 32 (mem s) (f (mem s))" by (auto simp: same_on_def)
  qed
  then have ok': "heap_ok (heap_store f s) bs" using ok by (simp add: heap_ok_def heap_store_def)
  have "bytes_at (f (mem s)) q l = bytes_at (mem s) q l" if "heap_live s q = Some l" for q l
    using live_in_heap [OF inv that] same by (intro bytes_at_cong) auto
  moreover have "heap_live (heap_store f s) = heap_live s"
    using heap_ok_blocks [OF ok] heap_ok_blocks [OF ok'] by (simp add: heap_live_def)
  ultimately show ?thesis using heap_invI [OF ok'] by (simp add: others_kept_def)
qed

end
