(* ===== verification/Message_Queue.thy ===== *)
theory Message_Queue imports Heap_Object Fifo begin

text \<open>
  Message queues (\<^verbatim>\<open>src/ipc/message_queue.c\<close>): a structure and a buffer of
  \<open>max_msgs\<close> slots of \<open>msg_size\<close> bytes, both in the heap. \<open>mq_ok\<close> is the invariant;
  \<open>mq_items\<close> reads the waiting messages off the buffer, oldest first. Messages are passed by
  address, and no operation waits.
\<close>

section \<open>The model\<close>

text \<open>\<^verbatim>\<open>struct message_queue\<close>: \<open>buffer\<close> at 0, \<open>msg_size\<close> at 8, \<open>max_msgs\<close> at 16, \<open>count\<close> at
  24, \<open>head\<close> at 32, \<open>tail\<close> at 40; 48 bytes.\<close>

definition sizeof_mq :: size_t where
  "sizeof_mq = 48"

definition mq_buffer :: "memory \<Rightarrow> addr \<Rightarrow> addr" where
  "mq_buffer m q = rd_ptr m q"

definition mq_msg_size :: "memory \<Rightarrow> addr \<Rightarrow> size_t" where
  "mq_msg_size m q = rd_size m (q + 8)"

definition mq_max_msgs :: "memory \<Rightarrow> addr \<Rightarrow> size_t" where
  "mq_max_msgs m q = rd_size m (q + 16)"

definition mq_count :: "memory \<Rightarrow> addr \<Rightarrow> size_t" where
  "mq_count m q = rd_size m (q + 24)"

definition mq_head :: "memory \<Rightarrow> addr \<Rightarrow> size_t" where
  "mq_head m q = rd_size m (q + 32)"

definition mq_tail :: "memory \<Rightarrow> addr \<Rightarrow> size_t" where
  "mq_tail m q = rd_size m (q + 40)"

lemmas mq_fields = mq_buffer_def mq_msg_size_def mq_max_msgs_def mq_count_def mq_head_def mq_tail_def

definition set_mq_count :: "addr \<Rightarrow> size_t \<Rightarrow> memory \<Rightarrow> memory" where
  "set_mq_count q v m = wr_size m (q + 24) v"

definition set_mq_head :: "addr \<Rightarrow> size_t \<Rightarrow> memory \<Rightarrow> memory" where
  "set_mq_head q v m = wr_size m (q + 32) v"

definition set_mq_tail :: "addr \<Rightarrow> size_t \<Rightarrow> memory \<Rightarrow> memory" where
  "set_mq_tail q v m = wr_size m (q + 40) v"

lemmas mq_setters = set_mq_count_def set_mq_head_def set_mq_tail_def

definition mq_create :: "heap_state \<Rightarrow> size_t \<Rightarrow> size_t \<Rightarrow> (heap_state \<times> addr) option" where
  "mq_create s msg_size max_msgs =
     do { (s1, mq) \<leftarrow> rtos_malloc s sizeof_mq;
          if mq = NULL then Some (s1, NULL)
          else do {
            (s2, buffer) \<leftarrow> rtos_malloc s1 (msg_size * max_msgs);
            let s3 = heap_store (\<lambda>m. wr_ptr m mq buffer) s2;
            if buffer = NULL then do { s4 \<leftarrow> rtos_free s3 mq; Some (s4, NULL) }
            else Some (heap_store (\<lambda>m. set_mq_tail mq 0 (set_mq_head mq 0 (set_mq_count mq 0
                         (wr_size (wr_size m (mq + 8) msg_size) (mq + 16) max_msgs)))) s3, mq) } }"

definition mq_send :: "heap_state \<Rightarrow> addr \<Rightarrow> addr \<Rightarrow> tick_t \<Rightarrow> heap_state \<times> rtos_status" where
  "mq_send s mq msg timeout =
     (if mq = NULL \<or> msg = NULL then (s, RTOS_ERROR_INVALID_PARAM)
      else if mq_max_msgs (mem s) mq \<le> mq_count (mem s) mq then (s, RTOS_ERROR_BUSY)
      else let m = mem s;
               m1 = memcpy m (mq_buffer m mq + unat (mq_head m mq * mq_msg_size m mq)) msg
                      (unat (mq_msg_size m mq));
               m2 = set_mq_head mq ((mq_head m1 mq + 1) mod mq_max_msgs m1 mq) m1;
               m3 = set_mq_count mq (mq_count m2 mq + 1) m2
           in (s\<lparr>mem := m3\<rparr>, RTOS_OK))"

definition mq_receive :: "heap_state \<Rightarrow> addr \<Rightarrow> addr \<Rightarrow> tick_t \<Rightarrow> heap_state \<times> rtos_status" where
  "mq_receive s mq msg timeout =
     (if mq = NULL \<or> msg = NULL then (s, RTOS_ERROR_INVALID_PARAM)
      else if mq_count (mem s) mq = 0 then (s, RTOS_ERROR_TIMEOUT)
      else let m = mem s;
               m1 = memcpy m msg (mq_buffer m mq + unat (mq_tail m mq * mq_msg_size m mq))
                      (unat (mq_msg_size m mq));
               m2 = set_mq_tail mq ((mq_tail m1 mq + 1) mod mq_max_msgs m1 mq) m1;
               m3 = set_mq_count mq (mq_count m2 mq - 1) m2
           in (s\<lparr>mem := m3\<rparr>, RTOS_OK))"

definition mq_destroy :: "heap_state \<Rightarrow> addr \<Rightarrow> heap_state option" where
  "mq_destroy s mq =
     (if mq \<noteq> NULL
      then do { s1 \<leftarrow> rtos_free s (mq_buffer (mem s) mq); rtos_free s1 mq }
      else Some s)"

section \<open>Slots\<close>

lemma rd_wr_size_far [simp]:
  "a + 8 \<le> b \<or> b + 8 \<le> a \<Longrightarrow> rd_size (wr_size m a v) b = rd_size m b"
  "a + 8 \<le> b \<or> b + 8 \<le> a \<Longrightarrow> rd_ptr (wr_size m a v) b = rd_ptr m b"
  by (auto intro!: rd_size_cong rd_ptr_cong simp: frames)

text \<open>The structure is only read in its 48 bytes.\<close>

lemma mq_fields_cong:
  assumes "\<And>x. q \<le> x \<Longrightarrow> x < q + 48 \<Longrightarrow> m' x = m x"
  shows "mq_buffer m' q = mq_buffer m q" "mq_msg_size m' q = mq_msg_size m q" "mq_max_msgs m' q = mq_max_msgs m q"
    "mq_count m' q = mq_count m q" "mq_head m' q = mq_head m q" "mq_tail m' q = mq_tail m q"
  unfolding mq_fields by (rule rd_ptr_cong rd_size_cong; use assms in simp)+

text \<open>The slot \<open>i\<close> of the buffer.\<close>

definition mq_slot :: "memory \<Rightarrow> addr \<Rightarrow> nat \<Rightarrow> addr" where
  "mq_slot m q i = mq_buffer m q + i * unat (mq_msg_size m q)"

definition mq_items :: "memory \<Rightarrow> addr \<Rightarrow> u8 list list" where
  "mq_items m q = map (\<lambda>i. bytes_at m (mq_slot m q ((unat (mq_tail m q) + i) mod unat (mq_max_msgs m q)))
                              (unat (mq_msg_size m q))) [0..<unat (mq_count m q)]"

definition mq_ok :: "heap_state \<Rightarrow> addr \<Rightarrow> bool" where
  "mq_ok s q \<longleftrightarrow> heap_inv s
     \<and> (\<exists>k. heap_live s q = Some k \<and> 48 \<le> k)
     \<and> (\<exists>j. heap_live s (mq_buffer (mem s) q) = Some j
          \<and> unat (mq_msg_size (mem s) q) * unat (mq_max_msgs (mem s) q) \<le> j)
     \<and> mq_buffer (mem s) q \<noteq> q
     \<and> 0 < unat (mq_msg_size (mem s) q) \<and> 0 < unat (mq_max_msgs (mem s) q)
     \<and> unat (mq_count (mem s) q) \<le> unat (mq_max_msgs (mem s) q)
     \<and> unat (mq_tail (mem s) q) < unat (mq_max_msgs (mem s) q)
     \<and> unat (mq_head (mem s) q) = (unat (mq_tail (mem s) q) + unat (mq_count (mem s) q)) mod unat (mq_max_msgs (mem s) q)"

text \<open>What of it does not depend on how many messages wait.\<close>

definition mq_shape :: "heap_state \<Rightarrow> addr \<Rightarrow> bool" where
  "mq_shape s q \<longleftrightarrow> heap_inv s
     \<and> (\<exists>k. heap_live s q = Some k \<and> 48 \<le> k)
     \<and> (\<exists>j. heap_live s (mq_buffer (mem s) q) = Some j
          \<and> unat (mq_msg_size (mem s) q) * unat (mq_max_msgs (mem s) q) \<le> j)
     \<and> mq_buffer (mem s) q \<noteq> q
     \<and> unat (mq_head (mem s) q) < unat (mq_max_msgs (mem s) q)
     \<and> unat (mq_tail (mem s) q) < unat (mq_max_msgs (mem s) q)"

lemma mq_ok_shape: "mq_ok s q \<Longrightarrow> mq_shape s q"
  by (simp add: mq_ok_def mq_shape_def)

text \<open>The slots lie in the buffer and do not overlap; nothing of them is in the structure.\<close>

lemma mq_layout:
  assumes "mq_shape s q"
  obtains k j where "heap_inv s" "heap_live s q = Some k" "48 \<le> k" "heap_live s (mq_buffer (mem s) q) = Some j"
    "unat (mq_msg_size (mem s) q) * unat (mq_max_msgs (mem s) q) \<le> j" "mq_buffer (mem s) q + j < 2 ^ 64"
    "q + k \<le> mq_buffer (mem s) q \<or> mq_buffer (mem s) q + j \<le> q" "q \<noteq> NULL"
proof -
  from assms obtain k j where kj: "heap_inv s" "heap_live s q = Some k" "48 \<le> k"
    "heap_live s (mq_buffer (mem s) q) = Some j" "unat (mq_msg_size (mem s) q) * unat (mq_max_msgs (mem s) q) \<le> j"
    "mq_buffer (mem s) q \<noteq> q" by (auto simp: mq_shape_def)
  from that [OF kj(1-5)] heap.live_disjoint [OF kj(1,2,4)] kj(6) heap.live_range [OF kj(1,2)]
    heap.live_range [OF kj(1,4)] show thesis by auto
qed

lemma slot_range: "i < n \<Longrightarrow> n * sz \<le> j \<Longrightarrow> (i * sz :: nat) + sz \<le> j"
  using mult_le_mono1 [of "Suc i" n sz] by simp

lemma slot_apart: "(i :: nat) \<noteq> i' \<Longrightarrow> i * sz + sz \<le> i' * sz \<or> i' * sz + sz \<le> i * sz"
  using mult_le_mono1 [of "Suc i" i' sz] mult_le_mono1 [of "Suc i'" i sz] by (cases "i < i'") auto

lemma slot_offset:
  assumes "unat (i :: size_t) < unat n" and "unat sz * unat n \<le> j" and "p + j < 2 ^ 64"
  shows "unat (i * sz) = unat i * unat sz"
proof -
  have "unat i * unat sz + unat sz \<le> j"
    by (rule slot_range [OF assms(1)]) (use assms(2) in \<open>simp add: mult.commute\<close>)
  then show ?thesis using assms(3) by (simp add: unat_word_ariths)
qed

lemma unat_mod_suc:
  assumes "unat (h :: size_t) < unat n"
  shows "unat ((h + 1) mod n) = (unat h + 1) mod unat n"
proof -
  have "unat h + 1 < 2 ^ 64" using assms unsigned_less [where w = n, where ?'a = nat] by simp
  then show ?thesis by (simp add: unat_mod unat_add_small)
qed

lemma ring_ne: "i < c \<Longrightarrow> c < n \<Longrightarrow> (t + i) mod n \<noteq> (t + c) mod (n :: nat)"
proof
  assume l: "i < c" "c < n" and e: "(t + i) mod n = (t + c) mod n"
  then have "n dvd (t + c) - (t + i)" by (metis add_le_cancel_left less_imp_le mod_eq_dvd_iff_nat)
  then have "n dvd c - i" by simp
  with l show False by (metis nat_dvd_not_less less_imp_diff_less zero_less_diff)
qed

section \<open>Send and receive\<close>

text \<open>The writes of \<open>mq_send\<close>, the message and then the two fields.\<close>

definition mq_append :: "heap_state \<Rightarrow> addr \<Rightarrow> addr \<Rightarrow> heap_state" where
  "mq_append s q msg = heap_store
     (\<lambda>m. set_mq_count q (mq_count (mem s) q + 1) (set_mq_head q ((mq_head (mem s) q + 1) mod mq_max_msgs (mem s) q) m))
     (heap_store (\<lambda>m. memcpy m (mq_slot (mem s) q (unat (mq_head (mem s) q))) msg (unat (mq_msg_size (mem s) q))) s)"

lemma send_writes:
  assumes shape: "mq_shape s q"
  shows "(let m = mem s;
              m1 = memcpy m (mq_buffer m q + unat (mq_head m q * mq_msg_size m q)) msg (unat (mq_msg_size m q));
              m2 = set_mq_head q ((mq_head m1 q + 1) mod mq_max_msgs m1 q) m1;
              m3 = set_mq_count q (mq_count m2 q + 1) m2
          in s\<lparr>mem := m3\<rparr>) = mq_append s q msg"
proof -
  define D where "D = mq_slot (mem s) q (unat (mq_head (mem s) q))"
  define sz where "sz = unat (mq_msg_size (mem s) q)"
  from mq_layout [OF shape] obtain k j where l: "48 \<le> k" "unat (mq_msg_size (mem s) q) * unat (mq_max_msgs (mem s) q) \<le> j"
    "mq_buffer (mem s) q + j < 2 ^ 64" "q + k \<le> mq_buffer (mem s) q \<or> mq_buffer (mem s) q + j \<le> q" "q \<noteq> NULL" by metis
  have h: "unat (mq_head (mem s) q) < unat (mq_max_msgs (mem s) q)" using shape by (simp add: mq_shape_def)
  have D: "mq_buffer (mem s) q + unat (mq_head (mem s) q * mq_msg_size (mem s) q) = D"
    unfolding D_def mq_slot_def slot_offset [OF h l(2,3)] ..
  have r: "unat (mq_head (mem s) q) * sz + sz \<le> j" unfolding sz_def
    by (rule slot_range [OF h]) (use l(2) in \<open>simp add: mult.commute\<close>)
  have "memcpy (mem s) D msg sz x = mem s x" if "q \<le> x" "x < q + 48" for x
    using that l(1,4) r by (intro memcpy_other) (auto simp: D_def mq_slot_def sz_def)
  note c = mq_fields_cong [of q "memcpy (mem s) D msg sz" "mem s", OF this]
  have hc: "mq_count (set_mq_head q v m) q = mq_count m q" for v m by (simp add: mq_fields mq_setters)
  show ?thesis
    using c unfolding mq_append_def Let_def D sz_def [symmetric] D_def [symmetric] hc
    by (simp add: heap_store_def)
qed

lemma send_state:
  assumes "mq_ok s q" and "unat (mq_count (mem s) q) < unat (mq_max_msgs (mem s) q)" and "msg \<noteq> NULL"
  shows "mq_send s q msg t = (mq_append s q msg, RTOS_OK)"
proof -
  note shape = mq_ok_shape [OF assms(1)]
  have "q \<noteq> NULL" using mq_layout [OF shape] by metis
  moreover have "\<not> mq_max_msgs (mem s) q \<le> mq_count (mem s) q" using assms(2) by (simp add: word_le_nat_alt)
  ultimately show ?thesis using send_writes [OF shape, of msg] assms(3) by (simp add: mq_send_def Let_def)
qed

lemma mem_in_block:
  assumes "mq_shape s q" and "i < unat (mq_max_msgs (mem s) q)"
    and x: "mq_slot (mem s) q i \<le> x" "x < mq_slot (mem s) q i + unat (mq_msg_size (mem s) q)"
  shows "x < q \<or> q + 48 \<le> x"
proof -
  from mq_layout [OF assms(1)] obtain k j where l: "48 \<le> k" "unat (mq_msg_size (mem s) q) * unat (mq_max_msgs (mem s) q) \<le> j"
    "q + k \<le> mq_buffer (mem s) q \<or> mq_buffer (mem s) q + j \<le> q" by metis
  have "i * unat (mq_msg_size (mem s) q) + unat (mq_msg_size (mem s) q) \<le> j"
    by (rule slot_range [OF assms(2)]) (use l(2) in \<open>simp add: mult.commute\<close>)
  with x l show ?thesis by (auto simp: mq_slot_def)
qed

text \<open>The writes of the two operations to the structure.\<close>

lemma mq_set_fields [simp]:
  "mq_buffer (set_mq_count q v m) q = mq_buffer m q" "mq_buffer (set_mq_head q v m) q = mq_buffer m q"
  "mq_buffer (set_mq_tail q v m) q = mq_buffer m q"
  "mq_msg_size (set_mq_count q v m) q = mq_msg_size m q" "mq_msg_size (set_mq_head q v m) q = mq_msg_size m q"
  "mq_msg_size (set_mq_tail q v m) q = mq_msg_size m q"
  "mq_max_msgs (set_mq_count q v m) q = mq_max_msgs m q" "mq_max_msgs (set_mq_head q v m) q = mq_max_msgs m q"
  "mq_max_msgs (set_mq_tail q v m) q = mq_max_msgs m q"
  "mq_count (set_mq_count q v m) q = v" "mq_count (set_mq_head q v m) q = mq_count m q"
  "mq_count (set_mq_tail q v m) q = mq_count m q"
  "mq_head (set_mq_count q v m) q = mq_head m q" "mq_head (set_mq_head q v m) q = v"
  "mq_head (set_mq_tail q v m) q = mq_head m q"
  "mq_tail (set_mq_count q v m) q = mq_tail m q" "mq_tail (set_mq_head q v m) q = mq_tail m q"
  "mq_tail (set_mq_tail q v m) q = v"
  by (simp_all add: mq_fields mq_setters)

lemma mq_set_other [frames]:
  "x < q \<or> q + 48 \<le> x \<Longrightarrow> set_mq_count q v m x = m x" "x < q \<or> q + 48 \<le> x \<Longrightarrow> set_mq_head q v m x = m x"
  "x < q \<or> q + 48 \<le> x \<Longrightarrow> set_mq_tail q v m x = m x"
  by (auto simp: mq_setters frames)

lemma unat_count_suc:
  assumes "unat (c :: size_t) < unat (n :: size_t)"
  shows "unat (c + 1) = unat c + 1"
proof -
  have "unat c + 1 < 2 ^ 64" using assms unsigned_less [where w = n, where ?'a = nat] by simp
  then show ?thesis by (simp add: unat_add_small)
qed

text \<open>A slot after a copy into slot \<open>h\<close> and writes to the structure.\<close>

lemma slot_after:
  assumes ok: "mq_shape s q" and i: "i < unat (mq_max_msgs (mem s) q)"
    and g: "\<And>m x. x < q \<or> q + 48 \<le> x \<Longrightarrow> g m x = m x"
  shows "bytes_at (g (memcpy (mem s) (mq_slot (mem s) q h) msg (unat (mq_msg_size (mem s) q)))) (mq_slot (mem s) q i)
      (unat (mq_msg_size (mem s) q))
    = (if i = h then bytes_at (mem s) msg (unat (mq_msg_size (mem s) q))
       else bytes_at (mem s) (mq_slot (mem s) q i) (unat (mq_msg_size (mem s) q)))" (is "bytes_at (g ?m1) ?a ?sz = _")
proof -
  have "bytes_at (g ?m1) ?a ?sz = bytes_at ?m1 ?a ?sz"
    by (rule bytes_at_cong) (use mem_in_block [OF ok i] g in blast)
  moreover have "bytes_at ?m1 ?a ?sz = bytes_at (mem s) ?a ?sz" if "i \<noteq> h"
    using slot_apart [OF that, of ?sz] by (intro bytes_at_cong memcpy_other) (auto simp: mq_slot_def)
  ultimately show ?thesis by (simp add: bytes_at_memcpy)
qed

text \<open>The items when the counter and an end of the ring move.\<close>

lemma items_push:
  assumes same: "mq_buffer m' q = mq_buffer m q" "mq_msg_size m' q = mq_msg_size m q" "mq_max_msgs m' q = mq_max_msgs m q"
      "mq_tail m' q = mq_tail m q"
    and c: "unat (mq_count m' q) = unat (mq_count m q) + 1" "unat (mq_count m q) < unat (mq_max_msgs m q)"
    and slots: "\<And>i. i < unat (mq_max_msgs m q) \<Longrightarrow> bytes_at m' (mq_slot m q i) (unat (mq_msg_size m q))
      = (if i = (unat (mq_tail m q) + unat (mq_count m q)) mod unat (mq_max_msgs m q) then v
         else bytes_at m (mq_slot m q i) (unat (mq_msg_size m q)))"
  shows "mq_items m' q = mq_items m q @ [v]"
proof -
  have "mq_slot m' q i = mq_slot m q i" for i by (simp add: mq_slot_def same)
  moreover have "i mod unat (mq_max_msgs m q) < unat (mq_max_msgs m q)" for i using c(2) by simp
  moreover note ring_ne [OF _ c(2), of _ "unat (mq_tail m q)"]
  ultimately show ?thesis by (simp add: mq_items_def same c(1) slots)
qed

lemma items_pop:
  assumes same: "mq_buffer m' q = mq_buffer m q" "mq_msg_size m' q = mq_msg_size m q" "mq_max_msgs m' q = mq_max_msgs m q"
    and t: "unat (mq_tail m' q) = (unat (mq_tail m q) + 1) mod unat (mq_max_msgs m q)" "unat (mq_tail m q) < unat (mq_max_msgs m q)"
    and c: "unat (mq_count m' q) = unat (mq_count m q) - 1" "0 < unat (mq_count m q)"
    and slots: "\<And>i. i < unat (mq_max_msgs m q) \<Longrightarrow> bytes_at m' (mq_slot m q i) (unat (mq_msg_size m q))
      = bytes_at m (mq_slot m q i) (unat (mq_msg_size m q))"
  shows "mq_items m q = bytes_at m (mq_slot m q (unat (mq_tail m q))) (unat (mq_msg_size m q)) # mq_items m' q"
proof -
  have "[0..<unat (mq_count m q)] = 0 # map Suc [0..<unat (mq_count m q) - 1]"
    using c(2) by (simp add: map_Suc_upt upt_conv_Cons)
  moreover have "((unat (mq_tail m q) + 1) mod k + i) mod k = (unat (mq_tail m q) + Suc i) mod k" for i k
    by (simp add: mod_add_left_eq)
  moreover have "mq_slot m' q i = mq_slot m q i" for i by (simp add: mq_slot_def same)
  ultimately show ?thesis using t(2) by (simp add: mq_items_def same t(1) c(1) slots)
qed

lemma ring_pop: "0 < c \<Longrightarrow> ((t + 1) mod n + (c - 1)) mod n = (t + c) mod (n :: nat)"
  using mod_add_left_eq [of "t + 1" n "c - 1"] by simp

text \<open>Writes to the structure leave the rest of the heap and the slots alone.\<close>

lemma structure_store:
  assumes ok: "mq_shape s q" and g: "\<And>m x. x < q \<or> q + 48 \<le> x \<Longrightarrow> g m x = m x"
  shows "others_kept s (heap_store g s) {q}"
    and "i < unat (mq_max_msgs (mem s) q) \<Longrightarrow> bytes_at (g (mem s)) (mq_slot (mem s) q i) (unat (mq_msg_size (mem s) q))
      = bytes_at (mem s) (mq_slot (mem s) q i) (unat (mq_msg_size (mem s) q))"
proof -
  from mq_layout [OF ok] obtain k where l: "heap_inv s" "heap_live s q = Some k" "48 \<le> k" by metis
  have "inside q k g" using l(3) g by (auto simp: inside_def)
  from block_store [OF l(1,2) this, of "{q}"] show "others_kept s (heap_store g s) {q}" by simp
  show "bytes_at (g (mem s)) (mq_slot (mem s) q i) (unat (mq_msg_size (mem s) q))
      = bytes_at (mem s) (mq_slot (mem s) q i) (unat (mq_msg_size (mem s) q))" if "i < unat (mq_max_msgs (mem s) q)"
    by (rule bytes_at_cong) (use mem_in_block [OF ok that] g in blast)
qed

text \<open>What the writes do, however many messages wait: the message goes into the slot at the head.\<close>

lemma append_effect:
  assumes shape: "mq_shape s q"
  shows "mq_shape (mq_append s q msg) q" and "others_kept s (mq_append s q msg) {q, mq_buffer (mem s) q}"
    and "mq_buffer (mem (mq_append s q msg)) q = mq_buffer (mem s) q"
    and "mq_msg_size (mem (mq_append s q msg)) q = mq_msg_size (mem s) q"
    and "mq_max_msgs (mem (mq_append s q msg)) q = mq_max_msgs (mem s) q"
    and "mq_tail (mem (mq_append s q msg)) q = mq_tail (mem s) q"
    and "mq_count (mem (mq_append s q msg)) q = mq_count (mem s) q + 1"
    and "unat (mq_head (mem (mq_append s q msg)) q) = (unat (mq_head (mem s) q) + 1) mod unat (mq_max_msgs (mem s) q)"
    and "i < unat (mq_max_msgs (mem s) q) \<Longrightarrow>
      bytes_at (mem (mq_append s q msg)) (mq_slot (mem s) q i) (unat (mq_msg_size (mem s) q))
      = (if i = unat (mq_head (mem s) q) then bytes_at (mem s) msg (unat (mq_msg_size (mem s) q))
         else bytes_at (mem s) (mq_slot (mem s) q i) (unat (mq_msg_size (mem s) q)))"
    and "heap_memory (mq_append s q msg) = heap_memory s"
    and "outside_heap s p n \<Longrightarrow> bytes_at (mem (mq_append s q msg)) p n = bytes_at (mem s) p n"
proof -
  from mq_layout [OF shape] obtain k j where l: "heap_inv s" "heap_live s q = Some k" "48 \<le> k"
    "heap_live s (mq_buffer (mem s) q) = Some j" "unat (mq_msg_size (mem s) q) * unat (mq_max_msgs (mem s) q) \<le> j"
    "q + k \<le> mq_buffer (mem s) q \<or> mq_buffer (mem s) q + j \<le> q" by metis
  let ?m = "mem s" and ?n = "unat (mq_max_msgs (mem s) q)" and ?s' = "mq_append s q msg"
  define sz where "sz = unat (mq_msg_size ?m q)"
  define h where "h = unat (mq_head ?m q)"
  define f where "f = (\<lambda>m. memcpy m (mq_slot ?m q h) msg sz)"
  define g where "g = (\<lambda>m. set_mq_count q (mq_count ?m q + 1) (set_mq_head q ((mq_head ?m q + 1) mod mq_max_msgs ?m q) m))"
  have s': "?s' = heap_store g (heap_store f s)" by (simp add: mq_append_def f_def g_def sz_def h_def)
  have h: "h < ?n" using shape by (simp add: mq_shape_def h_def)
  have "h * sz + sz \<le> j" unfolding sz_def by (rule slot_range [OF h(1)]) (use l(5) in \<open>simp add: mult.commute\<close>)
  then have insf: "inside (mq_buffer ?m q) j f" by (auto simp: inside_def f_def mq_slot_def sz_def frames)
  have insg: "inside q k g" using l(3) by (auto simp: inside_def g_def mq_setters frames)
  note k1 = block_store [OF l(1,4) insf, of "{q, mq_buffer ?m q}"]
  then have "heap_inv (heap_store f s)" "heap_live (heap_store f s) q = Some k" using l(2) by (auto simp: others_kept_def)
  note k2 = block_store [OF this insg, of "{q, mq_buffer ?m q}"]
  show kept: "others_kept s ?s' {q, mq_buffer ?m q}" using k1 k2 by (simp add: others_kept_def s')
  have "f m x = m x" if "q \<le> x" "x < q + 48" for m x
    using that l(3,6) insf by (auto simp: inside_def)
  note fld = mq_fields_cong [of q "f ?m" ?m, OF this]
  show fields: "mq_buffer (mem ?s') q = mq_buffer ?m q" "mq_msg_size (mem ?s') q = mq_msg_size ?m q"
    "mq_max_msgs (mem ?s') q = mq_max_msgs ?m q" "mq_tail (mem ?s') q = mq_tail ?m q"
    "mq_count (mem ?s') q = mq_count ?m q + 1"
    using fld by (simp_all add: s' g_def)
  show head: "unat (mq_head (mem ?s') q) = (unat (mq_head ?m q) + 1) mod ?n"
    using unat_mod_suc [of "mq_head ?m q" "mq_max_msgs ?m q"] h by (simp add: s' g_def h_def)
  show "mq_shape ?s' q"
    using shape kept h unfolding mq_shape_def fields head others_kept_def by simp
  show "bytes_at (mem ?s') (mq_slot ?m q i) (unat (mq_msg_size ?m q))
      = (if i = unat (mq_head ?m q) then bytes_at ?m msg (unat (mq_msg_size ?m q))
         else bytes_at ?m (mq_slot ?m q i) (unat (mq_msg_size ?m q)))" if "i < ?n"
    using slot_after [OF shape that, of g h msg] by (simp add: s' f_def sz_def g_def h_def frames)
  show "heap_memory ?s' = heap_memory s" by (simp add: s' heap_store_def)
  show "bytes_at (mem ?s') p n = bytes_at ?m p n" if "outside_heap s p n"
  proof (rule bytes_at_cong)
    fix x assume "p \<le> x" "x < p + n"
    with that have "x < heap_memory s \<or> heap_memory s + HEAP_SIZE \<le> x" by (auto simp: outside_heap_def)
    with insf insg live_in_heap [OF l(1,2)] live_in_heap [OF l(1,4)] show "mem ?s' x = ?m x"
      by (auto simp: inside_def s' heap_store_def)
  qed
qed

lemma send_ok:
  assumes ok: "mq_ok s q" and room: "unat (mq_count (mem s) q) < unat (mq_max_msgs (mem s) q)" and msg: "msg \<noteq> NULL"
  shows "\<exists>s'. mq_send s q msg t = (s', RTOS_OK) \<and> mq_ok s' q
    \<and> mq_items (mem s') q = mq_items (mem s) q @ [bytes_at (mem s) msg (unat (mq_msg_size (mem s) q))]
    \<and> others_kept s s' {q, mq_buffer (mem s) q} \<and> heap_memory s' = heap_memory s
    \<and> mq_msg_size (mem s') q = mq_msg_size (mem s) q \<and> mq_max_msgs (mem s') q = mq_max_msgs (mem s) q
    \<and> mq_buffer (mem s') q = mq_buffer (mem s) q"
proof -
  note e = append_effect [where msg = msg, OF mq_ok_shape [OF ok]]
  have cnt: "unat (mq_count (mem s) q + 1) = unat (mq_count (mem s) q) + 1" by (rule unat_count_suc [OF room])
  have head: "unat (mq_head (mem s) q) = (unat (mq_tail (mem s) q) + unat (mq_count (mem s) q)) mod unat (mq_max_msgs (mem s) q)"
    using ok by (simp add: mq_ok_def)
  have "mq_ok (mq_append s q msg) q"
    using ok room e(2) head unfolding mq_ok_def e(3-8) cnt others_kept_def by (simp add: mod_Suc_eq)
  moreover have "mq_items (mem (mq_append s q msg)) q = mq_items (mem s) q @ [bytes_at (mem s) msg (unat (mq_msg_size (mem s) q))]"
    by (rule items_push [OF e(3-6)]) (use e(7,9) cnt room head in simp_all)
  ultimately show ?thesis using send_state [OF ok room msg] e(2-5,10) by simp
qed

text \<open>What \<open>mq_ok\<close> and the items depend on: the structure and the buffer.\<close>

lemma mq_same:
  assumes ok: "mq_ok s q" and inv: "heap_inv s'" and same: "block_same s s' q" "block_same s s' (mq_buffer (mem s) q)"
  shows "mq_ok s' q \<and> mq_items (mem s') q = mq_items (mem s) q
    \<and> mq_buffer (mem s') q = mq_buffer (mem s) q \<and> mq_msg_size (mem s') q = mq_msg_size (mem s) q
    \<and> mq_max_msgs (mem s') q = mq_max_msgs (mem s) q \<and> mq_tail (mem s') q = mq_tail (mem s) q
    \<and> mq_count (mem s') q = mq_count (mem s) q
    \<and> (\<forall>i<unat (mq_max_msgs (mem s) q). bytes_at (mem s') (mq_slot (mem s) q i) (unat (mq_msg_size (mem s) q))
         = bytes_at (mem s) (mq_slot (mem s) q i) (unat (mq_msg_size (mem s) q)))"
proof -
  from mq_layout [OF mq_ok_shape [OF ok]] obtain k j where l: "heap_live s q = Some k" "48 \<le> k"
    "heap_live s (mq_buffer (mem s) q) = Some j" "unat (mq_msg_size (mem s) q) * unat (mq_max_msgs (mem s) q) \<le> j" by metis
  have "mem s' x = mem s x" if "q \<le> x" "x < q + 48" for x
    using block_same_bytes [OF same(1) l(1)] that l(2) by simp
  note fld = mq_fields_cong [OF this]
  have slots: "bytes_at (mem s') (mq_slot (mem s) q i) (unat (mq_msg_size (mem s) q))
      = bytes_at (mem s) (mq_slot (mem s) q i) (unat (mq_msg_size (mem s) q))" if "i < unat (mq_max_msgs (mem s) q)" for i
  proof -
    have "i * unat (mq_msg_size (mem s) q) + unat (mq_msg_size (mem s) q) \<le> j"
      by (rule slot_range [OF that]) (use l(4) in \<open>simp add: mult.commute\<close>)
    then show ?thesis
      using block_same_bytes [OF same(2) l(3)] by (intro bytes_at_cong) (simp add: mq_slot_def)
  qed
  have "0 < unat (mq_max_msgs (mem s) q)" using ok by (simp add: mq_ok_def)
  then have "mq_items (mem s') q = mq_items (mem s) q"
    using slots by (simp add: mq_items_def fld mq_slot_def)
  moreover have "mq_ok s' q" using ok inv same by (simp add: mq_ok_def block_same_def fld)
  ultimately show ?thesis using slots by (simp add: fld)
qed

interpretation queue: heap_object mq_ok "\<lambda>m q. {q, mq_buffer m q}" "\<lambda>m q. (mq_items m q, mq_msg_size m q, mq_max_msgs m q)"
proof
  show "heap_live s p \<noteq> None" if "mq_ok s q" "p \<in> {q, mq_buffer (mem s) q}" for s q p
    using that by (auto simp: mq_ok_def)
  show "mq_ok s' q \<and> {q, mq_buffer (mem s') q} = {q, mq_buffer (mem s) q}
      \<and> (mq_items (mem s') q, mq_msg_size (mem s') q, mq_max_msgs (mem s') q) = (mq_items (mem s) q, mq_msg_size (mem s) q, mq_max_msgs (mem s) q)"
    if "mq_ok s q" "heap_inv s'" "\<forall>p\<in>{q, mq_buffer (mem s) q}. block_same s s' p" for s q s'
    using mq_same [OF that(1,2)] that(3) by auto
qed

lemma others_kept_inv: "others_kept s s' A \<Longrightarrow> heap_inv s'"
  by (simp add: others_kept_def)

text \<open>The writes of \<open>mq_receive\<close>, to the client's buffer and then to the two fields.\<close>

definition mq_remove :: "heap_state \<Rightarrow> addr \<Rightarrow> addr \<Rightarrow> heap_state" where
  "mq_remove s q msg = heap_store
      (\<lambda>m. set_mq_count q (mq_count (mem s) q - 1) (set_mq_tail q ((mq_tail (mem s) q + 1) mod mq_max_msgs (mem s) q) m))
      (heap_store (\<lambda>m. memcpy m msg (mq_slot (mem s) q (unat (mq_tail (mem s) q))) (unat (mq_msg_size (mem s) q))) s)"

lemma receive_writes:
  assumes shape: "mq_shape s q" and out: "outside_heap s msg (unat (mq_msg_size (mem s) q))"
  shows "(let m = mem s;
              m1 = memcpy m msg (mq_buffer m q + unat (mq_tail m q * mq_msg_size m q)) (unat (mq_msg_size m q));
              m2 = set_mq_tail q ((mq_tail m1 q + 1) mod mq_max_msgs m1 q) m1;
              m3 = set_mq_count q (mq_count m2 q - 1) m2
          in s\<lparr>mem := m3\<rparr>) = mq_remove s q msg"
proof -
  from mq_layout [OF shape] obtain k j where l: "heap_inv s" "heap_live s q = Some k" "48 \<le> k"
    "unat (mq_msg_size (mem s) q) * unat (mq_max_msgs (mem s) q) \<le> j" "mq_buffer (mem s) q + j < 2 ^ 64" by metis
  have t: "unat (mq_tail (mem s) q) < unat (mq_max_msgs (mem s) q)" using shape by (simp add: mq_shape_def)
  have D: "mq_buffer (mem s) q + unat (mq_tail (mem s) q * mq_msg_size (mem s) q) = mq_slot (mem s) q (unat (mq_tail (mem s) q))"
    unfolding mq_slot_def slot_offset [OF t l(4,5)] ..
  define m1 where "m1 = memcpy (mem s) msg (mq_slot (mem s) q (unat (mq_tail (mem s) q))) (unat (mq_msg_size (mem s) q))"
  have "m1 x = mem s x" if "q \<le> x" "x < q + 48" for x
    using that out live_in_heap [OF l(1,2)] l(3) unfolding m1_def outside_heap_def by (intro memcpy_other) auto
  note c = mq_fields_cong [OF this]
  then show ?thesis unfolding mq_remove_def Let_def D m1_def [symmetric] by (simp add: heap_store_def m1_def)
qed

lemma receive_state:
  assumes shape: "mq_shape s q" and some: "0 < unat (mq_count (mem s) q)" and msg: "msg \<noteq> NULL"
    and out: "outside_heap s msg (unat (mq_msg_size (mem s) q))"
  shows "mq_receive s q msg t = (mq_remove s q msg, RTOS_OK)"
proof -
  have "q \<noteq> NULL" using mq_layout [OF shape] by metis
  moreover have "mq_count (mem s) q \<noteq> 0" using some by auto
  ultimately show ?thesis using receive_writes [OF shape out] msg by (simp add: mq_receive_def Let_def)
qed

text \<open>What they do, however many messages wait: the client gets the message in the slot at the tail.\<close>

lemma remove_effect:
  assumes shape: "mq_shape s q" and out: "outside_heap s msg (unat (mq_msg_size (mem s) q))"
  shows "mq_shape (mq_remove s q msg) q" and "others_kept s (mq_remove s q msg) {q}"
    and "mq_buffer (mem (mq_remove s q msg)) q = mq_buffer (mem s) q"
    and "mq_msg_size (mem (mq_remove s q msg)) q = mq_msg_size (mem s) q"
    and "mq_max_msgs (mem (mq_remove s q msg)) q = mq_max_msgs (mem s) q"
    and "mq_head (mem (mq_remove s q msg)) q = mq_head (mem s) q"
    and "mq_count (mem (mq_remove s q msg)) q = mq_count (mem s) q - 1"
    and "unat (mq_tail (mem (mq_remove s q msg)) q) = (unat (mq_tail (mem s) q) + 1) mod unat (mq_max_msgs (mem s) q)"
    and "i < unat (mq_max_msgs (mem s) q) \<Longrightarrow>
      bytes_at (mem (mq_remove s q msg)) (mq_slot (mem s) q i) (unat (mq_msg_size (mem s) q))
      = bytes_at (mem s) (mq_slot (mem s) q i) (unat (mq_msg_size (mem s) q))"
    and "bytes_at (mem (mq_remove s q msg)) msg (unat (mq_msg_size (mem s) q))
      = bytes_at (mem s) (mq_slot (mem s) q (unat (mq_tail (mem s) q))) (unat (mq_msg_size (mem s) q))"
    and "heap_memory (mq_remove s q msg) = heap_memory s"
proof -
  from mq_layout [OF shape] obtain k j where l: "heap_inv s" "heap_live s q = Some k" "48 \<le> k"
    "heap_live s (mq_buffer (mem s) q) = Some j" "unat (mq_msg_size (mem s) q) * unat (mq_max_msgs (mem s) q) \<le> j" by metis
  let ?m = "mem s" and ?n = "unat (mq_max_msgs (mem s) q)" and ?t = "unat (mq_tail (mem s) q)" and ?s' = "mq_remove s q msg"
  define sz where "sz = unat (mq_msg_size ?m q)"
  define f where "f = (\<lambda>m. memcpy m msg (mq_slot ?m q ?t) sz)"
  define g where "g = (\<lambda>m. set_mq_count q (mq_count ?m q - 1) (set_mq_tail q ((mq_tail ?m q + 1) mod mq_max_msgs ?m q) m))"
  define s1 where "s1 = heap_store f s"
  have s': "?s' = heap_store g s1" by (simp add: mq_remove_def s1_def f_def g_def sz_def)
  have "inside msg sz f" by (auto simp: inside_def f_def frames)
  note k1 = outside_store [OF l(1) out [folded sz_def] this, of "{}", folded s1_def]
  have same: "mem s1 x = ?m x" if "heap_memory s \<le> x" "x < heap_memory s + HEAP_SIZE" for x
    using that out unfolding s1_def f_def heap_store_def outside_heap_def sz_def by (simp add: frames) (intro memcpy_other; auto)
  have "mem s1 x = ?m x" if "q \<le> x" "x < q + 48" for x
    using that same live_in_heap [OF l(1,2)] l(3) by auto
  note fld = mq_fields_cong [OF this]
  have shape1: "mq_shape s1 q" using shape k1 by (simp add: mq_shape_def fld others_kept_def)
  have g: "g m x = m x" if "x < q \<or> q + 48 \<le> x" for m x using that by (simp add: g_def frames)
  note g1 = structure_store [where g = g, OF shape1 g]
  show kept: "others_kept s ?s' {q}" using k1 g1(1) by (simp add: others_kept_def s')
  show fields: "mq_buffer (mem ?s') q = mq_buffer ?m q" "mq_msg_size (mem ?s') q = mq_msg_size ?m q"
    "mq_max_msgs (mem ?s') q = mq_max_msgs ?m q" "mq_head (mem ?s') q = mq_head ?m q" "mq_count (mem ?s') q = mq_count ?m q - 1"
    using fld by (simp_all add: s' g_def)
  have t: "?t < ?n" using shape by (simp add: mq_shape_def)
  show tail: "unat (mq_tail (mem ?s') q) = (?t + 1) mod ?n"
    using unat_mod_suc [OF t] by (simp add: s' g_def)
  show "mq_shape ?s' q" using shape kept t unfolding mq_shape_def fields tail others_kept_def by simp
  show "bytes_at (mem ?s') (mq_slot ?m q i) (unat (mq_msg_size ?m q)) = bytes_at ?m (mq_slot ?m q i) (unat (mq_msg_size ?m q))"
    if i: "i < ?n"
  proof -
    have "i * unat (mq_msg_size ?m q) + unat (mq_msg_size ?m q) \<le> j"
      by (rule slot_range [OF i]) (use l(5) in \<open>simp add: mult.commute\<close>)
    then have "bytes_at (mem s1) (mq_slot ?m q i) (unat (mq_msg_size ?m q)) = bytes_at ?m (mq_slot ?m q i) (unat (mq_msg_size ?m q))"
      using live_in_heap [OF l(1,4)] same by (intro bytes_at_cong) (simp add: mq_slot_def)
    then show ?thesis using g1(2) [of i] i by (simp add: s' fld mq_slot_def)
  qed
  have "bytes_at (mem ?s') msg sz = bytes_at (mem s1) msg sz"
    using out live_in_heap [OF l(1,2)] l(3) by (intro bytes_at_cong) (auto simp: s' g_def outside_heap_def sz_def frames)
  then show "bytes_at (mem ?s') msg (unat (mq_msg_size ?m q)) = bytes_at ?m (mq_slot ?m q ?t) (unat (mq_msg_size ?m q))"
    by (simp add: s1_def f_def bytes_at_memcpy sz_def)
  show "heap_memory ?s' = heap_memory s" by (simp add: s' s1_def heap_store_def)
qed

lemma receive_ok:
  assumes ok: "mq_ok s q" and some: "0 < unat (mq_count (mem s) q)" and msg: "msg \<noteq> NULL"
    and out: "outside_heap s msg (unat (mq_msg_size (mem s) q))"
  shows "\<exists>s'. mq_receive s q msg t = (s', RTOS_OK) \<and> mq_ok s' q
    \<and> mq_items (mem s) q = bytes_at (mem s') msg (unat (mq_msg_size (mem s) q)) # mq_items (mem s') q
    \<and> others_kept s s' {q} \<and> heap_memory s' = heap_memory s
    \<and> mq_msg_size (mem s') q = mq_msg_size (mem s) q \<and> mq_max_msgs (mem s') q = mq_max_msgs (mem s) q
    \<and> mq_buffer (mem s') q = mq_buffer (mem s) q"
proof -
  let ?n = "unat (mq_max_msgs (mem s) q)" and ?c = "unat (mq_count (mem s) q)" and ?t = "unat (mq_tail (mem s) q)"
  note e = remove_effect [where msg = msg, OF mq_ok_shape [OF ok] out]
  have "mq_count (mem s) q \<noteq> 0" using some by auto
  from unat_minus_one [OF this] have cnt: "unat (mq_count (mem s) q - 1) = ?c - 1" by simp
  have t: "?t < ?n" and head: "unat (mq_head (mem s) q) = (?t + ?c) mod ?n" using ok by (simp_all add: mq_ok_def)
  have "unat (mq_head (mem s) q) = ((?t + 1) mod ?n + (?c - 1)) mod ?n" using head ring_pop [OF some, of ?t ?n] by simp
  then have "mq_ok (mq_remove s q msg) q"
    using ok e(2) t some unfolding mq_ok_def e(3-8) cnt others_kept_def by auto
  moreover have "mq_items (mem s) q = bytes_at (mem (mq_remove s q msg)) msg (unat (mq_msg_size (mem s) q)) # mq_items (mem (mq_remove s q msg)) q"
    using items_pop [OF e(3-5) e(8) t _ some e(9)] e(7,10) cnt by simp
  ultimately show ?thesis using receive_state [OF mq_ok_shape [OF ok] some msg out] e(2-5,11) by simp
qed

section \<open>Creation and destruction\<close>

text \<open>The structure of a new queue.\<close>

lemma mq_header:
  assumes inv: "heap_inv s" and live: "heap_live s q = Some k" "48 \<le> k" "heap_live s b = Some j" "b \<noteq> q"
    and size: "unat msg_size * unat max_msgs \<le> j" "0 < unat msg_size" "0 < unat max_msgs"
    and f: "f = (\<lambda>m. set_mq_tail q 0 (set_mq_head q 0 (set_mq_count q 0
                  (wr_size (wr_size (wr_ptr m q b) (q + 8) msg_size) (q + 16) max_msgs))))"
  shows "others_kept s (heap_store f s) {q}" and "mq_ok (heap_store f s) q" and "mq_items (f (mem s)) q = []"
    and "mq_msg_size (f (mem s)) q = msg_size" and "mq_max_msgs (f (mem s)) q = max_msgs" and "mq_buffer (f (mem s)) q = b"
proof -
  have "inside q k f" using live(2) by (auto simp: inside_def f mq_setters frames)
  from block_store [OF inv live(1) this, of "{q}"] show o: "others_kept s (heap_store f s) {q}" by simp
  have "b < 2 ^ 64" using heap.live_range [OF inv live(3)] by simp
  then have fld: "mq_buffer (f m) q = b" "mq_msg_size (f m) q = msg_size" "mq_max_msgs (f m) q = max_msgs"
    "mq_count (f m) q = 0" "mq_head (f m) q = 0" "mq_tail (f m) q = 0" for m
    by (simp_all add: f) (simp_all add: mq_fields)
  show "mq_ok (heap_store f s) q" using o live size by (simp add: mq_ok_def fld others_kept_def)
  show "mq_items (f (mem s)) q = []" "mq_msg_size (f (mem s)) q = msg_size" "mq_max_msgs (f (mem s)) q = max_msgs"
    "mq_buffer (f (mem s)) q = b" by (simp_all add: mq_items_def fld)
qed

text \<open>A failed creation gives back what it had allocated; a new queue is empty and consists of two fresh
  blocks. A request for zero bytes of buffer (a size that is zero) fails in \<open>rtos_malloc\<close>.\<close>

lemma mq_create_outcome:
  assumes inv: "heap_inv s" and fits: "unat msg_size * unat max_msgs \<le> 2 ^ 64 - 4"
  shows "\<exists>s' q. mq_create s msg_size max_msgs = Some (s', q) \<and> heap_inv s' \<and>
    (if q = NULL then touches s s' {}
     else mq_ok s' q \<and> mq_items (mem s') q = [] \<and> mq_msg_size (mem s') q = msg_size
        \<and> mq_max_msgs (mem s') q = max_msgs \<and> touches s s' {q, mq_buffer (mem s') q}
        \<and> heap_live s q = None \<and> heap_live s (mq_buffer (mem s') q) = None)"
proof -
  have prod: "unat (msg_size * max_msgs) = unat msg_size * unat max_msgs" using fits by (simp add: unat_word_ariths)
  show ?thesis
  proof (cases rule: heap.malloc_cases [OF inv, of sizeof_mq])
    case 1
    with inv show ?thesis by (simp add: mq_create_def touches_refl)
  next
    case first: (2 s1 q k)
    have k: "48 \<le> k" using first(5) by (simp add: sizeof_mq_def)
    have q: "heap_live s1 q = Some k" by (simp add: first(4))
    note t1 = malloc_touches [OF first(1) inv]
    show ?thesis
    proof (cases rule: heap.malloc_cases [OF first(6), of "msg_size * max_msgs"])
      case 1
      have ins: "inside q k (\<lambda>m. wr_ptr m q 0)" using k by (auto simp: inside_def frames)
      from block_store [OF first(6) q ins, of "{q}"] have o: "others_kept s1 (heap_store (\<lambda>m. wr_ptr m q 0) s1) {q}" by simp
      then have live: "heap_live (heap_store (\<lambda>m. wr_ptr m q 0) s1) q = Some k" using q by (simp add: others_kept_def)
      from heap.free_live [OF others_kept_inv [OF o] live] obtain s4 where
        s4: "rtos_free (heap_store (\<lambda>m. wr_ptr m q 0) s1) q = Some s4" by blast
      note f = free_touches [OF s4 others_kept_inv [OF o] live]
      have "touches s s4 {q}" using touches_trans [OF touches_trans [OF t1 others_kept_touches [OF o]] f(1)] by simp
      then have "touches s s4 {}" using first(3) f(2) by (intro touches_back [of s s4]) auto
      with 1 first(1,2) s4 touches_inv [OF f(1)] show ?thesis by (simp add: mq_create_def)
    next
      case (2 s2 b j)
      have bq: "b \<noteq> q" "heap_live s b = None" using 2(3) first(4) by (auto split: if_splits)
      have j: "unat msg_size * unat max_msgs \<le> j" using 2(5) fits by (simp add: prod)
      have q2: "heap_live s2 q = Some k" "heap_live s2 b = Some j" using q 2(4) bq by auto
      have "msg_size * max_msgs \<noteq> 0" using 2(1,2) heap.malloc_zero [of s1] by auto
      then have sz: "0 < unat msg_size" "0 < unat max_msgs" by (auto simp: unat_gt_0)
      define f where "f = (\<lambda>m. set_mq_tail q 0 (set_mq_head q 0 (set_mq_count q 0
                         (wr_size (wr_size (wr_ptr m q b) (q + 8) msg_size) (q + 16) max_msgs))))"
      have run: "mq_create s msg_size max_msgs = Some (heap_store f s2, q)"
        using first(1,2) 2(1,2) by (simp add: mq_create_def heap_store_def f_def)
      note h = mq_header [OF 2(6) q2(1) k q2(2) bq(1) j sz f_def]
      have "touches s (heap_store f s2) {q, b}"
        using touches_trans [OF touches_trans [OF t1 malloc_touches [OF 2(1) first(6)]] others_kept_touches [OF h(1)]]
        by (simp add: insert_commute)
      then show ?thesis using run first(2,3) bq(2) others_kept_inv [OF h(1)] h(2-6) by simp
    qed
  qed
qed

lemma mq_destroy_outcome:
  assumes ok: "mq_ok s q"
  obtains s' where "mq_destroy s q = Some s'" and "touches s s' {q, mq_buffer (mem s) q}"
    and "heap_live s' = (heap_live s)(q := None, mq_buffer (mem s) q := None)"
proof -
  from mq_layout [OF mq_ok_shape [OF ok]] obtain k j where l: "heap_inv s" "heap_live s q = Some k"
    "heap_live s (mq_buffer (mem s) q) = Some j" "q \<noteq> NULL" by metis
  have ne: "q \<noteq> mq_buffer (mem s) q" using ok by (simp add: mq_ok_def)
  from heap.free_live [OF l(1,3)] obtain s1 where s1: "rtos_free s (mq_buffer (mem s) q) = Some s1" by blast
  note f1 = free_touches [OF s1 l(1,3)]
  have q1: "heap_live s1 q = Some k" using f1(2) l(2) ne by simp
  from heap.free_live [OF touches_inv [OF f1(1)] q1] obtain s2 where s2: "rtos_free s1 q = Some s2" by blast
  note f2 = free_touches [OF s2 touches_inv [OF f1(1)] q1]
  show thesis
  proof (rule that [of s2])
    show "mq_destroy s q = Some s2" using s1 s2 l(4) by (simp add: mq_destroy_def)
    show "touches s s2 {q, mq_buffer (mem s) q}" using touches_trans [OF f1(1) f2(1)] by (simp add: insert_commute)
    show "heap_live s2 = (heap_live s)(q := None, mq_buffer (mem s) q := None)" using f1(2) f2(2) ne by (simp add: fun_upd_twist)
  qed
qed

end
