(* ===== verification/Ring_Buffer.thy ===== *)
theory Ring_Buffer imports Uart Message_Queue begin

text \<open>
  The circular buffers of the UART driver: \<open>cb_ok\<close> is the invariant, \<open>cb_items\<close> the bytes
  waiting, oldest first. They are a provider of the contract \<open>bounded_fifo\<close>.
\<close>

section \<open>The invariant\<close>

definition cb_ok :: "heap_state \<Rightarrow> circular_buffer \<Rightarrow> bool" where
  "cb_ok s cb \<longleftrightarrow> heap_inv s
     \<and> (\<exists>k. heap_live s (cb_buffer cb) = Some k \<and> unat (cb_size cb) \<le> k)
     \<and> 0 < unat (cb_size cb) \<and> unat (cb_count cb) \<le> unat (cb_size cb)
     \<and> unat (cb_tail cb) < unat (cb_size cb)
     \<and> unat (cb_head cb) = (unat (cb_tail cb) + unat (cb_count cb)) mod unat (cb_size cb)"

definition cb_items :: "memory \<Rightarrow> circular_buffer \<Rightarrow> u8 list" where
  "cb_items m cb = map (\<lambda>i. m (cb_buffer cb + (unat (cb_tail cb) + i) mod unat (cb_size cb))) [0..<unat (cb_count cb)]"

lemma length_cb_items [simp]: "length (cb_items m cb) = unat (cb_count cb)"
  by (simp add: cb_items_def)

lemma cb_ok_bound: "cb_ok s cb \<Longrightarrow> unat (cb_count cb) \<le> unat (cb_size cb) \<and> 0 < unat (cb_size cb)"
  by (simp add: cb_ok_def)

lemma cb_ok_live: "cb_ok s cb \<Longrightarrow> \<exists>k. heap_inv s \<and> heap_live s (cb_buffer cb) = Some k \<and> unat (cb_size cb) \<le> k"
  by (auto simp: cb_ok_def)

text \<open>Only the size of the buffer's block matters, and for the items its bytes.\<close>

lemma cb_ok_mono: "cb_ok s cb \<Longrightarrow> heap_inv s' \<Longrightarrow> heap_live s' (cb_buffer cb) = heap_live s (cb_buffer cb) \<Longrightarrow> cb_ok s' cb"
  by (simp add: cb_ok_def)

lemma cb_items_kept:
  assumes "cb_ok s cb" and "others_kept s s' A" and "cb_buffer cb \<notin> A"
  shows "cb_ok s' cb \<and> cb_items (mem s') cb = cb_items (mem s) cb"
proof -
  from cb_ok_live [OF assms(1)] obtain k where k: "heap_live s (cb_buffer cb) = Some k" "unat (cb_size cb) \<le> k" by auto
  then have "bytes_at (mem s') (cb_buffer cb) k = bytes_at (mem s) (cb_buffer cb) k"
    using assms(2,3) by (simp add: others_kept_def)
  then have "mem s' (cb_buffer cb + j) = mem s (cb_buffer cb + j)" if "j < unat (cb_size cb)" for j
    using that k(2) by (simp add: bytes_at_eq_iff)
  moreover have "cb_ok s' cb" using assms by (auto intro: cb_ok_mono simp: others_kept_def)
  ultimately show ?thesis using assms(1) by (simp add: cb_items_def cb_ok_def)
qed

text \<open>A buffer in its first state.\<close>

lemma cb_ok_empty:
  assumes "cb_ok s cb"
  shows "cb_ok s (circ_buf_flush cb) \<and> cb_items m (circ_buf_flush cb) = []
    \<and> cb_buffer (circ_buf_flush cb) = cb_buffer cb \<and> cb_size (circ_buf_flush cb) = cb_size cb"
  using assms by (simp add: cb_ok_def circ_buf_flush_def cb_items_def)

section \<open>Put and get\<close>

lemma put_ok:
  assumes ok: "cb_ok s cb" and room: "unat (cb_count cb) < unat (cb_size cb)"
  shows "\<exists>s' cb'. circ_buf_put s cb d = (s', cb', True) \<and> cb_ok s' cb'
    \<and> cb_items (mem s') cb' = cb_items (mem s) cb @ [d] \<and> others_kept s s' {cb_buffer cb}
    \<and> cb_buffer cb' = cb_buffer cb \<and> cb_size cb' = cb_size cb \<and> unat (cb_count cb') = unat (cb_count cb) + 1
    \<and> heap_memory s' = heap_memory s
    \<and> (\<forall>x. x < cb_buffer cb \<or> cb_buffer cb + unat (cb_size cb) \<le> x \<longrightarrow> mem s' x = mem s x)"
proof -
  let ?n = "unat (cb_size cb)" and ?c = "unat (cb_count cb)" and ?t = "unat (cb_tail cb)" and ?p = "cb_buffer cb"
  from cb_ok_live [OF ok] obtain k where k: "heap_inv s" "heap_live s ?p = Some k" "?n \<le> k" by auto
  define f where "f = (\<lambda>m :: memory. m(?p + unat (cb_head cb) := d))"
  define cb' where "cb' = cb\<lparr>cb_head := (cb_head cb + 1) mod cb_size cb, cb_count := cb_count cb + 1\<rparr>"
  have h: "unat (cb_head cb) < ?n" "unat (cb_head cb) = (?t + ?c) mod ?n" using ok by (simp_all add: cb_ok_def)
  have run: "circ_buf_put s cb d = (heap_store f s, cb', True)"
    using room by (simp add: circ_buf_put_def f_def cb'_def word_le_nat_alt)
  have cnt: "unat (cb_count cb') = ?c + 1" using unat_count_suc [OF room] by (simp add: cb'_def)
  have ins: "inside ?p k f" using h(1) k(3) by (auto simp: inside_def f_def)
  note kept = block_store [OF k(1,2) ins, of "{?p}"]
  have head: "unat (cb_head cb') = (?t + (?c + 1)) mod ?n"
    using h unat_mod_suc [of "cb_head cb" "cb_size cb"] by (simp add: cb'_def mod_Suc_eq)
  have "cb_ok (heap_store f s) cb'"
    using ok kept cnt head room unfolding cb_ok_def others_kept_def by (simp add: cb'_def)
  moreover have "cb_items (mem (heap_store f s)) cb' = cb_items (mem s) cb @ [d]"
  proof -
    have "(?t + i) mod ?n \<noteq> (?t + ?c) mod ?n" if "i < ?c" for i using ring_ne [OF that room] .
    then show ?thesis by (simp add: cb_items_def cnt f_def h(2)) (simp add: cb'_def)
  qed
  moreover have "\<forall>x. x < ?p \<or> ?p + ?n \<le> x \<longrightarrow> mem (heap_store f s) x = mem s x" using h(1) by (auto simp: f_def)
  ultimately show ?thesis using run kept cnt by (auto simp: cb'_def heap_store_def)
qed

lemma get_ok:
  assumes ok: "cb_ok s cb" and some: "0 < unat (cb_count cb)" and out: "outside_heap s c 1"
  shows "\<exists>s' cb'. circ_buf_get s cb c = (s', cb', True) \<and> cb_ok s' cb'
    \<and> cb_items (mem s) cb = mem s' c # cb_items (mem s') cb' \<and> others_kept s s' {}
    \<and> cb_buffer cb' = cb_buffer cb \<and> cb_size cb' = cb_size cb \<and> heap_memory s' = heap_memory s"
proof -
  let ?n = "unat (cb_size cb)" and ?c = "unat (cb_count cb)" and ?t = "unat (cb_tail cb)" and ?p = "cb_buffer cb"
  define f where "f = (\<lambda>m :: memory. m(c := m (?p + ?t)))"
  define cb' where "cb' = cb\<lparr>cb_tail := (cb_tail cb + 1) mod cb_size cb, cb_count := cb_count cb - 1\<rparr>"
  have run: "circ_buf_get s cb c = (heap_store f s, cb', True)"
    using some by (auto simp: circ_buf_get_def f_def cb'_def)
  have t: "?t < ?n" and inv: "heap_inv s" using ok by (auto simp: cb_ok_def)
  have "inside c 1 f" by (auto simp: inside_def f_def)
  note kept = outside_store [OF inv out this, of "{}"]
  have "cb_count cb \<noteq> 0" using some by auto
  from unat_minus_one [OF this] have cnt: "unat (cb_count cb') = ?c - 1" by (simp add: cb'_def)
  have tail: "unat (cb_tail cb') = (?t + 1) mod ?n" using unat_mod_suc [OF t] by (simp add: cb'_def)
  have "((?t + 1) mod ?n + (?c - 1)) mod ?n = ((?t + 1) + (?c - 1)) mod ?n" by (rule mod_add_left_eq)
  also have "(?t + 1) + (?c - 1) = ?t + ?c" using some by simp
  finally have head: "((?t + 1) mod ?n + (?c - 1)) mod ?n = (?t + ?c) mod ?n" .
  have old: "cb_ok (heap_store f s) cb" "cb_items (mem (heap_store f s)) cb = cb_items (mem s) cb"
    using cb_items_kept [OF ok kept] by auto
  have "cb_ok (heap_store f s) cb'"
    using old(1) cnt tail head t some unfolding cb_ok_def tail cnt by (auto simp: cb'_def)
  have head_tail: "cb_items m cb = m (?p + ?t) # cb_items m cb'" for m
  proof -
    have "[0..<?c] = 0 # map Suc [0..<?c - 1]" using some by (simp add: map_Suc_upt upt_conv_Cons)
    moreover have "((?t + 1) mod ?n + i) mod ?n = (?t + Suc i) mod ?n" for i by (simp add: mod_add_left_eq)
    ultimately show ?thesis using t by (simp add: cb_items_def tail cnt) (simp add: cb'_def)
  qed
  have "cb_items (mem s) cb = mem (heap_store f s) c # cb_items (mem (heap_store f s)) cb'"
    using old(2) head_tail [of "mem (heap_store f s)"] head_tail [of "mem s"] by (simp add: f_def)
  with \<open>cb_ok (heap_store f s) cb'\<close> show ?thesis using run kept by (auto simp: cb'_def heap_store_def)
qed

section \<open>The contract\<close>

definition cb_put :: "u8 \<Rightarrow> heap_state \<times> circular_buffer \<Rightarrow> (heap_state \<times> circular_buffer) option" where
  "cb_put x s = (case circ_buf_put (fst s) (snd s) x of (s', cb', ok) \<Rightarrow> if ok then Some (s', cb') else None)"

definition cb_get :: "addr \<Rightarrow> heap_state \<times> circular_buffer \<Rightarrow> (u8 \<times> heap_state \<times> circular_buffer) option" where
  "cb_get c s =
     (case circ_buf_get (fst s) (snd s) c of (s', cb', ok) \<Rightarrow> if ok then Some (mem s' c, s', cb') else None)"

definition cb_client :: "addr \<Rightarrow> heap_state \<times> circular_buffer \<Rightarrow> bool" where
  "cb_client c s \<longleftrightarrow> cb_ok (fst s) (snd s) \<and> outside_heap (fst s) c 1"

interpretation cb: bounded_fifo cb_put "cb_get c" "\<lambda>s. cb_items (mem (fst s)) (snd s)"
  "\<lambda>s. unat (cb_size (snd s))" "cb_client c" "\<lambda>_ _. True" for c
proof
  fix s :: "heap_state \<times> circular_buffer" and x :: u8
  assume inv: "cb_client c s"
  {
    assume "length (cb_items (mem (fst s)) (snd s)) < unat (cb_size (snd s))"
    with put_ok [of "fst s" "snd s" x] inv
    show "\<exists>s'. cb_put x s = Some s' \<and> cb_client c s' \<and> cb_items (mem (fst s')) (snd s') = cb_items (mem (fst s)) (snd s) @ [x]
        \<and> unat (cb_size (snd s')) = unat (cb_size (snd s)) \<and> (\<lambda>_. True) = (\<lambda>_. True)"
      by (auto simp: cb_put_def cb_client_def outside_heap_def)
  next
    assume "unat (cb_size (snd s)) \<le> length (cb_items (mem (fst s)) (snd s))"
    then show "cb_put x s = None" by (simp add: cb_put_def circ_buf_put_def word_le_nat_alt)
  }
next
  fix s :: "heap_state \<times> circular_buffer" and x xs
  assume inv: "cb_client c s" and items: "cb_items (mem (fst s)) (snd s) = x # xs"
  then have "0 < unat (cb_count (snd s))" by (metis length_cb_items length_greater_0_conv list.discI)
  from get_ok [OF _ this, of "fst s" c] inv items
  show "\<exists>s'. cb_get c s = Some (x, s') \<and> cb_client c s' \<and> cb_items (mem (fst s')) (snd s') = xs
        \<and> unat (cb_size (snd s')) = unat (cb_size (snd s)) \<and> (\<lambda>_. True) = (\<lambda>_. True)"
    by (auto simp: cb_get_def cb_client_def outside_heap_def)
next
  fix s :: "heap_state \<times> circular_buffer"
  assume "cb_client c s" and "cb_items (mem (fst s)) (snd s) = []"
  then have "cb_count (snd s) = 0" by (simp add: cb_items_def word_unat_eq_iff)
  then show "cb_get c s = None" by (simp add: cb_get_def circ_buf_get_def)
qed

section \<open>Whole writes\<close>

text \<open>The loop of \<^verbatim>\<open>uart_write\<close> stores as many bytes as there is room for.\<close>

lemma write_loop:
  "cb_ok s cb \<Longrightarrow> data + n \<le> cb_buffer cb \<or> cb_buffer cb + unat (cb_size cb) \<le> data \<Longrightarrow>
   \<exists>s' cb'. uart_write_loop n data s cb = (s', cb', n \<le> unat (cb_size cb) - unat (cb_count cb)) \<and> cb_ok s' cb'
     \<and> cb_items (mem s') cb' = cb_items (mem s) cb @ bytes_at (mem s) data (min n (unat (cb_size cb) - unat (cb_count cb)))
     \<and> others_kept s s' {cb_buffer cb} \<and> cb_buffer cb' = cb_buffer cb \<and> cb_size cb' = cb_size cb"
proof (induction n arbitrary: data s cb)
  case 0
  then show ?case by (auto simp: bytes_at_def intro: others_kept_refl dest: cb_ok_live)
next
  case (Suc n)
  show ?case
  proof (cases "unat (cb_count cb) < unat (cb_size cb)")
    case False
    then have "circ_buf_put s cb (mem s data) = (s, cb, False)" by (simp add: circ_buf_put_def word_le_nat_alt)
    with False Suc.prems show ?thesis by (auto simp: bytes_at_def intro: others_kept_refl dest: cb_ok_live)
  next
    case True
    from put_ok [OF Suc.prems(1) True, of "mem s data"] obtain s1 cb1 where
      p: "circ_buf_put s cb (mem s data) = (s1, cb1, True)" "cb_ok s1 cb1"
        "cb_items (mem s1) cb1 = cb_items (mem s) cb @ [mem s data]" "others_kept s s1 {cb_buffer cb}"
        "cb_buffer cb1 = cb_buffer cb" "cb_size cb1 = cb_size cb" "unat (cb_count cb1) = unat (cb_count cb) + 1"
        "\<forall>x. x < cb_buffer cb \<or> cb_buffer cb + unat (cb_size cb) \<le> x \<longrightarrow> mem s1 x = mem s x" by metis
    let ?r = "unat (cb_size cb) - unat (cb_count cb)"
    from Suc.IH [OF p(2), of "data + 1"] Suc.prems(2) p(5-7) obtain s' cb' where
      r: "uart_write_loop n (data + 1) s1 cb1 = (s', cb', n \<le> ?r - 1)" "cb_ok s' cb'"
        "cb_items (mem s') cb' = cb_items (mem s1) cb1 @ bytes_at (mem s1) (data + 1) (min n (?r - 1))"
        "others_kept s1 s' {cb_buffer cb}" "cb_buffer cb' = cb_buffer cb" "cb_size cb' = cb_size cb" by auto
    have "bytes_at (mem s1) (data + 1) (min n (?r - 1)) = bytes_at (mem s) (data + 1) (min n (?r - 1))"
      using p(8) Suc.prems(2) by (intro bytes_at_cong) auto
    moreover have "min (Suc n) ?r = Suc (min n (?r - 1))" using True by auto
    moreover have "bytes_at m data (Suc k) = m data # bytes_at m (data + 1) k" for m k
      by (simp add: bytes_at_def upt_conv_Cons map_Suc_upt [symmetric] del: upt_Suc)
    ultimately have "cb_items (mem s') cb' = cb_items (mem s) cb @ bytes_at (mem s) data (min (Suc n) ?r)"
      using r(3) p(3) by simp
    moreover have "(n \<le> ?r - 1) = (Suc n \<le> ?r)" using True by auto
    moreover have "others_kept s s' {cb_buffer cb}" using p(4) r(4) by (simp add: others_kept_def)
    ultimately show ?thesis using p(1) r by simp
  qed
qed

text \<open>The loop of \<^verbatim>\<open>uart_read\<close> delivers the oldest bytes, as many as there are.\<close>

lemma read_loop:
  "cb_ok s cb \<Longrightarrow> outside_heap s buf n \<Longrightarrow>
   \<exists>s' cb'. uart_read_loop n buf got s cb = (s', cb', got + of_nat (min n (unat (cb_count cb)))) \<and> cb_ok s' cb'
     \<and> cb_items (mem s) cb = bytes_at (mem s') buf (min n (unat (cb_count cb))) @ cb_items (mem s') cb'
     \<and> others_kept s s' {} \<and> cb_buffer cb' = cb_buffer cb \<and> cb_size cb' = cb_size cb
     \<and> heap_memory s' = heap_memory s \<and> (\<forall>x<buf. mem s' x = mem s x)"
proof (induction n arbitrary: buf got s cb)
  case 0
  then show ?case by (auto simp: bytes_at_def intro: others_kept_refl dest: cb_ok_live)
next
  case (Suc n)
  show ?case
  proof (cases "0 < unat (cb_count cb)")
    case False
    then have "cb_count cb = 0" by (simp add: word_unat_eq_iff)
    then show ?thesis using Suc.prems by (auto simp: bytes_at_def circ_buf_get_def intro: others_kept_refl dest: cb_ok_live)
  next
    case True
    have o: "outside_heap s buf 1" using Suc.prems(2) by (auto simp: outside_heap_def)
    from get_ok [OF Suc.prems(1) True o] obtain s1 cb1 where
      p: "circ_buf_get s cb buf = (s1, cb1, True)" "cb_ok s1 cb1" "cb_items (mem s) cb = mem s1 buf # cb_items (mem s1) cb1"
        "others_kept s s1 {}" "cb_buffer cb1 = cb_buffer cb" "cb_size cb1 = cb_size cb" "heap_memory s1 = heap_memory s" by metis
    have lo: "\<forall>x<buf. mem s1 x = mem s x" using p(1) by (auto simp: circ_buf_get_def heap_store_def split: if_splits)
    have "unat (cb_count cb) = Suc (unat (cb_count cb1))" using arg_cong [OF p(3), of length] by simp
    then have mn: "min (Suc n) (unat (cb_count cb)) = Suc (min n (unat (cb_count cb1)))" by simp
    have "outside_heap s1 (buf + 1) n" using Suc.prems(2) p(7) by (auto simp: outside_heap_def)
    from Suc.IH [OF p(2) this, of "got + 1"] obtain s' cb' where
      r: "uart_read_loop n (buf + 1) (got + 1) s1 cb1 = (s', cb', (got + 1) + of_nat (min n (unat (cb_count cb1))))" "cb_ok s' cb'"
        "cb_items (mem s1) cb1 = bytes_at (mem s') (buf + 1) (min n (unat (cb_count cb1))) @ cb_items (mem s') cb'"
        "others_kept s1 s' {}" "cb_buffer cb' = cb_buffer cb" "cb_size cb' = cb_size cb"
        "heap_memory s' = heap_memory s" "\<forall>x<buf + 1. mem s' x = mem s1 x" unfolding p(5-7) by metis
    have "bytes_at m buf (Suc k) = m buf # bytes_at m (buf + 1) k" for m k
      by (simp add: bytes_at_def upt_conv_Cons map_Suc_upt [symmetric] del: upt_Suc)
    moreover have "mem s' buf = mem s1 buf" using r(8) by simp
    ultimately have "cb_items (mem s) cb = bytes_at (mem s') buf (min (Suc n) (unat (cb_count cb))) @ cb_items (mem s') cb'"
      using p(3) r(3) mn by simp
    moreover have "others_kept s s' {}" using p(4) r(4) by (simp add: others_kept_def)
    moreover have "\<forall>x<buf. mem s' x = mem s x" using lo r(8) by simp
    ultimately show ?thesis using p(1) r mn by (simp add: add.assoc)
  qed
qed

lemma read_loop_empty: "cb_count cb = 0 \<Longrightarrow> uart_read_loop n buf got s cb = (s, cb, got)"
  by (cases n) (simp_all add: circ_buf_get_def)

end
