(* ===== verification/Ipc_Props.thy ===== *)
theory Ipc_Props imports Message_Queue Heap_Props Kernel_Props begin

text \<open>
  The properties of the communication objects: message queues are bounded first-in first-out
  queues over any run (\<open>bounded_fifo\<close> interpreted on \<open>mq_send\<close> and \<open>mq_receive\<close>), semaphores
  conserve their count, mutexes exclude.
\<close>

section \<open>Message queues\<close>

lemma length_mq_items [simp]: "length (mq_items m q) = unat (mq_count m q)"
  by (simp add: mq_items_def)

lemma mq_ok_nonnull: "mq_ok s q \<Longrightarrow> q \<noteq> NULL"
  using mq_layout [OF mq_ok_shape] by metis

lemma malloc_heap_memory: "rtos_malloc s n = Some (s', p) \<Longrightarrow> heap_memory s' = heap_memory s"
  by (auto simp: rtos_malloc_def Let_def split: if_splits Option.bind_splits)

text \<open>An empty queue of two messages of four bytes, for the witnesses.\<close>

lemma example_queue:
  obtains s where "mq_ok s 4128" "mq_items (mem s) 4128 = []" "mq_msg_size (mem s) 4128 = 4"
    "mq_max_msgs (mem s) 4128 = 2" "heap_memory s = 4096"
proof -
  from malloc_blocks [OF example_heap_inv(1), of 48] obtain s1 where
    s1: "rtos_malloc example_heap 48 = Some (s1, 4128)" "heap_inv s1"
      "heap_blocks s1 = [(4096, 48, False), (4176, 65424, True)]"
    by (auto simp: example_heap_inv(2) unat_align_size no_fit_def best_fit_def)
  from malloc_blocks [OF s1(2), of 8] obtain s2 where
    s2: "rtos_malloc s1 8 = Some (s2, 4208)"
    by (auto simp: s1(3) unat_align_size no_fit_def best_fit_def)
  obtain s where s: "mq_create example_heap 4 2 = Some (s, 4128)" "heap_memory s = heap_memory s2"
    using s1(1) s2 by (auto simp: mq_create_def sizeof_mq_def heap_store_def)
  have "heap_memory s2 = heap_memory example_heap"
    using malloc_heap_memory [OF s1(1)] malloc_heap_memory [OF s2] by simp
  moreover have "heap_memory example_heap = 4096" by (simp add: example_heap_def boot_heap_def memory_init_def Let_def)
  ultimately have "heap_memory s = 4096" using s(2) by simp
  with mq_create_outcome [OF example_heap_inv(1), of 4 2] s(1) that show thesis by auto
qed

text \<open>Sending appends the bytes of the message to a queue with room and answers
  \<open>RTOS_ERROR_BUSY\<close> on a full one; receiving delivers the oldest message and answers
  \<open>RTOS_ERROR_TIMEOUT\<close> on an empty one. The timeout plays no part, and nothing but the queue
  (and the client's buffer) changes.\<close>

lemma mq_send_receive:
  assumes "mq_ok s q" and "msg \<noteq> NULL" and "outside_heap s msg (unat (mq_msg_size (mem s) q))"
  shows "(if length (mq_items (mem s) q) < unat (mq_max_msgs (mem s) q)
      then \<exists>s'. mq_send s q msg t = (s', RTOS_OK) \<and> mq_ok s' q
        \<and> mq_items (mem s') q = mq_items (mem s) q @ [bytes_at (mem s) msg (unat (mq_msg_size (mem s) q))]
        \<and> others_kept s s' {q, mq_buffer (mem s) q}
      else mq_send s q msg t = (s, RTOS_ERROR_BUSY))
    \<and> (case mq_items (mem s) q of
         [] \<Rightarrow> mq_receive s q msg t = (s, RTOS_ERROR_TIMEOUT)
       | x # xs \<Rightarrow> \<exists>s'. mq_receive s q msg t = (s', RTOS_OK) \<and> mq_ok s' q \<and> mq_items (mem s') q = xs
           \<and> bytes_at (mem s') msg (unat (mq_msg_size (mem s) q)) = x \<and> others_kept s s' {q})"
proof
  have q: "q \<noteq> NULL" using assms(1) by (rule mq_ok_nonnull)
  show "if length (mq_items (mem s) q) < unat (mq_max_msgs (mem s) q)
      then \<exists>s'. mq_send s q msg t = (s', RTOS_OK) \<and> mq_ok s' q
        \<and> mq_items (mem s') q = mq_items (mem s) q @ [bytes_at (mem s) msg (unat (mq_msg_size (mem s) q))]
        \<and> others_kept s s' {q, mq_buffer (mem s) q}
      else mq_send s q msg t = (s, RTOS_ERROR_BUSY)"
    using send_ok [OF assms(1) _ assms(2), of t] q assms(2)
    by (auto simp: mq_send_def word_le_nat_alt not_less)
  show "case mq_items (mem s) q of
         [] \<Rightarrow> mq_receive s q msg t = (s, RTOS_ERROR_TIMEOUT)
       | x # xs \<Rightarrow> \<exists>s'. mq_receive s q msg t = (s', RTOS_OK) \<and> mq_ok s' q \<and> mq_items (mem s') q = xs
           \<and> bytes_at (mem s') msg (unat (mq_msg_size (mem s) q)) = x \<and> others_kept s s' {q}"
  proof (cases "mq_items (mem s) q")
    case Nil
    then have "mq_count (mem s) q = 0" by (simp add: mq_items_def word_unat_eq_iff)
    with Nil q assms(2) show ?thesis by (simp add: mq_receive_def)
  next
    case (Cons x xs)
    then have "0 < unat (mq_count (mem s) q)" using length_mq_items [of "mem s" q] by (metis length_greater_0_conv list.discI)
    from receive_ok [OF assms(1) this assms(2,3), of t] Cons show ?thesis by auto
  qed
qed

section \<open>Queues over whole runs\<close>

text \<open>A put is a message stored in the client's buffer \<open>c\<close> and sent; a get is a receive into that
  buffer.\<close>

definition poke :: "addr \<Rightarrow> u8 list \<Rightarrow> memory \<Rightarrow> memory" where
  "poke c xs m = (\<lambda>x. if c \<le> x \<and> x < c + length xs then xs ! (x - c) else m x)"

definition mq_put :: "addr \<Rightarrow> addr \<Rightarrow> u8 list \<Rightarrow> heap_state \<Rightarrow> heap_state option" where
  "mq_put q c x s =
     (case mq_send (heap_store (poke c x) s) q c 0 of (s', r) \<Rightarrow> if r = RTOS_OK then Some s' else None)"

definition mq_get :: "addr \<Rightarrow> addr \<Rightarrow> heap_state \<Rightarrow> (u8 list \<times> heap_state) option" where
  "mq_get q c s =
     (case mq_receive s q c 0 of
        (s', r) \<Rightarrow> if r = RTOS_OK then Some (bytes_at (mem s') c (unat (mq_msg_size (mem s) q)), s') else None)"

definition mq_client :: "addr \<Rightarrow> addr \<Rightarrow> heap_state \<Rightarrow> bool" where
  "mq_client q c s \<longleftrightarrow> mq_ok s q \<and> c \<noteq> NULL \<and> outside_heap s c (unat (mq_msg_size (mem s) q))"

lemma poke_state:
  assumes "mq_client q c s" and "length x = unat (mq_msg_size (mem s) q)"
  shows "mq_client q c (heap_store (poke c x) s) \<and> mq_items (poke c x (mem s)) q = mq_items (mem s) q
    \<and> mq_max_msgs (poke c x (mem s)) q = mq_max_msgs (mem s) q \<and> mq_msg_size (poke c x (mem s)) q = mq_msg_size (mem s) q
    \<and> mq_count (poke c x (mem s)) q = mq_count (mem s) q
    \<and> bytes_at (poke c x (mem s)) c (unat (mq_msg_size (mem s) q)) = x"
proof -
  have ok: "mq_ok s q" and out: "outside_heap s c (length x)" using assms by (simp_all add: mq_client_def)
  have inv: "heap_inv s" using ok by (simp add: mq_ok_def)
  have "inside c (length x) (poke c x)" by (auto simp: inside_def poke_def)
  note kept = outside_store [OF inv out this, of "{}"]
  from mq_same [OF ok others_kept_inv [OF kept] others_kept_same [OF kept] others_kept_same [OF kept]] assms show ?thesis
    by (auto simp: mq_client_def outside_heap_def heap_store_def poke_def list_eq_iff_nth_eq)
qed

interpretation mq: bounded_fifo "mq_put q c" "mq_get q c" "\<lambda>s. mq_items (mem s) q"
  "\<lambda>s. unat (mq_max_msgs (mem s) q)" "mq_client q c" "\<lambda>s x. length x = unat (mq_msg_size (mem s) q)" for q c
proof
  fix s :: heap_state and x :: "u8 list"
  assume inv: "mq_client q c s" and len: "length x = unat (mq_msg_size (mem s) q)"
  note p = poke_state [OF inv len]
  have ok1: "mq_ok (heap_store (poke c x) s) q" and c: "c \<noteq> NULL" using p by (auto simp: mq_client_def)
  {
    assume "length (mq_items (mem s) q) < unat (mq_max_msgs (mem s) q)"
    then have "unat (mq_count (mem (heap_store (poke c x) s)) q) < unat (mq_max_msgs (mem (heap_store (poke c x) s)) q)"
      using p by simp
    from send_ok [OF ok1 this c, of 0] p inv
    show "\<exists>s'. mq_put q c x s = Some s' \<and> mq_client q c s' \<and> mq_items (mem s') q = mq_items (mem s) q @ [x]
        \<and> unat (mq_max_msgs (mem s') q) = unat (mq_max_msgs (mem s) q)
        \<and> (\<lambda>x. length x = unat (mq_msg_size (mem s') q)) = (\<lambda>x. length x = unat (mq_msg_size (mem s) q))"
      by (auto simp: mq_put_def mq_client_def outside_heap_def)
  next
    assume "unat (mq_max_msgs (mem s) q) \<le> length (mq_items (mem s) q)"
    then show "mq_put q c x s = None"
      using p mq_ok_nonnull [OF ok1] by (simp add: mq_put_def mq_send_def word_le_nat_alt)
  }
next
  fix s :: heap_state and x :: "u8 list" and xs :: "u8 list list"
  assume inv: "mq_client q c s" and items: "mq_items (mem s) q = x # xs"
  then have "0 < unat (mq_count (mem s) q)" using length_mq_items [of "mem s" q] by (metis length_greater_0_conv list.discI)
  from receive_ok [OF _ this, of c 0] inv items
  show "\<exists>s'. mq_get q c s = Some (x, s') \<and> mq_client q c s' \<and> mq_items (mem s') q = xs
      \<and> unat (mq_max_msgs (mem s') q) = unat (mq_max_msgs (mem s) q)
      \<and> (\<lambda>x. length x = unat (mq_msg_size (mem s') q)) = (\<lambda>x. length x = unat (mq_msg_size (mem s) q))"
    by (auto simp: mq_get_def mq_client_def outside_heap_def)
next
  fix s
  assume inv: "mq_client q c s" and items: "mq_items (mem s) q = []"
  then have "mq_count (mem s) q = 0" by (simp add: mq_items_def word_unat_eq_iff)
  then show "mq_get q c s = None" using inv mq_ok_nonnull by (simp add: mq_get_def mq_receive_def mq_client_def)
qed

text \<open>C7: a queue refines a bounded list: over any interleaving of sends and receives of one client, every
  operation returns what it returns on a list with the capacity \<open>max_msgs\<close> (a send is accepted exactly when
  fewer messages wait, a receive delivers the oldest one and is refused exactly when none waits), and
  the messages left are those of the list. So the accepted messages are, in order, those delivered
  followed by those still waiting, of which there are never more than \<open>max_msgs\<close>.\<close>

theorem mq_runs_fifo:
  assumes "mq_client q c s" and "\<forall>x. Put x \<in> set ops \<longrightarrow> length x = unat (mq_msg_size (mem s) q)"
    and "bounded_fifo.run (mq_put q c) (mq_get q c) ops s = (rs, s')"
  shows "spec_run (unat (mq_max_msgs (mem s) q)) ops (mq_items (mem s) q) = (rs, mq_items (mem s') q)
    \<and> mq_items (mem s) q @ given ops rs = taken ops rs @ mq_items (mem s') q
    \<and> length (mq_items (mem s') q) \<le> unat (mq_max_msgs (mem s) q) \<and> mq_client q c s'"
proof -
  note r = mq.run_spec [OF assms]
  have "mq_ok s q" using assms(1) by (simp add: mq_client_def)
  then have "length (mq_items (mem s) q) \<le> unat (mq_max_msgs (mem s) q)" by (simp add: mq_ok_def)
  with r spec_run_bound have "length (mq_items (mem s') q) \<le> unat (mq_max_msgs (mem s) q)" by blast
  with r mq.run_fifo [OF assms] show ?thesis by blast
qed

theorem mq_runs_fifo_witness:
  "\<exists>s s'. bounded_fifo.run (mq_put 4128 100) (mq_get 4128 100)
      [Put [1, 2, 3, 4], Put [5, 6, 7, 8], Put [9, 9, 9, 9], Get, Get, Get] s
     = ([Some [1, 2, 3, 4], Some [5, 6, 7, 8], None, Some [1, 2, 3, 4], Some [5, 6, 7, 8], None], s')"
proof -
  let ?ops = "[Put [1, 2, 3, 4], Put [5, 6, 7, 8], Put [9, 9, 9, 9], Get, Get, Get]"
  obtain s where s: "mq_ok s 4128" "mq_items (mem s) 4128 = []" "mq_msg_size (mem s) 4128 = 4"
    "mq_max_msgs (mem s) 4128 = 2" "heap_memory s = 4096" by (rule example_queue)
  then have c: "mq_client 4128 100 s" by (simp add: mq_client_def outside_heap_def)
  obtain rs s' where r: "bounded_fifo.run (mq_put 4128 100) (mq_get 4128 100) ?ops s = (rs, s')"
    by (metis prod.exhaust)
  have "spec_run 2 ?ops [] = (rs, mq_items (mem s') 4128)"
    using mq_runs_fifo [OF c _ r] s by auto
  with r show ?thesis by auto
qed

section \<open>Semaphores\<close>

datatype sem_op = Take tick_t | Give

text \<open>A run on one semaphore, with the numbers of successful takes and gives.\<close>

fun sem_run :: "addr \<Rightarrow> sem_op list \<Rightarrow> heap_state \<Rightarrow> heap_state \<times> nat \<times> nat" where
  "sem_run sem [] s = (s, 0, 0)"
| "sem_run sem (Take t # ops) s =
     (let (s1, r) = sem_take s sem t; (s2, n, k) = sem_run sem ops s1
      in (s2, (if r = RTOS_OK then n + 1 else n), k))"
| "sem_run sem (Give # ops) s =
     (let (s1, r) = sem_give s sem; (s2, n, k) = sem_run sem ops s1
      in (s2, n, (if r = RTOS_OK then k + 1 else k)))"

lemma sem_take_cases:
  assumes "sem_ok s sem"
  obtains (zero) "sem_take s sem t = (s, RTOS_ERROR_TIMEOUT)" "unat (sem_count (mem s) sem) = 0"
  | (some) s' where "sem_take s sem t = (s', RTOS_OK)" "sem_ok s' sem" "others_kept s s' {sem}"
      "unat (sem_count (mem s) sem) = unat (sem_count (mem s') sem) + 1" "sem_max_count (mem s') sem = sem_max_count (mem s) sem"
proof (cases "sem_count (mem s) sem = 0")
  case True
  with zero sem_ok_nonnull [OF assms] show ?thesis by (simp add: sem_take_def)
next
  case False
  then have "unat (sem_count (mem s) sem) = unat (sem_count (mem s) sem - 1) + 1"
    using unat_minus_one [OF False] by (metis Suc_eq_plus1 Suc_pred' bot_nat_0.not_eq_extremum unat_eq_zero)
  with some False sem_ok_nonnull [OF assms] sem_store [OF assms, of "\<lambda>m. sem_count m sem - 1"] show ?thesis
    by (auto simp: sem_take_def)
qed

lemma sem_give_cases:
  assumes "sem_ok s sem"
  obtains (full) "sem_give s sem = (s, RTOS_ERROR)" "unat (sem_max_count (mem s) sem) \<le> unat (sem_count (mem s) sem)"
  | (some) s' where "sem_give s sem = (s', RTOS_OK)" "sem_ok s' sem" "others_kept s s' {sem}"
      "unat (sem_count (mem s') sem) = unat (sem_count (mem s) sem) + 1"
      "unat (sem_count (mem s') sem) \<le> unat (sem_max_count (mem s) sem)"
      "sem_max_count (mem s') sem = sem_max_count (mem s) sem"
proof (cases "sem_max_count (mem s) sem \<le> sem_count (mem s) sem")
  case True
  with full sem_ok_nonnull [OF assms] show ?thesis by (simp add: sem_give_def word_le_nat_alt)
next
  case False
  then have lt: "unat (sem_count (mem s) sem) < unat (sem_max_count (mem s) sem)" by (simp add: word_le_nat_alt)
  then have "unat (sem_count (mem s) sem) + 1 < 2 ^ 32"
    using unsigned_less [where w = "sem_max_count (mem s) sem", where ?'a = nat] by simp
  then have "unat (sem_count (mem s) sem + 1) = unat (sem_count (mem s) sem) + 1" by (simp add: unat_add_small)
  with some False lt sem_ok_nonnull [OF assms] sem_store [OF assms, of "\<lambda>m. sem_count m sem + 1"] show ?thesis
    by (auto simp: sem_give_def)
qed

lemma others_kept_trans: "others_kept s s1 A \<Longrightarrow> others_kept s1 s2 A \<Longrightarrow> others_kept s s2 A"
  by (simp add: others_kept_def)

lemma sem_run_counts:
  "sem_ok s sem \<Longrightarrow> sem_run sem ops s = (s', n, k) \<Longrightarrow>
   sem_ok s' sem \<and> others_kept s s' {sem} \<and> unat (sem_count (mem s') sem) + n = unat (sem_count (mem s) sem) + k
   \<and> sem_max_count (mem s') sem = sem_max_count (mem s) sem
   \<and> (unat (sem_count (mem s) sem) \<le> unat (sem_max_count (mem s) sem) \<longrightarrow>
        unat (sem_count (mem s') sem) \<le> unat (sem_max_count (mem s) sem))"
proof (induction sem ops s arbitrary: s' n k rule: sem_run.induct)
  case (1 sem s)
  then show ?case by (auto simp: sem_ok_def intro: others_kept_refl)
next
  case (2 sem t ops s)
  show ?case
  proof (cases rule: sem_take_cases [OF "2.prems"(1), of t])
    case 1
    with 2 show ?thesis by (auto split: prod.splits)
  next
    case (2 s1)
    with "2.prems" obtain n' where "sem_run sem ops s1 = (s', n', k)" "n = n' + 1" by (auto split: prod.splits)
    with "2.IH" [OF 2(1) [symmetric] refl 2(2), of s' n' k] 2 others_kept_trans [OF 2(3)] show ?thesis by auto
  qed
next
  case (3 sem ops s)
  show ?case
  proof (cases rule: sem_give_cases [OF "3.prems"(1)])
    case 1
    with 3 show ?thesis by (auto split: prod.splits)
  next
    case (2 s1)
    with "3.prems" obtain k' where "sem_run sem ops s1 = (s', n, k')" "k = k' + 1" by (auto split: prod.splits)
    with "3.IH" [OF 2(1) [symmetric] refl 2(2), of s' n k'] 2 others_kept_trans [OF 2(3)] show ?thesis by auto
  qed
qed

text \<open>C15: a semaphore conserves its count: over any run of takes and gives, the final count plus the
  successful takes is the initial count plus the successful gives, so at most as many takes
  succeed as there were units; the count never passes the maximum; a take fails only at zero and
  a give only at the maximum; and no other block of the heap is touched.\<close>

theorem semaphore_conserves:
  assumes "sem_ok s sem" and "sem_run sem ops s = (s', n, k)"
  shows "sem_ok s' sem \<and> others_kept s s' {sem}
    \<and> unat (sem_count (mem s') sem) + n = unat (sem_count (mem s) sem) + k
    \<and> (unat (sem_count (mem s) sem) \<le> unat (sem_max_count (mem s) sem) \<longrightarrow>
         unat (sem_count (mem s') sem) \<le> unat (sem_max_count (mem s) sem))
    \<and> (\<forall>t. snd (sem_take s' sem t) \<noteq> RTOS_OK \<longleftrightarrow> sem_count (mem s') sem = 0)
    \<and> (snd (sem_give s' sem) \<noteq> RTOS_OK \<longleftrightarrow> sem_max_count (mem s) sem \<le> sem_count (mem s') sem)"
proof -
  note r = sem_run_counts [OF assms]
  moreover from r have "sem \<noteq> NULL" using sem_ok_nonnull by blast
  ultimately show ?thesis by (simp add: sem_take_def sem_give_def)
qed

lemma example_sem:
  obtains s sem where "sem_ok s sem" "sem_count (mem s) sem = 1" "sem_max_count (mem s) sem = 2"
proof -
  have "\<not> no_fit 8 (heap_blocks example_heap)" by (simp add: example_heap_inv(2) no_fit_def)
  then have "\<exists>s' p. rtos_malloc example_heap sizeof_semaphore = Some (s', p) \<and> p \<noteq> 0"
    using malloc_blocks [OF example_heap_inv(1), of sizeof_semaphore]
    by (auto simp: sizeof_semaphore_def unat_align_size)
  then have "sem_create example_heap 1 2 \<noteq> Some (example_heap, NULL)" by (auto simp: sem_create_def)
  then show thesis
    by (cases rule: sem_create_cases [OF example_heap_inv(1), of 1 2]) (use that in auto)
qed

theorem semaphore_conserves_witness:
  "\<exists>s sem s' n k. sem_run sem [Take 0, Take 0, Give] s = (s', n, k) \<and> unat (sem_count (mem s') sem) + n = 1 + k"
proof -
  obtain s sem where s: "sem_ok s sem" "sem_count (mem s) sem = 1" by (rule example_sem)
  obtain s' n k where r: "sem_run sem [Take 0, Take 0, Give] s = (s', n, k)" by (metis prod.exhaust)
  have "unat (sem_count (mem s') sem) + n = 1 + k" using semaphore_conserves [OF s(1) r] s(2) by simp
  with r show ?thesis by blast
qed

section \<open>Mutexes\<close>

datatype mutex_op = Lock tick_t | Unlock

text \<open>A run on one mutex: every operation is made by the task current in its kernel state; the
  result has the status of every operation.\<close>

fun mutex_run :: "addr \<Rightarrow> (kernel \<times> mutex_op) list \<Rightarrow> heap_state \<Rightarrow> heap_state \<times> rtos_status list" where
  "mutex_run mu [] s = (s, [])"
| "mutex_run mu ((k, Lock t) # ops) s =
     (let (s1, r) = mutex_lock k s mu t; (s2, rs) = mutex_run mu ops s1 in (s2, r # rs))"
| "mutex_run mu ((k, Unlock) # ops) s =
     (let (s1, r) = mutex_unlock k s mu; (s2, rs) = mutex_run mu ops s1 in (s2, r # rs))"

lemma holder_set [simp]: "holder (heap_store (set_mutex mu l w) s) mu = (if l then Some w else None)"
  by (simp add: holder_def)

text \<open>Locking a free mutex makes the current task its holder and unlocking by the holder frees it;
  every other attempt fails and changes nothing, also a second lock by the holder.\<close>

lemma mutex_holder:
  assumes "mutex_ok s mu"
  shows "(if holder s mu = None
      then \<exists>s'. mutex_lock k s mu t = (s', RTOS_OK) \<and> mutex_ok s' mu \<and> others_kept s s' {mu}
        \<and> holder s' mu = Some (task_get_current_id k)
      else mutex_lock k s mu t = (s, RTOS_ERROR_TIMEOUT))
    \<and> (if holder s mu = Some (task_get_current_id k)
      then \<exists>s'. mutex_unlock k s mu = (s', RTOS_OK) \<and> mutex_ok s' mu \<and> others_kept s s' {mu} \<and> holder s' mu = None
      else mutex_unlock k s mu = (s, RTOS_ERROR))"
  using mutex_store [OF assms, of True "task_get_current_id k"] mutex_store [OF assms, of False 0]
    mutex_ok_nonnull [OF assms]
  by (auto simp: mutex_lock_def mutex_unlock_def holder_def)

lemma example_mutex:
  obtains s mu where "mutex_ok s mu" "holder s mu = None"
proof -
  have fit: "\<not> no_fit 8 (heap_blocks example_heap)" by (simp add: example_heap_inv(2) no_fit_def)
  obtain s1 mu k where m: "rtos_malloc example_heap sizeof_mutex = Some (s1, mu)" "mu \<noteq> 0" "heap_inv s1"
    "heap_live s1 mu = Some k" "8 \<le> k"
  proof (cases rule: heap.malloc_cases [OF example_heap_inv(1), of sizeof_mutex])
    case 1
    with fit malloc_blocks [OF example_heap_inv(1), of sizeof_mutex] show ?thesis
      by (auto simp: sizeof_mutex_def unat_align_size)
  next
    case (2 s1 mu k)
    with that [of s1 mu k] show ?thesis by (simp add: sizeof_mutex_def)
  qed
  then have "mutex_ok s1 mu" by (auto simp: mutex_ok_def)
  from mutex_store(1) [OF this, of False 0] show thesis by (rule that) simp
qed

lemma mutex_others_fail:
  "mutex_ok s mu \<Longrightarrow> holder s mu = Some i \<Longrightarrow> (\<forall>(k, op) \<in> set ops. task_get_current_id k \<noteq> i) \<Longrightarrow>
   fst (mutex_run mu ops s) = s \<and> RTOS_OK \<notin> set (snd (mutex_run mu ops s))"
proof (induction mu ops s rule: mutex_run.induct)
  case (2 mu k t ops s)
  then have "mutex_lock k s mu t = (s, RTOS_ERROR_TIMEOUT)"
    using mutex_ok_nonnull by (auto simp: mutex_lock_def holder_def split: if_splits)
  with "2.IH" [OF this [symmetric] refl "2.prems"(1,2)] "2.prems"(3) show ?case by (auto split: prod.splits)
next
  case (3 mu k ops s)
  then have "mutex_unlock k s mu = (s, RTOS_ERROR)"
    using mutex_ok_nonnull by (auto simp: mutex_unlock_def holder_def split: if_splits)
  with "3.IH" [OF this [symmetric] refl "3.prems"(1,2)] "3.prems"(3) show ?case by (auto split: prod.splits)
qed simp

text \<open>C17: mutual exclusion: while a task holds the mutex, whatever sequence of lock and unlock
  attempts the other tasks make, none succeeds, the heap is unchanged and the holder keeps the
  mutex.\<close>

theorem mutex_excludes:
  assumes "mutex_ok s mu" and "holder s mu = Some i"
    and "\<forall>(k, op) \<in> set ops. task_get_current_id k \<noteq> i"
  shows "fst (mutex_run mu ops s) = s \<and> RTOS_OK \<notin> set (snd (mutex_run mu ops s))"
  by (rule mutex_others_fail [OF assms])

theorem mutex_excludes_witness:
  "\<exists>s mu. holder s mu = Some 7 \<and> fst (mutex_run mu [(demo_kernel, Unlock), (demo_kernel, Lock 0)] s) = s"
proof -
  obtain s mu where m: "mutex_ok s mu" by (rule example_mutex)
  have "task_get_current_id demo_kernel = 1" by (simp add: task_get_current_id_def)
  with mutex_excludes [OF mutex_store(1) [OF m], of True 7 7 "[(demo_kernel, Unlock), (demo_kernel, Lock 0)]"]
  show ?thesis by (intro exI [of _ "heap_store (set_mutex mu True 7) s"] exI [of _ mu]) simp
qed

end
