(* ===== verification/Uart_Props.thy ===== *)
theory Uart_Props imports Ring_Buffer Ipc_Props begin

text \<open>
  The properties of the UART driver: an invariant of the four instances and the heap over all runs
  of the driver and its clients, the outcome of opening and closing an instance, of a write and of
  a read.
\<close>

section \<open>The invariant\<close>

definition uart_bufs :: "uart_handle \<Rightarrow> addr set" where
  "uart_bufs h = (if uart_initialized h then {cb_buffer (rx_buffer h), cb_buffer (tx_buffer h)} else {})"

definition uart_owns :: "uart_state \<Rightarrow> addr set" where
  "uart_owns s = (\<Union>u<MAX_UART_INSTANCES. uart_bufs (uart_instances s u))"

text \<open>An open instance: two distinct buffers; nothing received, and no transmit callback.\<close>

definition uart_open_ok :: "heap_state \<Rightarrow> uart_handle \<Rightarrow> bool" where
  "uart_open_ok s h \<longleftrightarrow> cb_ok s (rx_buffer h) \<and> cb_ok s (tx_buffer h)
     \<and> cb_buffer (rx_buffer h) \<noteq> cb_buffer (tx_buffer h)
     \<and> cb_count (rx_buffer h) = 0 \<and> tx_callback h = NULL \<and> \<not> tx_busy h"

definition uart_inv :: "uart_state \<Rightarrow> bool" where
  "uart_inv s \<longleftrightarrow> heap_inv (uheap s)
     \<and> (\<forall>u<MAX_UART_INSTANCES. uart_initialized (uart_instances s u) \<longrightarrow> uart_open_ok (uheap s) (uart_instances s u))
     \<and> (\<forall>u<MAX_UART_INSTANCES. \<forall>v<MAX_UART_INSTANCES. u \<noteq> v \<longrightarrow>
          uart_bufs (uart_instances s u) \<inter> uart_bufs (uart_instances s v) = {})"

lemma uart_open_mono:
  assumes "uart_open_ok s h" and "heap_inv s'" and "uart_initialized h"
    and "\<And>p. p \<in> uart_bufs h \<Longrightarrow> heap_live s' p = heap_live s p"
  shows "uart_open_ok s' h"
  using assms by (auto simp: uart_open_ok_def uart_bufs_def intro: cb_ok_mono)

lemma uart_open_live: "uart_open_ok s h \<Longrightarrow> p \<in> uart_bufs h \<Longrightarrow> heap_live s p \<noteq> None"
  by (auto simp: uart_open_ok_def uart_bufs_def dest!: cb_ok_live split: if_splits)

lemma uart_invD:
  assumes "uart_inv s" and "u < MAX_UART_INSTANCES" and "uart_initialized (uart_instances s u)"
  shows "uart_open_ok (uheap s) (uart_instances s u)"
  using assms unfolding uart_inv_def by blast

lemma uart_owns_live: "uart_inv s \<Longrightarrow> p \<in> uart_owns s \<Longrightarrow> heap_live (uheap s) p \<noteq> None"
  unfolding uart_owns_def
  using uart_invD uart_open_live by (fastforce simp: uart_bufs_def split: if_splits)

text \<open>A change of one instance and of the heap: the other instances keep their blocks, and the
  instance's own blocks are disjoint from them.\<close>

lemma uart_inv_change:
  assumes inv: "uart_inv s" and h: "heap_inv h"
    and live: "\<And>v p. v < MAX_UART_INSTANCES \<Longrightarrow> v \<noteq> u \<Longrightarrow> p \<in> uart_bufs (uart_instances s v) \<Longrightarrow>
      heap_live h p = heap_live (uheap s) p"
    and ok: "uart_initialized (f (uart_instances s u)) \<Longrightarrow> uart_open_ok h (f (uart_instances s u))"
    and new: "\<And>p. p \<in> uart_bufs (f (uart_instances s u)) \<Longrightarrow>
      p \<in> uart_bufs (uart_instances s u) \<or> p \<notin> uart_owns s"
    and u: "u < MAX_UART_INSTANCES"
  shows "uart_inv (upd_uart u f (s\<lparr>uheap := h\<rparr>))"
proof -
  let ?i = "uart_instances s"
  have "uart_open_ok h ((?i(u := f (?i u))) v)"
    if "v < MAX_UART_INSTANCES" "uart_initialized ((?i(u := f (?i u))) v)" for v
  proof (cases "v = u")
    case False
    with that have "uart_initialized (?i v)" by simp
    with False that(1) show ?thesis
      using uart_open_mono [OF uart_invD [OF inv that(1)] h] live by simp
  qed (use ok that in simp)
  moreover have "uart_bufs (f (?i u)) \<inter> uart_bufs (?i v) = {}" if "v < MAX_UART_INSTANCES" "v \<noteq> u" for v
  proof -
    have "uart_bufs (?i u) \<inter> uart_bufs (?i v) = {}" using inv u that unfolding uart_inv_def by blast
    with new that(1) show ?thesis by (auto simp: uart_owns_def)
  qed
  ultimately show ?thesis
    using inv h unfolding uart_inv_def upd_uart_def by (simp add: Int_commute)
qed

text \<open>A change of the heap alone that leaves the driver's blocks allocated.\<close>

lemma uart_inv_heap:
  assumes "uart_inv s" and "heap_inv h" and "\<And>p. p \<in> uart_owns s \<Longrightarrow> heap_live h p = heap_live (uheap s) p"
  shows "uart_inv (s\<lparr>uheap := h\<rparr>)"
proof -
  have "upd_uart 0 (\<lambda>x. x) (s\<lparr>uheap := h\<rparr>) = s\<lparr>uheap := h\<rparr>" by (simp add: upd_uart_def)
  moreover have "uart_inv (upd_uart 0 (\<lambda>x. x) (s\<lparr>uheap := h\<rparr>))"
  proof (rule uart_inv_change [OF assms(1,2)])
    show "uart_open_ok h (uart_instances s 0)" if "uart_initialized (uart_instances s 0)"
    proof (rule uart_open_mono [OF uart_invD [OF assms(1) _ that] assms(2) that])
      show "heap_live h p = heap_live (uheap s) p" if "p \<in> uart_bufs (uart_instances s 0)" for p
        using assms(3) [of p] that by (force simp: uart_owns_def MAX_UART_INSTANCES_def)
    qed (simp add: MAX_UART_INSTANCES_def)
  qed (use assms(3) in \<open>auto simp: uart_owns_def MAX_UART_INSTANCES_def\<close>)
  ultimately show ?thesis by simp
qed

text \<open>A change of one open instance that keeps its buffers in place, with stores to the heap.\<close>

lemma uart_inv_upd:
  assumes "uart_inv s" and "others_kept (uheap s) h A" and "u < MAX_UART_INSTANCES" and "uart_initialized (uart_instances s u)"
    and "uart_open_ok h (f (uart_instances s u))"
    and "cb_buffer (rx_buffer (f (uart_instances s u))) = cb_buffer (rx_buffer (uart_instances s u))"
    and "cb_buffer (tx_buffer (f (uart_instances s u))) = cb_buffer (tx_buffer (uart_instances s u))"
  shows "uart_inv (upd_uart u f (s\<lparr>uheap := h\<rparr>))"
  by (rule uart_inv_change [OF assms(1)]) (use assms in \<open>auto simp: others_kept_def uart_bufs_def split: if_splits\<close>)

section \<open>Opening and closing\<close>

lemma unat_ucast_size: "unat (ucast (w :: u16) :: size_t) = unat w"
  using unsigned_less [where w = w, where ?'a = nat] by (simp add: unsigned_ucast_eq take_bit_nat_eq_self)

lemma cb_deinit_touches:
  assumes "heap_inv s" and "cb_buffer cb = NULL \<or> heap_live s (cb_buffer cb) \<noteq> None"
  shows "\<exists>s'. circ_buf_deinit s cb = Some (s', cb\<lparr>cb_buffer := NULL\<rparr>) \<and> touches s s' {cb_buffer cb}
    \<and> heap_live s' = (heap_live s)(cb_buffer cb := None)"
proof (cases "cb_buffer cb = NULL")
  case True
  then have "cb\<lparr>cb_buffer := NULL\<rparr> = cb" by (cases cb) simp
  with True assms(1) show ?thesis by (simp add: circ_buf_deinit_def touches_refl fun_upd_idem)
next
  case False
  with assms(2) obtain k where k: "heap_live s (cb_buffer cb) = Some k" by auto
  from heap.free_live [OF assms(1) k] obtain s' where s': "rtos_free s (cb_buffer cb) = Some s'" by blast
  with False free_touches [OF s' assms(1) k] show ?thesis by (simp add: circ_buf_deinit_def)
qed

text \<open>The two allocations of \<^verbatim>\<open>uart_init\<close>, and what the error path gives back.\<close>

lemma two_mallocs:
  assumes "heap_inv s"
  obtains s1 p s2 q where "rtos_malloc s n = Some (s1, p)" "rtos_malloc s1 k = Some (s2, q)" "touches s s2 {p, q}"
    "heap_live s p = None" "heap_live s q = None"
    "p = NULL \<or> heap_live s2 p \<noteq> None" "q = NULL \<or> heap_live s2 q \<noteq> None" "p \<noteq> NULL \<longrightarrow> p \<noteq> q"
proof -
  from heap.malloc_total [OF assms, of n] obtain s1 p where m1: "rtos_malloc s n = Some (s1, p)" by auto
  note t1 = malloc_touches [OF m1 assms]
  from heap.malloc_total [OF touches_inv [OF t1], of k] obtain s2 q where m2: "rtos_malloc s1 k = Some (s2, q)" by auto
  note t2 = malloc_touches [OF m2 touches_inv [OF t1]]
  have d: "heap_live s p = None" "heap_live s1 q = None"
    using malloc_dead [OF m1 assms] malloc_dead [OF m2 touches_inv [OF t1]] by auto
  have l1: "p \<noteq> NULL \<Longrightarrow> heap_live s1 p \<noteq> None" using heap.malloc_live [OF m1 assms] by auto
  have l2: "q \<noteq> NULL \<Longrightarrow> heap_live s2 q \<noteq> None" using heap.malloc_live [OF m2 touches_inv [OF t1]] by auto
  have ne: "p \<noteq> NULL \<longrightarrow> p \<noteq> q" using l1 d(2) by auto
  then have "heap_live s q = None" using touches_live [OF t1, of q] d by (cases "q = p") auto
  moreover have "p \<noteq> NULL \<Longrightarrow> heap_live s2 p \<noteq> None" using touches_live [OF t2, of p] ne l1 by auto
  ultimately show thesis using that [OF m1 m2] touches_trans [OF t1 t2] d(1) l2 ne by (auto simp: insert_commute)
qed

lemma uart_init_cases:
  assumes inv: "heap_inv (uheap s)" and u: "unat uid < MAX_UART_INSTANCES"
    and closed: "\<not> uart_initialized (uart_instances s (unat uid))"
  obtains (failed) h hd where "uart_init s uid (Some cfg) = Some (upd_uart (unat uid) (\<lambda>_. hd) (s\<lparr>uheap := h\<rparr>), None)"
      "\<not> uart_initialized hd" "touches (uheap s) h {}"
  | (opened) h p q i j where
      "uart_init s uid (Some cfg) = Some (upd_uart (unat uid) (\<lambda>_. zero_uart\<lparr>uart_id := uid, uart_cfg := Some cfg,
         rx_buffer := \<lparr>cb_buffer = p, cb_size = ucast (rx_buffer_size cfg), cb_head = 0, cb_tail = 0, cb_count = 0\<rparr>,
         tx_buffer := \<lparr>cb_buffer = q, cb_size = ucast (tx_buffer_size cfg), cb_head = 0, cb_tail = 0, cb_count = 0\<rparr>,
         uart_initialized := True\<rparr>) (s\<lparr>uheap := h\<rparr>), Some (unat uid))"
      "touches (uheap s) h {p, q}" "heap_live (uheap s) p = None" "heap_live (uheap s) q = None" "p \<noteq> q" "p \<noteq> 0" "q \<noteq> 0"
      "heap_live h = (heap_live (uheap s))(p \<mapsto> i, q \<mapsto> j)"
      "unat (rx_buffer_size cfg) \<le> i" "unat (tx_buffer_size cfg) \<le> j"
      "0 < unat (rx_buffer_size cfg)" "0 < unat (tx_buffer_size cfg)"
proof -
  let ?w = "ucast (rx_buffer_size cfg) :: size_t" and ?v = "ucast (tx_buffer_size cfg) :: size_t"
  have bound: "unat (w :: u16) \<le> 2 ^ 64 - 4" for w using unsigned_less [where w = w, where ?'a = nat] by simp
  have pos: "0 < unat w" if "rtos_malloc t (ucast w) = Some (t', a)" "a \<noteq> 0" for t t' a and w :: u16
    using that heap.malloc_zero [of t] by (cases "w = 0") (auto simp: unat_gt_0)
  obtain s1 p s2 q where m: "rtos_malloc (uheap s) ?w = Some (s1, p)" "rtos_malloc s1 ?v = Some (s2, q)"
    and t: "touches (uheap s) s2 {p, q}" and dead: "heap_live (uheap s) p = None" "heap_live (uheap s) q = None"
    and live: "p = NULL \<or> heap_live s2 p \<noteq> None" "q = NULL \<or> heap_live s2 q \<noteq> None" "p \<noteq> NULL \<longrightarrow> p \<noteq> q"
    by (rule two_mallocs [OF inv])
  define rx where "rx = \<lparr>cb_buffer = p, cb_size = ?w, cb_head = 0, cb_tail = 0, cb_count = 0\<rparr>"
  define tx where "tx = \<lparr>cb_buffer = q, cb_size = ?v, cb_head = 0, cb_tail = 0, cb_count = 0\<rparr>"
  show thesis
  proof (cases "p = NULL \<or> q = NULL")
    case True
    from cb_deinit_touches [OF touches_inv [OF t], of rx] live(1) obtain s3 where
      s3: "circ_buf_deinit s2 rx = Some (s3, rx\<lparr>cb_buffer := NULL\<rparr>)" "touches s2 s3 {p}" "heap_live s3 = (heap_live s2)(p := None)"
      by (auto simp: rx_def)
    from cb_deinit_touches [OF touches_inv [OF s3(2)], of tx] live(2,3) s3(3) obtain s4 where
      s4: "circ_buf_deinit s3 tx = Some (s4, tx\<lparr>cb_buffer := NULL\<rparr>)" "touches s3 s4 {q}" "heap_live s4 = (heap_live s3)(q := None)"
      by (cases "q = NULL") (auto simp: tx_def)
    have "touches (uheap s) s4 {p, q}" using touches_trans [OF touches_trans [OF t s3(2)] s4(2)] by (simp add: insert_commute)
    then have "touches (uheap s) s4 {}" by (rule touches_back) (use dead s3(3) s4(3) in auto)
    with True u closed m s3(1) s4(1) show thesis
      by (intro failed [of "zero_uart\<lparr>uart_id := uid, uart_cfg := Some cfg, rx_buffer := rx\<lparr>cb_buffer := NULL\<rparr>, tx_buffer := tx\<lparr>cb_buffer := NULL\<rparr>\<rparr>" s4])
        (auto simp: uart_init_def circ_buf_init_def zero_uart_def simp flip: rx_def tx_def, simp_all add: rx_def tx_def)
  next
    case False
    from heap.malloc_live [OF m(1) inv] False bound obtain i where
      i: "heap_live s1 = (heap_live (uheap s))(p \<mapsto> i)" "unat (rx_buffer_size cfg) \<le> i" by (auto simp: unat_ucast_size)
    from heap.malloc_live [OF m(2) touches_inv [OF malloc_touches [OF m(1) inv]]] False bound obtain j where
      j: "heap_live s2 = (heap_live s1)(q \<mapsto> j)" "unat (tx_buffer_size cfg) \<le> j" by (auto simp: unat_ucast_size)
    show thesis
      by (rule opened [where h = s2 and p = p and q = q and i = i and j = j])
        (use False m t dead live i j u closed pos [OF m(1)] pos [OF m(2)] in
          \<open>simp_all add: uart_init_def circ_buf_init_def zero_uart_def Let_def\<close>)
  qed
qed

lemma uart_init_again:
  "config = None \<or> MAX_UART_INSTANCES \<le> unat uid \<or> uart_initialized (uart_instances s (unat uid)) \<Longrightarrow>
   \<exists>r. uart_init s uid config = Some (s, r)"
  by (auto simp: uart_init_def split: option.splits)

lemma uart_deinit_state:
  assumes inv: "uart_inv s" and u: "u < MAX_UART_INSTANCES" and op: "uart_initialized (uart_instances s u)"
  shows "\<exists>h hd. uart_deinit s (Some u) = Some (upd_uart u (\<lambda>_. hd) (s\<lparr>uheap := h\<rparr>), RTOS_OK) \<and> \<not> uart_initialized hd
    \<and> touches (uheap s) h (uart_bufs (uart_instances s u))
    \<and> heap_live h = (heap_live (uheap s))(cb_buffer (rx_buffer (uart_instances s u)) := None,
                                    cb_buffer (tx_buffer (uart_instances s u)) := None)"
proof -
  let ?h = "uart_instances s u"
  let ?rx = "cb_buffer (rx_buffer ?h)" and ?tx = "cb_buffer (tx_buffer ?h)"
  from inv u op have "uart_open_ok (uheap s) ?h" by (simp add: uart_inv_def)
  then have l: "heap_inv (uheap s)" "heap_live (uheap s) ?rx \<noteq> None" "heap_live (uheap s) ?tx \<noteq> None" "?rx \<noteq> ?tx"
    by (auto simp: uart_open_ok_def dest!: cb_ok_live)
  from cb_deinit_touches [OF l(1), of "rx_buffer ?h"] l(2) obtain s1 where
    s1: "circ_buf_deinit (uheap s) (rx_buffer ?h) = Some (s1, (rx_buffer ?h)\<lparr>cb_buffer := NULL\<rparr>)" "touches (uheap s) s1 {?rx}"
      "heap_live s1 = (heap_live (uheap s))(?rx := None)" by blast
  from cb_deinit_touches [OF touches_inv [OF s1(2)], of "tx_buffer ?h"] l(3,4) s1(3) obtain s2 where
    s2: "circ_buf_deinit s1 (tx_buffer ?h) = Some (s2, (tx_buffer ?h)\<lparr>cb_buffer := NULL\<rparr>)" "touches s1 s2 {?tx}"
      "heap_live s2 = (heap_live s1)(?tx := None)" by auto
  have "touches (uheap s) s2 (uart_bufs ?h)"
    using touches_trans [OF s1(2) s2(2)] op by (simp add: uart_bufs_def insert_commute)
  moreover have "uart_deinit s (Some u) = Some (upd_uart u (\<lambda>_. ?h\<lparr>rx_buffer := (rx_buffer ?h)\<lparr>cb_buffer := NULL\<rparr>,
      tx_buffer := (tx_buffer ?h)\<lparr>cb_buffer := NULL\<rparr>, uart_initialized := False\<rparr>) (s\<lparr>uheap := s2\<rparr>), RTOS_OK)"
    using op s1(1) s2(1) by (simp add: uart_deinit_def uart_ready_def Let_def upd_uart_def)
  ultimately show ?thesis using s1(3) s2(3) by (intro exI conjI) (assumption | simp)+
qed

section \<open>The operations keep the invariant\<close>

text \<open>The bytes waiting for transmission at a port; \<open>waiting\<close> is \<open>None\<close> for a closed one.\<close>

definition tx_items :: "uart_state \<Rightarrow> nat \<Rightarrow> u8 list" where
  "tx_items s u = cb_items (mem (uheap s)) (tx_buffer (uart_instances s u))"

definition waiting :: "uart_state \<Rightarrow> nat \<Rightarrow> u8 list option" where
  "waiting s u = (if uart_initialized (uart_instances s u) then Some (tx_items s u) else None)"

lemma waiting_upd: "waiting (upd_uart u f (s\<lparr>uheap := h\<rparr>)) v =
    (if v = u then if uart_initialized (f (uart_instances s u)) then Some (cb_items (mem h) (tx_buffer (f (uart_instances s u)))) else None
     else if uart_initialized (uart_instances s v) then Some (cb_items (mem h) (tx_buffer (uart_instances s v))) else None)"
  by (simp add: waiting_def tx_items_def upd_uart_def)

text \<open>Open instances the operation does not name, when their blocks' bytes stay.\<close>

lemma tx_items_kept:
  assumes "uart_inv s" and "u < MAX_UART_INSTANCES" and "uart_initialized (uart_instances s u)"
    and "touches (uheap s) h W" and "W \<inter> uart_bufs (uart_instances s u) = {}"
  shows "cb_items (mem h) (tx_buffer (uart_instances s u)) = tx_items s u"
proof -
  let ?tx = "tx_buffer (uart_instances s u)"
  have ok: "cb_ok (uheap s) ?tx" using uart_invD [OF assms(1-3)] by (simp add: uart_open_ok_def)
  then obtain k where k: "heap_live (uheap s) (cb_buffer ?tx) = Some k" "unat (cb_size ?tx) \<le> k" by (auto dest: cb_ok_live)
  have "cb_buffer ?tx \<notin> W" using assms(3,5) by (auto simp: uart_bufs_def)
  from block_same_bytes [OF touches_same [OF assms(4) this] k(1)]
  have "mem h (cb_buffer ?tx + j) = mem (uheap s) (cb_buffer ?tx + j)" if "j < unat (cb_size ?tx)" for j
    using that k(2) by simp
  then show ?thesis using ok by (simp add: tx_items_def cb_items_def cb_ok_def)
qed

text \<open>Whatever else happens in the heap, when it leaves the driver's blocks alone.\<close>

lemma uart_heap_step:
  assumes inv: "uart_inv s" and t: "touches (uheap s) h W" and W: "W \<inter> uart_owns s = {}"
  shows "uart_inv (s\<lparr>uheap := h\<rparr>) \<and> (\<forall>u<MAX_UART_INSTANCES. waiting (s\<lparr>uheap := h\<rparr>) u = waiting s u)"
proof (intro conjI allI impI)
  show "uart_inv (s\<lparr>uheap := h\<rparr>)"
    by (rule uart_inv_heap [OF inv touches_inv [OF t]]) (use touches_live [OF t] W in blast)
  show "waiting (s\<lparr>uheap := h\<rparr>) u = waiting s u" if u: "u < MAX_UART_INSTANCES" for u
  proof (cases "uart_initialized (uart_instances s u)")
    case True
    have "cb_items (mem h) (tx_buffer (uart_instances s u)) = tx_items s u"
      by (rule tx_items_kept [OF inv u True t]) (use W u in \<open>auto simp: uart_owns_def\<close>)
    then show ?thesis by (simp add: waiting_def tx_items_def)
  qed (simp add: waiting_def)
qed

text \<open>Opening or closing instance \<open>u\<close>.\<close>

lemma uart_toggle:
  assumes inv: "uart_inv s" and u: "u < MAX_UART_INSTANCES" and t: "touches (uheap s) h W"
    and W: "\<And>p. p \<in> W \<Longrightarrow> p \<notin> uart_owns s \<or> p \<in> uart_bufs (uart_instances s u)"
    and ok: "uart_initialized (f (uart_instances s u)) \<Longrightarrow> uart_open_ok h (f (uart_instances s u))"
    and new: "\<And>p. p \<in> uart_bufs (f (uart_instances s u)) \<Longrightarrow> p \<notin> uart_owns s"
  shows "uart_inv (upd_uart u f (s\<lparr>uheap := h\<rparr>))
    \<and> (\<forall>v<MAX_UART_INSTANCES. v \<noteq> u \<longrightarrow> waiting (upd_uart u f (s\<lparr>uheap := h\<rparr>)) v = waiting s v)"
proof (intro conjI allI impI)
  have apart: "W \<inter> uart_bufs (uart_instances s v) = {}" if "v < MAX_UART_INSTANCES" "v \<noteq> u" for v
  proof -
    have "uart_bufs (uart_instances s v) \<inter> uart_bufs (uart_instances s u) = {}" using inv u that unfolding uart_inv_def by blast
    with W that(1) show ?thesis by (fastforce simp: uart_owns_def)
  qed
  show "uart_inv (upd_uart u f (s\<lparr>uheap := h\<rparr>))"
  proof (rule uart_inv_change [where f = f, OF inv touches_inv [OF t] _ _ _ u])
    show "heap_live h p = heap_live (uheap s) p" if "v < MAX_UART_INSTANCES" "v \<noteq> u" "p \<in> uart_bufs (uart_instances s v)" for v p
      using apart [OF that(1,2)] that(3) touches_live [OF t] by blast
  qed (use ok new in blast)+
  show "waiting (upd_uart u f (s\<lparr>uheap := h\<rparr>)) v = waiting s v" if "v < MAX_UART_INSTANCES" "v \<noteq> u" for v
    using that tx_items_kept [OF inv that(1) _ t apart [OF that]]
    by (cases "uart_initialized (uart_instances s v)") (simp_all add: waiting_upd, simp_all add: waiting_def)
qed

text \<open>A change of instance \<open>u\<close> with stores into its own blocks only.\<close>

lemma waiting_others:
  assumes inv: "uart_inv s" and u: "u < MAX_UART_INSTANCES" and kept: "others_kept (uheap s) h (uart_bufs (uart_instances s u))"
    and v: "v < MAX_UART_INSTANCES" "v \<noteq> u"
  shows "waiting (upd_uart u f (s\<lparr>uheap := h\<rparr>)) v = waiting s v"
proof (cases "uart_initialized (uart_instances s v)")
  case True
  have "uart_bufs (uart_instances s v) \<inter> uart_bufs (uart_instances s u) = {}"
    using inv u v unfolding uart_inv_def by blast
  with tx_items_kept [OF inv v(1) True others_kept_touches [OF kept]]
  have "cb_items (mem h) (tx_buffer (uart_instances s v)) = tx_items s v" by blast
  with v(2) True show ?thesis by (simp add: waiting_upd) (simp add: waiting_def)
qed (use v in \<open>simp add: waiting_upd, simp add: waiting_def\<close>)

lemma uart_ready_cases:
  "uart_ready s uart \<Longrightarrow> (\<And>u. uart = Some u \<Longrightarrow> uart_initialized (uart_instances s u) \<Longrightarrow> thesis) \<Longrightarrow> thesis"
  by (auto simp: uart_ready_def split: option.splits)

text \<open>The memory a client may pass to a write: not the driver's own blocks.\<close>

definition client_bytes :: "uart_state \<Rightarrow> addr \<Rightarrow> nat \<Rightarrow> bool" where
  "client_bytes s p n \<longleftrightarrow>
     (\<forall>q\<in>uart_owns s. \<forall>k. heap_live (uheap s) q = Some k \<longrightarrow> p + n \<le> q \<or> q + k \<le> p)"

lemma write_loop_memory: "heap_memory (fst (uart_write_loop n data s cb)) = heap_memory s"
  by (induction n data s cb rule: uart_write_loop.induct)
    (auto simp: circ_buf_put_def heap_store_def Let_def split: prod.splits)

lemma uart_write_state:
  assumes inv: "uart_inv s" and u: "u < MAX_UART_INSTANCES" and op: "uart_initialized (uart_instances s u)"
    and data: "data \<noteq> NULL" "client_bytes s data (unat len)" and len: "0 < unat len"
  defines "room \<equiv> unat (cb_size (tx_buffer (uart_instances s u))) - length (tx_items s u)"
  shows "\<exists>s'. uart_write call s (Some u) data len = (s', if unat len \<le> room then RTOS_OK else RTOS_ERROR_BUSY)
    \<and> uart_inv s' \<and> (\<forall>v<MAX_UART_INSTANCES. v \<noteq> u \<longrightarrow> waiting s' v = waiting s v)
    \<and> tx_items s' u = tx_items s u @ bytes_at (mem (uheap s)) data (min (unat len) room)
    \<and> others_kept (uheap s) (uheap s') {cb_buffer (tx_buffer (uart_instances s u))}
    \<and> (\<forall>v. uart_initialized (uart_instances s' v) = uart_initialized (uart_instances s v)
          \<and> uart_bufs (uart_instances s' v) = uart_bufs (uart_instances s v))
    \<and> heap_memory (uheap s') = heap_memory (uheap s)
    \<and> (\<forall>v. v \<noteq> u \<longrightarrow> uart_instances s' v = uart_instances s v)"
proof -
  let ?h = "uart_instances s u"
  note op_ok = uart_invD [OF inv u op]
  have tx: "cb_ok (uheap s) (tx_buffer ?h)" using op_ok by (simp add: uart_open_ok_def)
  have mine: "cb_buffer (tx_buffer ?h) \<in> uart_bufs ?h" "uart_bufs ?h \<subseteq> uart_owns s"
    using op u by (auto simp: uart_bufs_def uart_owns_def)
  from cb_ok_live [OF tx] obtain k where k: "heap_live (uheap s) (cb_buffer (tx_buffer ?h)) = Some k" "unat (cb_size (tx_buffer ?h)) \<le> k"
    by auto
  with data(2) mine have "data + unat len \<le> cb_buffer (tx_buffer ?h) \<or> cb_buffer (tx_buffer ?h) + unat (cb_size (tx_buffer ?h)) \<le> data"
    unfolding client_bytes_def by fastforce
  from write_loop [OF tx this] obtain h tx' where
    r: "uart_write_loop (unat len) data (uheap s) (tx_buffer ?h) = (h, tx', unat len \<le> room)" "cb_ok h tx'"
      "cb_items (mem h) tx' = tx_items s u @ bytes_at (mem (uheap s)) data (min (unat len) room)"
      "others_kept (uheap s) h {cb_buffer (tx_buffer ?h)}" "cb_buffer tx' = cb_buffer (tx_buffer ?h)"
    by (auto simp: room_def tx_items_def)
  define s' where "s' = upd_uart u (\<lambda>h. h\<lparr>tx_buffer := tx'\<rparr>) (s\<lparr>uheap := h\<rparr>)"
  have "tx_callback ?h = NULL" using op_ok by (simp add: uart_open_ok_def)
  then have "uart_write call s (Some u) data len = (s', if unat len \<le> room then RTOS_OK else RTOS_ERROR_BUSY)"
    using r(1) op data(1) len by (auto simp: uart_write_def uart_ready_def s'_def upd_uart_def Let_def)
  moreover have "uart_inv s'" unfolding s'_def
    by (rule uart_inv_upd [OF inv r(4) u op])
      (use op_ok r in \<open>auto simp: uart_open_ok_def others_kept_def intro: cb_ok_mono\<close>)
  moreover have "others_kept (uheap s) h (uart_bufs ?h)" using r(4) mine(1) by (auto simp: others_kept_def)
  then have "\<forall>v<MAX_UART_INSTANCES. v \<noteq> u \<longrightarrow> waiting s' v = waiting s v"
    unfolding s'_def using waiting_others [OF inv u] by blast
  moreover have "tx_items s' u = cb_items (mem h) tx'" "uheap s' = h" by (simp_all add: tx_items_def s'_def upd_uart_def)
  moreover have "uart_initialized (uart_instances s' v) = uart_initialized (uart_instances s v)
      \<and> uart_bufs (uart_instances s' v) = uart_bufs (uart_instances s v)" for v
    using r(5) by (simp add: s'_def upd_uart_def uart_bufs_def)
  moreover have "heap_memory h = heap_memory (uheap s)" using write_loop_memory [of "unat len" data "uheap s" "tx_buffer ?h"] r(1) by simp
  moreover have "uart_instances s' v = uart_instances s v" if "v \<noteq> u" for v using that by (simp add: s'_def upd_uart_def)
  ultimately show ?thesis using r(3,4) by simp
qed

lemma uart_read_state:
  assumes "uart_inv s" and "u < MAX_UART_INSTANCES" and "uart_initialized (uart_instances s u)" and "buf \<noteq> NULL"
  shows "uart_read s (Some u) buf len (Some n) = (s, RTOS_OK, Some 0)"
proof -
  have "cb_count (rx_buffer (uart_instances s u)) = 0" using uart_invD [OF assms(1-3)] by (simp add: uart_open_ok_def)
  then show ?thesis using assms(3,4)
    by (simp add: uart_read_def uart_ready_def read_loop_empty upd_uart_def)
qed

lemma uart_init_step:
  assumes inv: "uart_inv s" and run: "uart_init s uid config = Some (s', r)"
  shows "uart_inv s' \<and> (\<forall>u<MAX_UART_INSTANCES.
    waiting s' u = (if r = Some u \<and> waiting s u = None then Some [] else waiting s u))"
proof (cases "config = None \<or> MAX_UART_INSTANCES \<le> unat uid \<or> uart_initialized (uart_instances s (unat uid))")
  case True
  from uart_init_again [OF this] run have "s' = s" by auto
  moreover have "waiting s u \<noteq> None" if "r = Some u" for u
    using True run that by (auto simp: uart_init_def waiting_def split: option.splits if_splits)
  ultimately show ?thesis using inv by auto
next
  case False
  then obtain cfg where cfg: "config = Some cfg" and u: "unat uid < MAX_UART_INSTANCES"
    and closed: "\<not> uart_initialized (uart_instances s (unat uid))" by auto
  have hinv: "heap_inv (uheap s)" using inv by (simp add: uart_inv_def)
  have was: "waiting s (unat uid) = None" using closed by (simp add: waiting_def)
  have run': "uart_init s uid (Some cfg) = Some (s', r)" using run cfg by simp
  show ?thesis
  proof (cases rule: uart_init_cases [OF hinv u closed, of cfg])
    case (1 h hd)
    with run' have s': "s' = upd_uart (unat uid) (\<lambda>_. hd) (s\<lparr>uheap := h\<rparr>)" "r = None" by simp_all
    have "uart_inv s' \<and> (\<forall>v<MAX_UART_INSTANCES. v \<noteq> unat uid \<longrightarrow> waiting s' v = waiting s v)"
      unfolding s'(1) by (rule uart_toggle [OF inv u 1(3)]) (use 1(2) in \<open>simp_all add: uart_bufs_def\<close>)
    moreover have "waiting s' (unat uid) = None" unfolding s'(1) using 1(2) by (simp add: waiting_upd)
    ultimately show ?thesis using s'(2) was by auto
  next
    case (2 h p q i j)
    define hd where "hd = zero_uart\<lparr>uart_id := uid, uart_cfg := Some cfg,
         rx_buffer := \<lparr>cb_buffer = p, cb_size = ucast (rx_buffer_size cfg), cb_head = 0, cb_tail = 0, cb_count = 0\<rparr>,
         tx_buffer := \<lparr>cb_buffer = q, cb_size = ucast (tx_buffer_size cfg), cb_head = 0, cb_tail = 0, cb_count = 0\<rparr>,
         uart_initialized := True\<rparr>"
    have s': "s' = upd_uart (unat uid) (\<lambda>_. hd) (s\<lparr>uheap := h\<rparr>)" "r = Some (unat uid)"
      using run' 2(1) by (simp_all add: hd_def)
    have hd: "uart_bufs hd = {p, q}" by (simp add: uart_bufs_def hd_def)
    have "uart_open_ok h hd"
      using 2 touches_inv [OF 2(2)] by (auto simp: uart_open_ok_def cb_ok_def hd_def zero_uart_def unat_ucast_size)
    moreover have "x \<notin> uart_owns s" if "x \<in> {p, q}" for x using uart_owns_live [OF inv, of x] that 2(3,4) by auto
    ultimately have "uart_inv s' \<and> (\<forall>v<MAX_UART_INSTANCES. v \<noteq> unat uid \<longrightarrow> waiting s' v = waiting s v)"
      unfolding s'(1) by (intro uart_toggle [OF inv u 2(2)]) (use closed hd in auto)
    moreover have "waiting s' (unat uid) = Some []" unfolding s'(1) by (simp add: waiting_upd) (simp add: hd_def cb_items_def)
    ultimately show ?thesis using s'(2) was by auto
  qed
qed

lemma uart_deinit_step:
  assumes inv: "uart_inv s" and u: "\<And>u. uart = Some u \<Longrightarrow> u < MAX_UART_INSTANCES" and run: "uart_deinit s uart = Some (s', r)"
  shows "uart_inv s' \<and> (\<forall>u<MAX_UART_INSTANCES. waiting s' u = (if uart = Some u then None else waiting s u))"
proof (cases "uart_ready s uart")
  case False
  with run have "s' = s" by (simp add: uart_deinit_def)
  with inv False show ?thesis by (auto simp: uart_ready_def waiting_def)
next
  case True
  then obtain v where v: "uart = Some v" "uart_initialized (uart_instances s v)" by (rule uart_ready_cases)
  from uart_deinit_state [OF inv u [OF v(1)] v(2)] run v(1) obtain h hd where
    s': "s' = upd_uart v (\<lambda>_. hd) (s\<lparr>uheap := h\<rparr>)" and h: "\<not> uart_initialized hd"
      "touches (uheap s) h (uart_bufs (uart_instances s v))" by auto
  have "uart_inv s' \<and> (\<forall>w<MAX_UART_INSTANCES. w \<noteq> v \<longrightarrow> waiting s' w = waiting s w)" unfolding s'
    by (rule uart_toggle [OF inv u [OF v(1)] h(2)]) (use h(1) in \<open>simp_all add: uart_bufs_def\<close>)
  moreover have "waiting s' v = None" unfolding s' using h(1) by (simp add: waiting_upd)
  ultimately show ?thesis using v(1) by auto
qed

text \<open>Flushing, registering a callback and the simulated transfers keep the buffers.\<close>

lemma uart_flush_step:
  assumes inv: "uart_inv s" and u: "\<And>u. uart = Some u \<Longrightarrow> u < MAX_UART_INSTANCES" and run: "uart_flush s uart = (s', r)"
  shows "uart_inv s' \<and> (\<forall>u<MAX_UART_INSTANCES.
    waiting s' u = (if uart = Some u then map_option (\<lambda>_. []) (waiting s u) else waiting s u))"
proof (cases "uart_ready s uart")
  case False
  with run have "s' = s" by (simp add: uart_flush_def)
  with inv False show ?thesis by (auto simp: uart_ready_def waiting_def)
next
  case True
  then obtain v where v: "uart = Some v" "uart_initialized (uart_instances s v)" by (rule uart_ready_cases)
  define f where "f = (\<lambda>h :: uart_handle. h\<lparr>rx_buffer := circ_buf_flush (rx_buffer h), tx_buffer := circ_buf_flush (tx_buffer h)\<rparr>)"
  have s': "s' = upd_uart v f (s\<lparr>uheap := uheap s\<rparr>)" using True run v(1) by (simp add: uart_flush_def f_def)
  note ok = uart_invD [OF inv u [OF v(1)] v(2)]
  have kept: "others_kept (uheap s) (uheap s) A" for A using inv by (simp add: uart_inv_def others_kept_refl)
  have "uart_open_ok (uheap s) (f (uart_instances s v))"
    using ok cb_ok_empty by (simp add: uart_open_ok_def f_def) (simp add: circ_buf_flush_def)
  then have "uart_inv s'" unfolding s'
    by (intro uart_inv_upd [OF inv kept u [OF v(1)] v(2)]) (simp_all add: f_def circ_buf_flush_def)
  moreover have "waiting s' w = waiting s w" if "w < MAX_UART_INSTANCES" "w \<noteq> v" for w
    unfolding s' by (rule waiting_others [OF inv u [OF v(1)] kept that])
  moreover have "waiting s' v = map_option (\<lambda>_. []) (waiting s v)"
    unfolding s' waiting_upd using v(2) by (simp add: f_def cb_items_def circ_buf_flush_def waiting_def)
  ultimately show ?thesis using v(1) by auto
qed

lemma uart_callback_step:
  assumes inv: "uart_inv s" and u: "\<And>u. uart = Some u \<Longrightarrow> u < MAX_UART_INSTANCES" and run: "uart_set_callback s uart cb d = (s', r)"
  shows "uart_inv s' \<and> (\<forall>u<MAX_UART_INSTANCES. waiting s' u = waiting s u)"
proof (cases "uart_ready s uart")
  case False
  with run have "s' = s" by (simp add: uart_set_callback_def)
  with inv show ?thesis by simp
next
  case True
  then obtain v where v: "uart = Some v" "uart_initialized (uart_instances s v)" by (rule uart_ready_cases)
  define f where "f = (\<lambda>h :: uart_handle. h\<lparr>rx_callback := cb, rx_callback_data := d\<rparr>)"
  have s': "s' = upd_uart v f (s\<lparr>uheap := uheap s\<rparr>)" using True run v(1) by (simp add: uart_set_callback_def f_def)
  have kept: "others_kept (uheap s) (uheap s) A" for A using inv by (simp add: uart_inv_def others_kept_refl)
  have "uart_inv s'" unfolding s'
    by (rule uart_inv_upd [OF inv kept u [OF v(1)] v(2)])
      (use uart_invD [OF inv u [OF v(1)] v(2)] in \<open>simp_all add: f_def uart_open_ok_def\<close>)
  moreover have "waiting s' w = waiting s w" if "w < MAX_UART_INSTANCES" "w \<noteq> v" for w
    unfolding s' by (rule waiting_others [OF inv u [OF v(1)] kept that])
  moreover have "waiting s' v = waiting s v"
    unfolding s' waiting_upd using v(2) by (simp add: f_def tx_items_def waiting_def)
  ultimately show ?thesis by metis
qed

lemma uart_write_dma_state:
  assumes inv: "uart_inv s" and u: "\<And>u. uart = Some u \<Longrightarrow> u < MAX_UART_INSTANCES"
  shows "fst (uart_write_dma s uart data len) = s"
proof (cases "uart_ready s uart")
  case False
  then show ?thesis by (simp add: uart_write_dma_def)
next
  case True
  then obtain v where v: "uart = Some v" "uart_initialized (uart_instances s v)" by (rule uart_ready_cases)
  have "\<not> tx_busy (uart_instances s v)" using uart_invD [OF inv u [OF v(1)] v(2)] by (simp add: uart_open_ok_def)
  then have "uart_instances s v\<lparr>tx_busy := False\<rparr> = uart_instances s v" by (cases "uart_instances s v") simp
  with v show ?thesis by (simp add: uart_write_dma_def upd_uart_def Let_def)
qed

lemma uart_irq_handler_state [simp]: "uart_irq_handler s uid = s"
  by (simp add: uart_irq_handler_def)

section \<open>Runs\<close>

text \<open>What a step is: the calls that concern the transmit buffers with their arguments (\<open>OPEN\<close> with the
  handle \<^verbatim>\<open>uart_init\<close> returns), the other operations of the driver by their names, and what clients
  do with the heap and their own memory.\<close>

datatype uart_event =
    OPEN "nat option"
  | CLOSE "nat option"
  | SEND "nat option" addr size_t
  | FLUSH "nat option"
  | READ
  | WRITE_DMA
  | SET_CALLBACK
  | IRQ
  | CLIENT

text \<open>The steps of the driver and of its clients. The parameter \<open>call\<close> is what a transmit callback
  would do.\<close>

inductive uart_does ::
    "(addr \<Rightarrow> nat \<Rightarrow> addr \<Rightarrow> uart_state \<Rightarrow> uart_state) \<Rightarrow> uart_state \<Rightarrow> uart_event \<Rightarrow> uart_state \<Rightarrow> bool" for call where
  init: "uart_init s uid config = Some (s', r) \<Longrightarrow> uart_does call s (OPEN r) s'"
| deinit: "(\<And>u. uart = Some u \<Longrightarrow> u < MAX_UART_INSTANCES) \<Longrightarrow> uart_deinit s uart = Some (s', r) \<Longrightarrow>
    uart_does call s (CLOSE uart) s'"
| send: "(\<And>u. uart = Some u \<Longrightarrow> u < MAX_UART_INSTANCES) \<Longrightarrow> client_bytes s data (unat len) \<Longrightarrow>
    uart_write call s uart data len = (s', r) \<Longrightarrow> uart_does call s (SEND uart data len) s'"
| read: "(\<And>u. uart = Some u \<Longrightarrow> u < MAX_UART_INSTANCES) \<Longrightarrow> uart_read s uart buf len got = (s', r) \<Longrightarrow>
    uart_does call s READ s'"
| write_dma: "(\<And>u. uart = Some u \<Longrightarrow> u < MAX_UART_INSTANCES) \<Longrightarrow> uart_write_dma s uart data len = (s', r) \<Longrightarrow>
    uart_does call s WRITE_DMA s'"
| flush: "(\<And>u. uart = Some u \<Longrightarrow> u < MAX_UART_INSTANCES) \<Longrightarrow> uart_flush s uart = (s', r) \<Longrightarrow>
    uart_does call s (FLUSH uart) s'"
| set_callback: "(\<And>u. uart = Some u \<Longrightarrow> u < MAX_UART_INSTANCES) \<Longrightarrow> uart_set_callback s uart cb d = (s', r) \<Longrightarrow>
    uart_does call s SET_CALLBACK s'"
| irq: "uart_does call s IRQ (uart_irq_handler s uid)"
| malloc: "rtos_malloc (uheap s) n = Some (h, p) \<Longrightarrow> uart_does call s CLIENT (s\<lparr>uheap := h\<rparr>)"
| free: "heap_live (uheap s) p \<noteq> None \<Longrightarrow> p \<notin> uart_owns s \<Longrightarrow> rtos_free (uheap s) p = Some h \<Longrightarrow>
    uart_does call s CLIENT (s\<lparr>uheap := h\<rparr>)"
| store: "heap_live (uheap s) p = Some k \<Longrightarrow> p \<notin> uart_owns s \<Longrightarrow> inside p k f \<Longrightarrow>
    uart_does call s CLIENT (s\<lparr>uheap := heap_store f (uheap s)\<rparr>)"
| outside: "outside_heap (uheap s) p k \<Longrightarrow> inside p k f \<Longrightarrow>
    uart_does call s CLIENT (s\<lparr>uheap := heap_store f (uheap s)\<rparr>)"

definition uart_step ::
    "(addr \<Rightarrow> nat \<Rightarrow> addr \<Rightarrow> uart_state \<Rightarrow> uart_state) \<Rightarrow> uart_state \<Rightarrow> uart_state \<Rightarrow> bool" where
  "uart_step call s s' \<longleftrightarrow> (\<exists>e. uart_does call s e s')"

text \<open>What waits at a port after a step. A write appends the bytes that fit, a flush of this very port
  discards what waits, closing it makes it closed, opening it makes it empty, and nothing else
  changes it.\<close>

definition room :: "uart_state \<Rightarrow> nat \<Rightarrow> nat" where
  "room s u = unat (cb_size (tx_buffer (uart_instances s u))) - length (tx_items s u)"

fun waiting_after :: "uart_event \<Rightarrow> uart_state \<Rightarrow> nat \<Rightarrow> u8 list option" where
  "waiting_after (OPEN r) s u = (if r = Some u \<and> waiting s u = None then Some [] else waiting s u)"
| "waiting_after (CLOSE uart) s u = (if uart = Some u then None else waiting s u)"
| "waiting_after (SEND uart data len) s u =
     (if uart = Some u \<and> data \<noteq> NULL
      then map_option (\<lambda>xs. xs @ bytes_at (mem (uheap s)) data (min (unat len) (room s u))) (waiting s u)
      else waiting s u)"
| "waiting_after (FLUSH uart) s u = (if uart = Some u then map_option (\<lambda>_. []) (waiting s u) else waiting s u)"
| "waiting_after _ s u = waiting s u"

lemma uart_send_step:
  assumes inv: "uart_inv s" and u: "\<And>u. uart = Some u \<Longrightarrow> u < MAX_UART_INSTANCES" and "client_bytes s data (unat len)"
    and run: "uart_write call s uart data len = (s', r)"
  shows "uart_inv s' \<and> (\<forall>u<MAX_UART_INSTANCES. waiting s' u = waiting_after (SEND uart data len) s u)"
proof (cases "\<not> uart_ready s uart \<or> data = NULL \<or> len = 0")
  case True
  with run have "s' = s" by (auto simp: uart_write_def)
  moreover have "waiting_after (SEND uart data len) s v = waiting s v" for v
    using True by (cases "waiting s v") (auto simp: uart_ready_def waiting_def bytes_at_def split: if_splits)
  ultimately show ?thesis using inv by simp
next
  case False
  then obtain v where v: "uart = Some v" "uart_initialized (uart_instances s v)" "data \<noteq> NULL" "0 < unat len"
    by (auto simp: unat_gt_0 elim: uart_ready_cases)
  from uart_write_state [OF inv u [OF v(1)] v(2,3) assms(3) v(4), of call] run v(1)
  have w: "uart_inv s'" "\<forall>w<MAX_UART_INSTANCES. w \<noteq> v \<longrightarrow> waiting s' w = waiting s w"
    "tx_items s' v = tx_items s v @ bytes_at (mem (uheap s)) data (min (unat len) (room s v))"
    "uart_initialized (uart_instances s' v)" using v(2) by (auto simp: room_def)
  from w(3,4) v have "waiting s' v = waiting_after (SEND uart data len) s v" by (simp add: waiting_def)
  with w(1,2) v(1) show ?thesis by auto
qed

lemma uart_read_same:
  assumes inv: "uart_inv s" and u: "\<And>u. uart = Some u \<Longrightarrow> u < MAX_UART_INSTANCES" and run: "uart_read s uart buf len got = (s', r)"
  shows "s' = s"
proof (cases "\<not> uart_ready s uart \<or> buf = NULL \<or> got = None")
  case True
  with run show ?thesis by (auto simp: uart_read_def)
next
  case False
  then obtain v n where v: "uart = Some v" "uart_initialized (uart_instances s v)" "buf \<noteq> NULL" "got = Some n"
    by (auto elim: uart_ready_cases)
  from uart_read_state [OF inv u [OF v(1)] v(2,3), of len n] run v(1,4) show ?thesis by simp
qed

lemma uart_does_ok:
  "uart_does call s e s' \<Longrightarrow> uart_inv s \<Longrightarrow>
   uart_inv s' \<and> (\<forall>u<MAX_UART_INSTANCES. waiting s' u = waiting_after e s u)"
proof (induction rule: uart_does.induct)
  case (init s uid config s' r)
  from uart_init_step [OF init(2,1)] show ?case by simp
next
  case (deinit uart s s' r)
  then show ?case using uart_deinit_step [of s uart] by simp
next
  case (send uart s data len s' r)
  from uart_send_step [OF send(4,1,2,3)] show ?case .
next
  case (read uart s buf len got s' r)
  with uart_read_same [OF read(3,1,2)] show ?case by simp
next
  case (flush uart s s' r)
  then show ?case using uart_flush_step [of s uart] by simp
next
  case (set_callback uart s cb d s' r)
  then show ?case using uart_callback_step [of s uart] by simp
next
  case (irq s uid)
  then show ?case by simp
next
  case (write_dma uart s data len s' r)
  then show ?case using uart_write_dma_state [of s uart data len] by auto
next
  case (malloc s n h p)
  then have inv: "heap_inv (uheap s)" by (simp add: uart_inv_def)
  have "{p} \<inter> uart_owns s = {}" using malloc_dead [OF malloc(1) inv] uart_owns_live [OF malloc(2), of p] by auto
  from uart_heap_step [OF malloc(2) malloc_touches [OF malloc(1) inv] this] show ?case by simp
next
  case (free s p h)
  then obtain k where k: "heap_inv (uheap s)" "heap_live (uheap s) p = Some k" by (auto simp: uart_inv_def)
  from uart_heap_step [OF free(4) free_touches(1) [OF free(3) k]] free(2) show ?case by simp
next
  case (store s p k f)
  have "heap_inv (uheap s)" using store(4) by (simp add: uart_inv_def)
  note kept = block_store [OF this store(1,3), of "{p}"]
  from uart_heap_step [OF store(4) others_kept_touches [OF kept]] store(2) show ?case by simp
next
  case (outside s p k f)
  have "heap_inv (uheap s)" using outside(3) by (simp add: uart_inv_def)
  from uart_heap_step [OF outside(3) others_kept_touches [OF outside_store [OF this outside(1,2)]], of "{}"] show ?case by simp
qed

lemma uart_step_ok: "uart_step call s s' \<Longrightarrow> uart_inv s \<Longrightarrow> uart_inv s'"
  using uart_does_ok unfolding uart_step_def by blast

definition uart_boot :: "uart_state \<Rightarrow> bool" where
  "uart_boot s \<longleftrightarrow> heap_inv (uheap s) \<and> (\<forall>u. uart_instances s u = zero_uart)"

interpretation uart_runs: invariant_system uart_boot "uart_step call" uart_inv for call
proof
  show "uart_inv s" if "uart_boot s" for s
    using that by (simp add: uart_boot_def uart_inv_def zero_uart_def uart_bufs_def)
  show "uart_inv t" if "uart_step call s t" "uart_inv s" for s t
    using uart_step_ok [OF that] by blast
qed

section \<open>The properties\<close>

text \<open>A booted system, and the configuration of a port with buffers of sixteen bytes.\<close>

definition boot_uart :: uart_state where
  "boot_uart = \<lparr>uheap = example_heap, uart_instances = (\<lambda>_. zero_uart)\<rparr>"

definition small_config :: uart_config where
  "small_config = \<lparr>baud_rate = UART_BAUD_115200, parity = UART_PARITY_NONE, stop_bits = UART_STOPBITS_1,
     data_bits = UART_DATABITS_8, enable_dma = False, enable_interrupts = True, rx_buffer_size = 16, tx_buffer_size = 16\<rparr>"

lemma boot_uart_boot: "uart_boot boot_uart"
  by (simp add: uart_boot_def boot_uart_def example_heap_inv)

lemma uart_boot_inv: "uart_boot s \<Longrightarrow> uart_inv s"
  by (rule uart_runs.initial_inv)

text \<open>An open port 0 after a run of one step, with nothing waiting.\<close>

lemma example_uart:
  obtains s where "uart_step call boot_uart s" "uart_inv s" "uart_initialized (uart_instances s 0)"
    "tx_items s 0 = []" "unat (cb_size (tx_buffer (uart_instances s 0))) = 16"
    "heap_memory (uheap s) = 4096" "uart_init boot_uart 0 (Some small_config) = Some (s, Some 0)"
proof -
  from malloc_blocks [OF example_heap_inv(1), of 16] obtain s1 where
    s1: "rtos_malloc example_heap 16 = Some (s1, 4128)" "heap_inv s1"
      "heap_blocks s1 = [(4096, 16, False), (4144, 65456, True)]"
    by (auto simp: example_heap_inv(2) unat_align_size no_fit_def best_fit_def)
  from malloc_blocks [OF s1(2), of 16] obtain s2 where s2: "rtos_malloc s1 16 = Some (s2, 4176)"
    by (auto simp: s1(3) unat_align_size no_fit_def best_fit_def)
  have "uart_init boot_uart 0 (Some small_config) =
    Some (upd_uart 0 (\<lambda>_. zero_uart\<lparr>uart_cfg := Some small_config,
      rx_buffer := \<lparr>cb_buffer = 4128, cb_size = 16, cb_head = 0, cb_tail = 0, cb_count = 0\<rparr>,
      tx_buffer := \<lparr>cb_buffer = 4176, cb_size = 16, cb_head = 0, cb_tail = 0, cb_count = 0\<rparr>,
      uart_initialized := True\<rparr>) (boot_uart\<lparr>uheap := s2\<rparr>), Some 0)" (is "_ = Some (?s, _)")
    using s1(1) s2 by (simp add: uart_init_def boot_uart_def small_config_def circ_buf_init_def zero_uart_def MAX_UART_INSTANCES_def)
  note init = this
  then have st: "uart_step call boot_uart ?s" unfolding uart_step_def by (blast intro: uart_does.init)
  have "heap_memory s2 = heap_memory example_heap"
    using malloc_heap_memory [OF s1(1)] malloc_heap_memory [OF s2] by simp
  moreover have "heap_memory example_heap = 4096" by (simp add: example_heap_def boot_heap_def memory_init_def Let_def)
  ultimately have "heap_memory (uheap ?s) = 4096" by (simp add: upd_uart_def)
  moreover have "uart_inv ?s" using uart_step_ok [OF st] boot_uart_boot uart_boot_inv by blast
  ultimately show thesis using that [OF st] init by (simp add: upd_uart_def tx_items_def cb_items_def)
qed

text \<open>C32: opening a closed port either fails, with everything it had allocated given back, or yields
  the port with two empty buffers of the configured sizes in fresh heap blocks; closing it then
  releases exactly those blocks.\<close>

theorem uart_open_close:
  assumes "uart_inv s" and "unat uid < MAX_UART_INSTANCES" and "\<not> uart_initialized (uart_instances s (unat uid))"
  shows "\<exists>s' r. uart_init s uid (Some cfg) = Some (s', r) \<and> uart_inv s'
    \<and> (case r of
         None \<Rightarrow> heap_live (uheap s') = heap_live (uheap s) \<and> \<not> uart_ready s' (Some (unat uid))
       | Some u \<Rightarrow> u = unat uid \<and> uart_ready s' (Some u) \<and> tx_items s' u = []
           \<and> unat (cb_size (rx_buffer (uart_instances s' u))) = unat (rx_buffer_size cfg)
           \<and> unat (cb_size (tx_buffer (uart_instances s' u))) = unat (tx_buffer_size cfg)
           \<and> (\<exists>s''. uart_deinit s' (Some u) = Some (s'', RTOS_OK) \<and> uart_inv s'' \<and> \<not> uart_ready s'' (Some u)
                 \<and> heap_live (uheap s'') = heap_live (uheap s)))"
proof -
  have hinv: "heap_inv (uheap s)" using assms(1) by (simp add: uart_inv_def)
  show ?thesis
  proof (cases rule: uart_init_cases [OF hinv assms(2,3), of cfg])
    case (1 h hd)
    from touches_none_live [OF 1(3)] uart_init_step [OF assms(1) 1(1)] 1 show ?thesis by (simp add: uart_ready_def upd_uart_def)
  next
    case (2 h p q i j)
    define s' where "s' = upd_uart (unat uid) (\<lambda>_. zero_uart\<lparr>uart_id := uid, uart_cfg := Some cfg,
         rx_buffer := \<lparr>cb_buffer = p, cb_size = ucast (rx_buffer_size cfg), cb_head = 0, cb_tail = 0, cb_count = 0\<rparr>,
         tx_buffer := \<lparr>cb_buffer = q, cb_size = ucast (tx_buffer_size cfg), cb_head = 0, cb_tail = 0, cb_count = 0\<rparr>,
         uart_initialized := True\<rparr>) (s\<lparr>uheap := h\<rparr>)"
    have run: "uart_init s uid (Some cfg) = Some (s', Some (unat uid))" using 2(1) by (simp add: s'_def)
    have inv': "uart_inv s'" using uart_init_step [OF assms(1) run] by simp
    have op: "uart_initialized (uart_instances s' (unat uid))" and live': "heap_live (uheap s') = heap_live h"
      and bufs: "cb_buffer (rx_buffer (uart_instances s' (unat uid))) = p" "cb_buffer (tx_buffer (uart_instances s' (unat uid))) = q"
      by (simp_all add: s'_def upd_uart_def)
    have "(heap_live h)(p := None, q := None) = heap_live (uheap s)" using 2(3-5,8) by auto
    with uart_deinit_state [OF inv' assms(2) op] obtain s'' where
      d: "uart_deinit s' (Some (unat uid)) = Some (s'', RTOS_OK)" "\<not> uart_initialized (uart_instances s'' (unat uid))"
        "heap_live (uheap s'') = heap_live (uheap s)"
      unfolding live' bufs by (auto simp: upd_uart_def)
    have "uart_inv s''" using uart_deinit_step [OF inv' _ d(1)] assms(2) by simp
    with run inv' d op show ?thesis
      by (auto simp: uart_ready_def tx_items_def cb_items_def)
        (simp_all add: s'_def upd_uart_def unat_ucast_size)
  qed
qed

theorem uart_open_close_witness:
  "\<exists>s r. uart_init boot_uart 2 (Some small_config) = Some (s, r) \<and> uart_inv s"
  using uart_open_close [OF uart_boot_inv [OF boot_uart_boot], of 2 small_config]
  by (auto simp: boot_uart_def zero_uart_def MAX_UART_INSTANCES_def)

text \<open>C31: a write to an open port appends the bytes of the client to those waiting and answers
  \<open>RTOS_OK\<close> when all of them fit; otherwise the bytes that fit stay appended although the answer is
  \<open>RTOS_ERROR_BUSY\<close>. No other block of the heap changes.\<close>

theorem uart_write_outcome:
  assumes "uart_inv s" and "u < MAX_UART_INSTANCES" and "uart_initialized (uart_instances s u)"
    and "data \<noteq> NULL" and "client_bytes s data (unat len)" and "0 < unat len"
  shows "\<exists>s'. uart_write call s (Some u) data len =
      (s', if unat len \<le> unat (cb_size (tx_buffer (uart_instances s u))) - length (tx_items s u) then RTOS_OK else RTOS_ERROR_BUSY)
    \<and> uart_inv s'
    \<and> tx_items s' u = tx_items s u @ bytes_at (mem (uheap s)) data
        (min (unat len) (unat (cb_size (tx_buffer (uart_instances s u))) - length (tx_items s u)))
    \<and> others_kept (uheap s) (uheap s') {cb_buffer (tx_buffer (uart_instances s u))}"
  using uart_write_state [OF assms, of call] by blast

theorem uart_write_outcome_witness:
  "\<exists>s s'. uart_write (\<lambda>_ _ _ s. s) s (Some 0) 100 20 = (s', RTOS_ERROR_BUSY) \<and> length (tx_items s' 0) = 16"
proof -
  obtain s where s: "uart_inv s" "uart_initialized (uart_instances s 0)" "tx_items s 0 = []"
    "unat (cb_size (tx_buffer (uart_instances s 0))) = 16" "heap_memory (uheap s) = 4096" by (rule example_uart)
  have hinv: "heap_inv (uheap s)" using s(1) by (simp add: uart_inv_def)
  have "client_bytes s 100 20" unfolding client_bytes_def
    using live_in_heap [OF hinv] s(5) by fastforce
  from uart_write_outcome [OF s(1) _ s(2), of 100 20 "\<lambda>_ _ _ s. s"] this s(3,4) obtain s' where
    "uart_write (\<lambda>_ _ _ s. s) s (Some 0) 100 20 = (s', RTOS_ERROR_BUSY)"
    "tx_items s' 0 = bytes_at (mem (uheap s)) 100 16" by (auto simp: MAX_UART_INSTANCES_def)
  moreover from this(2) have "length (tx_items s' 0) = 16" by simp
  ultimately show ?thesis by blast
qed

text \<open>C14: in every reachable state the heap is well formed, every open port owns two live heap blocks
  shared with no other port, the indices of its buffers are consistent, and every step changes the
  bytes waiting for transmission at every port exactly as \<open>waiting_after\<close> says: a write of the port
  appends the bytes that fit, they leave only when the port itself is flushed or closed, and no other
  operation, interrupt handler or step of a client changes them. Nothing transmits them.\<close>

theorem uart_always_consistent:
  assumes "uart_boot s0" and "(uart_step call)\<^sup>*\<^sup>* s0 s"
  shows "uart_inv s
    \<and> (\<forall>e s'. uart_does call s e s' \<longrightarrow> (\<forall>u<MAX_UART_INSTANCES. waiting s' u = waiting_after e s u))"
  using uart_runs.reachable_inv [OF assms] uart_does_ok by blast

theorem uart_always_consistent_witness:
  "\<exists>s s'. uart_step (\<lambda>_ _ _ s. s) boot_uart s \<and> uart_inv s \<and> waiting s 0 = Some []
     \<and> uart_does (\<lambda>_ _ _ s. s) s (SEND (Some 0) 100 20) s' \<and> waiting s' 0 = Some (bytes_at (mem (uheap s)) 100 16)"
proof -
  let ?c = "\<lambda>_ _ _ s :: uart_state. s"
  obtain s where s: "uart_step ?c boot_uart s" "uart_inv s" "uart_initialized (uart_instances s 0)"
    "tx_items s 0 = []" "unat (cb_size (tx_buffer (uart_instances s 0))) = 16" "heap_memory (uheap s) = 4096"
    by (rule example_uart)
  have hinv: "heap_inv (uheap s)" using s(2) by (simp add: uart_inv_def)
  have mine: "client_bytes s 100 (unat (20 :: size_t))" unfolding client_bytes_def
    using live_in_heap [OF hinv] s(6) by fastforce
  obtain s' r where w: "uart_write ?c s (Some 0) 100 20 = (s', r)" by (metis prod.exhaust)
  have st: "uart_does ?c s (SEND (Some 0) 100 20) s'"
    by (rule uart_does.send [OF _ mine w]) (simp add: MAX_UART_INSTANCES_def)
  have "(uart_step ?c)\<^sup>*\<^sup>* boot_uart s" using s(1) by (rule r_into_rtranclp)
  from uart_always_consistent [OF boot_uart_boot this] st
  have "waiting s' 0 = waiting_after (SEND (Some 0) 100 20) s 0" by (simp add: MAX_UART_INSTANCES_def)
  moreover have "waiting s 0 = Some []" using s(3,4) by (simp add: waiting_def)
  moreover have "room s 0 = 16" using s(4,5) by (simp add: room_def)
  ultimately show ?thesis using s(1,2) st by auto
qed

text \<open>C34: no byte is ever received: whatever the driver and its clients do, an open port has nothing
  available, and a read answers \<open>RTOS_OK\<close> with zero bytes and changes nothing.\<close>

theorem uart_never_receives:
  assumes "uart_boot s0" and "(uart_step call)\<^sup>*\<^sup>* s0 s"
    and "u < MAX_UART_INSTANCES" and "uart_initialized (uart_instances s u)" and "buf \<noteq> NULL"
  shows "uart_available s (Some u) = 0 \<and> uart_read s (Some u) buf len (Some n) = (s, RTOS_OK, Some 0)"
proof -
  have inv: "uart_inv s" using uart_runs.reachable_inv [OF assms(1,2)] .
  then have "cb_count (rx_buffer (uart_instances s u)) = 0"
    using uart_invD [OF inv assms(3,4)] by (simp add: uart_open_ok_def)
  with uart_read_state [OF inv assms(3-5)] assms(4) show ?thesis
    by (simp add: uart_available_def uart_ready_def circ_buf_available_def)
qed

theorem uart_never_receives_witness:
  "\<exists>s. uart_step (\<lambda>_ _ _ s. s) boot_uart s \<and> uart_read s (Some 0) 100 8 (Some 5) = (s, RTOS_OK, Some 0)"
proof -
  obtain s where s: "uart_step (\<lambda>_ _ _ s. s) boot_uart s" "uart_initialized (uart_instances s 0)" by (rule example_uart)
  have "(uart_step (\<lambda>_ _ _ s. s))\<^sup>*\<^sup>* boot_uart s" using s(1) by (rule r_into_rtranclp)
  from uart_never_receives [OF boot_uart_boot this _ s(2), of 100 8 5] s show ?thesis
    by (auto simp: MAX_UART_INSTANCES_def)
qed

end
