(* ===== verification/Framework_Props.thy ===== *)
theory Framework_Props imports Driver_Framework Uart_Props begin

text \<open>
  The properties of the driver framework: the registries keep distinct names within their bounds and
  the lookups are exact; the initialisation of all devices runs the callbacks in stable order of
  priority when they succeed, and stops at the first device that fails.
\<close>

section \<open>Searches\<close>

lemma first_index_numeral [simp]:
  "first_index P i (numeral k) = (if P i then Some i else first_index P (i + 1) (pred_numeral k))"
  by (simp add: numeral_eq_Suc)

lemma first_index_None: "first_index P i n = None \<longleftrightarrow> (\<forall>j. i \<le> j \<and> j < i + n \<longrightarrow> \<not> P j)"
proof (induction n arbitrary: i)
  case 0
  show ?case by auto
next
  case (Suc n)
  have range: "i \<le> j \<and> j < i + Suc n \<longleftrightarrow> j = i \<or> i + 1 \<le> j \<and> j < i + 1 + n" for j by auto
  show ?case using Suc.IH [of "i + 1"] unfolding range by auto
qed

lemma first_index_Some:
  "first_index P i n = Some k \<Longrightarrow> i \<le> k \<and> k < i + n \<and> P k \<and> (\<forall>j. i \<le> j \<and> j < k \<longrightarrow> \<not> P j)"
proof (induction n arbitrary: i)
  case (Suc n)
  show ?case
  proof (cases "P i")
    case False
    with Suc.prems have "first_index P (i + 1) n = Some k" by simp
    from Suc.IH [OF this] have k: "i + 1 \<le> k" "k < i + 1 + n" "P k" and before: "\<And>j. i + 1 \<le> j \<Longrightarrow> j < k \<Longrightarrow> \<not> P j" by auto
    have "\<not> P j" if "i \<le> j" "j < k" for j using False before [of j] that by (cases "j = i") auto
    moreover have "i \<le> k" "k < i + Suc n" using k(1,2) by simp_all
    ultimately show ?thesis using k(3) by blast
  qed (use Suc.prems in auto)
qed simp

lemma first_index_unique:
  assumes "k < n" and "P k" and "\<And>j. j < n \<Longrightarrow> P j \<Longrightarrow> j = k"
  shows "first_index P 0 n = Some k"
proof (cases "first_index P 0 n")
  case None
  with assms(1,2) show ?thesis by (simp add: first_index_None)
next
  case (Some j)
  from first_index_Some [OF this] have "j < n" "P j" by simp_all
  with assms(3) Some show ?thesis by blast
qed

section \<open>The registries\<close>

text \<open>Names registered are present and distinct, and the counts within the arrays.\<close>

definition registry_ok :: "world \<Rightarrow> bool" where
  "registry_ok w \<longleftrightarrow> unat (driver_count w) \<le> MAX_DRIVERS \<and> unat (device_count w) \<le> MAX_DEVICES
     \<and> (\<forall>i<unat (driver_count w). drv_name (driver_registry w i) \<noteq> None)
     \<and> (\<forall>i<unat (device_count w). dev_name (device_registry w i) \<noteq> None \<and> dev_driver_name (device_registry w i) \<noteq> None)
     \<and> inj_on (\<lambda>i. drv_name (driver_registry w i)) {..<unat (driver_count w)}
     \<and> inj_on (\<lambda>i. dev_name (device_registry w i)) {..<unat (device_count w)}"

lemma count_suc: "unat (c :: u32) < 1000 \<Longrightarrow> unat (c + 1) = unat c + 1"
  by (simp add: unat_add_small)

lemma driver_register_cases:
  obtains (refused) r where "driver_register w d = (w, r)" "r \<noteq> DEVICE_STATUS_OK"
  | (added) e where "d = Some e" "driver_register w d = (w\<lparr>driver_registry := (driver_registry w)(unat (driver_count w) := e),
        driver_count := driver_count w + 1\<rparr>, DEVICE_STATUS_OK)"
      "drv_name e \<noteq> None" "unat (driver_count w) < MAX_DRIVERS"
      "\<forall>i<unat (driver_count w). drv_name (driver_registry w i) \<noteq> drv_name e"
  by (cases "driver_register w d")
    (auto simp: driver_register_def first_index_None split: option.splits if_splits)

lemma device_register_cases:
  obtains (refused) r where "device_register w d = (w, r)" "r \<noteq> DEVICE_STATUS_OK"
  | (added) e where "d = Some e" "device_register w d = (w\<lparr>device_registry := (device_registry w)(unat (device_count w) := e),
        device_count := device_count w + 1\<rparr>, DEVICE_STATUS_OK)"
      "dev_name e \<noteq> None" "dev_driver_name e \<noteq> None" "unat (device_count w) < MAX_DEVICES"
      "\<forall>i<unat (device_count w). dev_name (device_registry w i) \<noteq> dev_name e"
  by (cases "device_register w d")
    (auto simp: device_register_def first_index_None split: option.splits if_splits)

lemma inj_on_extend: "inj_on f {..<n} \<Longrightarrow> (\<forall>i<n. f i \<noteq> x) \<Longrightarrow> inj_on (f(n := x)) {..<n + 1}" for n :: nat
  by (auto simp: inj_on_def less_Suc_eq)

lemma driver_register_ok: "registry_ok w \<Longrightarrow> driver_register w d = (w', r) \<Longrightarrow> registry_ok w'"
proof (cases rule: driver_register_cases [of w d])
  case (added e)
  assume ok: "registry_ok w" and run: "driver_register w d = (w', r)"
  have n: "unat (driver_count w + 1) = unat (driver_count w) + 1" using added(4) by (simp add: MAX_DRIVERS_def count_suc)
  have "inj_on ((\<lambda>i. drv_name (driver_registry w i))(unat (driver_count w) := drv_name e)) {..<unat (driver_count w) + 1}"
    using ok added(5) by (intro inj_on_extend) (auto simp: registry_ok_def)
  moreover have "(\<lambda>i. drv_name (((driver_registry w)(unat (driver_count w) := e)) i)) =
      (\<lambda>i. drv_name (driver_registry w i))(unat (driver_count w) := drv_name e)" by (simp add: fun_eq_iff)
  ultimately show ?thesis using ok run added n by (auto simp: registry_ok_def less_Suc_eq)
qed auto

lemma device_register_ok: "registry_ok w \<Longrightarrow> device_register w d = (w', r) \<Longrightarrow> registry_ok w'"
proof (cases rule: device_register_cases [of w d])
  case (added e)
  assume ok: "registry_ok w" and run: "device_register w d = (w', r)"
  have n: "unat (device_count w + 1) = unat (device_count w) + 1" using added(5) by (simp add: MAX_DEVICES_def count_suc)
  have "inj_on ((\<lambda>i. dev_name (device_registry w i))(unat (device_count w) := dev_name e)) {..<unat (device_count w) + 1}"
    using ok added(6) by (intro inj_on_extend) (auto simp: registry_ok_def)
  moreover have "(\<lambda>i. dev_name (((device_registry w)(unat (device_count w) := e)) i)) =
      (\<lambda>i. dev_name (device_registry w i))(unat (device_count w) := dev_name e)" by (simp add: fun_eq_iff)
  ultimately show ?thesis using ok run added n by (auto simp: registry_ok_def less_Suc_eq)
qed auto

section \<open>The choice of the next device\<close>

definition pending :: "(nat \<Rightarrow> device) \<Rightarrow> nat \<Rightarrow> bool" where
  "pending reg i \<longleftrightarrow> \<not> dev_initialized (reg i) \<and> init_priority (reg i) < 255"

lemma extend_range:
  assumes "\<forall>j. i + 1 \<le> j \<and> j < i + 1 + n \<and> P j \<longrightarrow> Q j" and "P i \<Longrightarrow> Q i"
  shows "\<forall>j. i \<le> j \<and> j < i + Suc n \<and> P j \<longrightarrow> Q j"
proof (intro allI impI)
  fix j assume "i \<le> j \<and> j < i + Suc n \<and> P j"
  with assms show "Q j" by (cases "j = i") auto
qed

text \<open>\<open>k\<close> is the first of the least uninitialised devices among the \<open>n\<close> from \<open>i\<close>, and below \<open>mp\<close>.\<close>

definition first_least :: "(nat \<Rightarrow> device) \<Rightarrow> nat \<Rightarrow> nat \<Rightarrow> u8 \<Rightarrow> nat \<Rightarrow> bool" where
  "first_least reg i n mp k \<longleftrightarrow> i \<le> k \<and> k < i + n \<and> \<not> dev_initialized (reg k) \<and> init_priority (reg k) < mp
     \<and> (\<forall>j. i \<le> j \<and> j < i + n \<and> \<not> dev_initialized (reg j) \<longrightarrow>
          init_priority (reg k) \<le> init_priority (reg j) \<and> (j < k \<longrightarrow> init_priority (reg k) < init_priority (reg j)))"

lemma first_least_extend:
  assumes "first_least reg (i + 1) n mp k" and "\<not> dev_initialized (reg i) \<longrightarrow> init_priority (reg k) < init_priority (reg i)"
    and "mp \<le> mp'"
  shows "first_least reg i (Suc n) mp' k"
proof -
  note k = assms(1) [unfolded first_least_def]
  then have "\<forall>j. i \<le> j \<and> j < i + Suc n \<and> \<not> dev_initialized (reg j) \<longrightarrow>
      init_priority (reg k) \<le> init_priority (reg j) \<and> (j < k \<longrightarrow> init_priority (reg k) < init_priority (reg j))"
    by (intro extend_range) (use assms(2) in auto)
  moreover have "init_priority (reg k) < mp'" using k assms(3) by (auto intro: less_le_trans)
  ultimately show ?thesis using k by (simp add: first_least_def)
qed

lemma first_least_here:
  assumes "\<forall>j. i + 1 \<le> j \<and> j < i + 1 + n \<longrightarrow> dev_initialized (reg j) \<or> init_priority (reg i) \<le> init_priority (reg j)"
    and "\<not> dev_initialized (reg i)" and "init_priority (reg i) < mp"
  shows "first_least reg i (Suc n) mp i"
proof -
  have "\<forall>j. i \<le> j \<and> j < i + Suc n \<and> \<not> dev_initialized (reg j) \<longrightarrow>
      init_priority (reg i) \<le> init_priority (reg j) \<and> (j < i \<longrightarrow> init_priority (reg i) < init_priority (reg j))"
    by (rule extend_range) (use assms(1) in auto)
  with assms(2,3) show ?thesis by (simp add: first_least_def)
qed

lemma next_device_cases:
  "(\<forall>j. i \<le> j \<and> j < i + n \<longrightarrow> dev_initialized (reg j) \<or> mp \<le> init_priority (reg j)) \<and> next_device reg i n nd mp = nd
   \<or> (\<exists>k. next_device reg i n nd mp = Some k \<and> first_least reg i n mp k)"
proof (induction n arbitrary: i nd mp)
  case 0
  show ?case by auto
next
  case (Suc n)
  have range: "i \<le> j \<and> j < i + Suc n \<longleftrightarrow> j = i \<or> i + 1 \<le> j \<and> j < i + 1 + n" for j by auto
  show ?case
  proof (cases "\<not> dev_initialized (reg i) \<and> init_priority (reg i) < mp")
    case False
    have run: "next_device reg i (Suc n) nd mp = next_device reg (i + 1) n nd mp"
      unfolding next_device.simps if_not_P [OF False] ..
    have "first_least reg i (Suc n) mp k" if "first_least reg (i + 1) n mp k" for k
      by (rule first_least_extend [OF that]) (use that False in \<open>auto simp: first_least_def\<close>)
    moreover have "dev_initialized (reg i) \<or> mp \<le> init_priority (reg i)" using False by auto
    ultimately show ?thesis using Suc.IH [of "i + 1" mp nd] unfolding run range by metis
  next
    case True
    then have run: "next_device reg i (Suc n) nd mp = next_device reg (i + 1) n (Some i) (init_priority (reg i))" by simp
    have "first_least reg i (Suc n) mp k" if "first_least reg (i + 1) n (init_priority (reg i)) k" for k
      by (rule first_least_extend [OF that]) (use that True in \<open>auto simp: first_least_def\<close>)
    with Suc.IH [of "i + 1" "init_priority (reg i)" "Some i"] True first_least_here [of i n reg mp] show ?thesis
      unfolding run by blast
  qed
qed

lemma next_device_None:
  "next_device reg 0 n None 255 = None \<longleftrightarrow> (\<forall>j<n. \<not> pending reg j)"
  using next_device_cases [of 0 n reg 255 None] by (fastforce simp: pending_def first_least_def)

lemma next_device_Some:
  assumes "next_device reg 0 n None 255 = Some k"
  shows "k < n \<and> pending reg k \<and> (\<forall>j<n. pending reg j \<longrightarrow>
     init_priority (reg k) \<le> init_priority (reg j) \<and> (j < k \<longrightarrow> init_priority (reg k) < init_priority (reg j)))"
  using next_device_cases [of 0 n reg 255 None] assms by (auto simp: pending_def first_least_def)

lemma next_device_unique:
  assumes "k < n" and "pending reg k" and "\<And>j. j < n \<Longrightarrow> pending reg j \<Longrightarrow> init_priority (reg k) \<le> init_priority (reg j)"
    and "\<And>j. j < k \<Longrightarrow> pending reg j \<Longrightarrow> init_priority (reg k) < init_priority (reg j)"
  shows "next_device reg 0 n None 255 = Some k"
proof (cases "next_device reg 0 n None 255")
  case None
  with assms(1,2) show ?thesis by (simp add: next_device_None)
next
  case (Some l)
  note l = next_device_Some [OF Some]
  have "\<not> l < k" using assms(4) [of l] l assms(1,2) by fastforce
  moreover have "\<not> k < l" using assms(3) [of l] l assms(1,2) by fastforce
  ultimately show ?thesis using Some by simp
qed

section \<open>The order of initialisation\<close>

text \<open>The reference: the devices waiting, sorted stably by priority, one after the other.\<close>

definition init_order :: "world \<Rightarrow> nat list" where
  "init_order w = sort_key (\<lambda>i. init_priority (device_registry w i))
     (filter (pending (device_registry w)) [0..<unat (device_count w)])"

fun init_in_order ::
    "(driver_fn \<Rightarrow> nat \<Rightarrow> world \<Rightarrow> (world \<times> device_status) option) \<Rightarrow> nat list \<Rightarrow> world \<Rightarrow> world option" where
  "init_in_order call [] w = Some w"
| "init_in_order call (i # is) w =
     (case init_device call i w of
        Some (w1, None) \<Rightarrow> init_in_order call is w1
      | _ \<Rightarrow> None)"

text \<open>What the header asks of a callback: of the registries it changes its device's \<open>driver_data\<close> only.\<close>

definition keeps_registry :: "(driver_fn \<Rightarrow> nat \<Rightarrow> world \<Rightarrow> (world \<times> device_status) option) \<Rightarrow> bool" where
  "keeps_registry call \<longleftrightarrow> (\<forall>f i w w1 r. call f i w = Some (w1, r) \<longrightarrow>
     driver_registry w1 = driver_registry w \<and> driver_count w1 = driver_count w \<and> device_count w1 = device_count w
     \<and> (\<exists>h. device_registry w1 = (device_registry w)(i := device_registry w i\<lparr>driver_data := h\<rparr>)))"

lemma init_device_frame:
  assumes "keeps_registry call" and "init_device call i w = Some (w1, r)"
  shows "device_count w1 = device_count w \<and> driver_count w1 = driver_count w \<and> driver_registry w1 = driver_registry w
    \<and> (\<exists>h. device_registry w1 = (device_registry w)(i := device_registry w i\<lparr>driver_data := h,
           dev_initialized := (if r = None then True else dev_initialized (device_registry w i))\<rparr>))"
proof -
  have self: "(device_registry w)(i := device_registry w i\<lparr>driver_data := driver_data (device_registry w i),
      dev_initialized := dev_initialized (device_registry w i)\<rparr>) = device_registry w" by simp
  show ?thesis
  proof (cases "driver_lookup w (dev_driver_name (device_registry w i))")
    case None
    with assms(2) have "w1 = w" "r \<noteq> None" by (auto simp: init_device_def)
    then show ?thesis using self [symmetric] by (auto intro!: exI [of _ "driver_data (device_registry w i)"])
  next
    case (Some k)
    show ?thesis
    proof (cases "drv_init (driver_registry w k)")
      case None
      with Some assms(2) have "w1 = upd_device i (\<lambda>d. d\<lparr>dev_initialized := True\<rparr>) w" "r = None" by (auto simp: init_device_def)
      then show ?thesis by (auto simp: upd_device_def intro!: exI [of _ "driver_data (device_registry w i)"])
    next
      case (Some f)
      with \<open>driver_lookup w _ = Some k\<close> assms(2) obtain w2 r2 where
        c: "call f i w = Some (w2, r2)" and
        w1: "if r2 \<noteq> DEVICE_STATUS_OK then w1 = w2 \<and> r = Some r2
             else w1 = upd_device i (\<lambda>d. d\<lparr>dev_initialized := True\<rparr>) w2 \<and> r = None"
        by (auto simp: init_device_def split: if_splits Option.bind_splits)
      from assms(1) c obtain h where "driver_registry w2 = driver_registry w" "driver_count w2 = driver_count w"
        "device_count w2 = device_count w" "device_registry w2 = (device_registry w)(i := device_registry w i\<lparr>driver_data := h\<rparr>)"
        unfolding keeps_registry_def by blast
      with w1 show ?thesis by (cases "r2 = DEVICE_STATUS_OK") (auto simp: upd_device_def intro!: exI [of _ h])
    qed
  qed
qed

lemma init_order_head:
  assumes "init_order w = i # is"
  shows "next_device (device_registry w) 0 (unat (device_count w)) None 255 = Some i"
proof -
  let ?f = "\<lambda>i. init_priority (device_registry w i)" and ?xs = "filter (pending (device_registry w)) [0..<unat (device_count w)]"
  have s: "sort_key ?f ?xs = i # is" using assms by (simp add: init_order_def)
  have set: "set ?xs = insert i (set is)" using arg_cong [OF s, of set] by simp
  have "sorted (map ?f (sort_key ?f ?xs))" by simp
  then have least: "?f i \<le> ?f j" if "j \<in> set ?xs" for j using that unfolding s set by auto
  have "i \<in> set ?xs" unfolding set by simp
  then have i: "i < unat (device_count w)" "pending (device_registry w) i" by auto
  have first: "i \<le> j" if "j \<in> set ?xs" "?f j = ?f i" for j
  proof -
    have "filter (\<lambda>y. ?f y = ?f i) ?xs = filter (\<lambda>y. ?f y = ?f i) (sort_key ?f ?xs)"
      by (rule sort_key_stable [symmetric])
    also have "\<dots> = i # filter (\<lambda>y. ?f y = ?f i) is" unfolding s by simp
    finally have eq: "filter (\<lambda>y. ?f y = ?f i) ?xs = i # filter (\<lambda>y. ?f y = ?f i) is" .
    have "sorted (filter (\<lambda>y. ?f y = ?f i) ?xs)" by (intro sorted_wrt_filter) simp
    moreover have "j \<in> set (filter (\<lambda>y. ?f y = ?f i) ?xs)" using that by simp
    ultimately have "sorted (i # filter (\<lambda>y. ?f y = ?f i) is)" "j \<in> set (i # filter (\<lambda>y. ?f y = ?f i) is)"
      unfolding eq by blast+
    then show ?thesis by auto
  qed
  show ?thesis
  proof (rule next_device_unique [OF i])
    show "?f i \<le> ?f j" if "j < unat (device_count w)" "pending (device_registry w) j" for j
      using least that by simp
    show "?f i < ?f j" if "j < i" "pending (device_registry w) j" for j
      using least [of j] first [of j] that i(1) by fastforce
  qed
qed

lemma init_device_order:
  assumes call: "keeps_registry call" and order: "init_order w = i # is" and run: "init_device call i w = Some (w1, None)"
  shows "init_order w1 = is \<and> device_count w1 = device_count w"
proof -
  from init_device_frame [OF call run] obtain h where
    reg: "device_registry w1 = (device_registry w)(i := device_registry w i\<lparr>driver_data := h, dev_initialized := True\<rparr>)"
    and cnt: "device_count w1 = device_count w" by auto
  have "pending (device_registry w1) j \<longleftrightarrow> j \<noteq> i \<and> pending (device_registry w) j" for j
    by (simp add: pending_def reg)
  then have "pending (device_registry w1) = (\<lambda>j. j \<noteq> i \<and> pending (device_registry w) j)" by (simp add: fun_eq_iff)
  moreover have "init_priority (device_registry w1 j) = init_priority (device_registry w j)" for j by (simp add: reg)
  ultimately have "init_order w1 = filter (\<lambda>j. j \<noteq> i) (init_order w)"
    by (simp add: init_order_def cnt filter_sort conj_commute)
  moreover have "distinct (i # is)" unfolding order [symmetric] by (simp add: init_order_def)
  then have "filter (\<lambda>j. j \<noteq> i) (i # is) = is" by (auto simp: filter_id_conv)
  ultimately show ?thesis using order cnt by simp
qed

lemma init_order_Nil: "init_order w = [] \<longleftrightarrow> next_device (device_registry w) 0 (unat (device_count w)) None 255 = None"
proof -
  have "init_order w = [] \<longleftrightarrow> filter (pending (device_registry w)) [0..<unat (device_count w)] = []"
    unfolding init_order_def by (metis length_0_conv length_sort)
  then show ?thesis by (auto simp: next_device_None filter_empty_conv)
qed

lemma init_loop_order:
  assumes call: "keeps_registry call"
  shows "init_in_order call (init_order w) w = Some w' \<Longrightarrow> iter + length (init_order w) \<le> unat (device_count w) \<Longrightarrow>
    init_loop call iter status w = Some (w', status)"
proof (induction "init_order w" arbitrary: w iter)
  case Nil
  then have "next_device (device_registry w) 0 (unat (device_count w)) None 255 = None"
    using init_order_Nil [of w] by metis
  with Nil show ?case by (simp add: init_loop.simps)
next
  case (Cons i "is")
  have order: "init_order w = i # is" using Cons.hyps(2) by simp
  from Cons.prems(1) obtain w1 where r: "init_device call i w = Some (w1, None)" "init_in_order call is w1 = Some w'"
    unfolding order by (auto split: option.splits)
  note o = init_device_order [OF call order r(1)]
  have "init_loop call (iter + 1) status w1 = Some (w', status)"
    using Cons.hyps(1) [of w1 "iter + 1"] o r(2) Cons.prems(2) order by simp
  moreover have "iter < unat (device_count w)" using Cons.prems(2) order by simp
  ultimately show ?case using init_order_head [OF order] r(1) by (simp add: init_loop.simps [of call iter])
qed

lemma init_order_length: "length (init_order w) \<le> unat (device_count w)"
  unfolding init_order_def using length_filter_le [of "pending (device_registry w)" "[0..<unat (device_count w)]"] by simp

text \<open>The device chosen cannot be initialised: it has no driver, or its driver's callback refuses.\<close>

definition device_fails :: "(driver_fn \<Rightarrow> nat \<Rightarrow> world \<Rightarrow> (world \<times> device_status) option) \<Rightarrow> world \<Rightarrow> nat \<Rightarrow> bool" where
  "device_fails call w i \<longleftrightarrow>
     (case driver_lookup w (dev_driver_name (device_registry w i)) of
        None \<Rightarrow> True
      | Some k \<Rightarrow>
          case drv_init (driver_registry w k) of
            None \<Rightarrow> False
          | Some f \<Rightarrow> (\<forall>w' w1. call f i w' \<noteq> Some (w1, DEVICE_STATUS_OK)))"

lemma init_device_fails:
  assumes "device_fails call w i" and "init_device call i w = Some (w1, r)"
  shows "r \<noteq> None"
  using assms by (auto simp: device_fails_def init_device_def split: option.splits if_splits Option.bind_splits)

lemma init_device_status: "init_device call i w = Some (w1, Some r) \<Longrightarrow> r \<noteq> DEVICE_STATUS_OK"
  by (auto simp: init_device_def split: option.splits if_splits Option.bind_splits)

text \<open>The order the rounds choose by, and the devices still to be initialised before device \<open>i\<close>.\<close>

definition ahead :: "(nat \<Rightarrow> device) \<Rightarrow> nat \<Rightarrow> nat \<Rightarrow> bool" where
  "ahead reg j i \<longleftrightarrow> init_priority (reg j) < init_priority (reg i)
     \<or> init_priority (reg j) = init_priority (reg i) \<and> j < i"

definition pending_ahead :: "world \<Rightarrow> nat \<Rightarrow> nat set" where
  "pending_ahead w i = {j. j < unat (device_count w) \<and> pending (device_registry w) j \<and> ahead (device_registry w) j i}"

lemma finite_pending_ahead: "finite (pending_ahead w i)"
  by (simp add: pending_ahead_def)

lemma next_device_ahead:
  assumes "next_device (device_registry w) 0 (unat (device_count w)) None 255 = Some m"
    and "i < unat (device_count w)" and "pending (device_registry w) i"
  shows "m = i \<or> m \<in> pending_ahead w i"
proof -
  note m = next_device_Some [OF assms(1)]
  then have "init_priority (device_registry w m) \<le> init_priority (device_registry w i)"
    "i < m \<Longrightarrow> init_priority (device_registry w m) < init_priority (device_registry w i)" using assms(2,3) by auto
  then show ?thesis using m by (force simp: pending_ahead_def ahead_def)
qed

text \<open>A round for device \<open>m\<close>, seen from a device that waits and fails.\<close>

lemma init_device_step:
  assumes call: "keeps_registry call" and run: "init_device call m w = Some (w1, s)"
  shows "device_count w1 = device_count w" and "ahead (device_registry w1) = ahead (device_registry w)"
    and "device_fails call w1 i = device_fails call w i"
    and "dev_initialized (device_registry w1 j) = (dev_initialized (device_registry w j) \<or> j = m \<and> s = None)"
    and "init_priority (device_registry w1 j) = init_priority (device_registry w j)"
proof -
  from init_device_frame [OF call run] obtain h where
    w1: "device_count w1 = device_count w" "driver_count w1 = driver_count w" "driver_registry w1 = driver_registry w"
      "device_registry w1 = (device_registry w)(m := device_registry w m\<lparr>driver_data := h,
           dev_initialized := (if s = None then True else dev_initialized (device_registry w m))\<rparr>)" by auto
  have look: "driver_lookup w1 = driver_lookup w" using w1(2,3) by (simp add: driver_lookup_def fun_eq_iff)
  have "dev_driver_name (device_registry w1 i) = dev_driver_name (device_registry w i)" by (simp add: w1(4))
  then show "device_fails call w1 i = device_fails call w i" 
    unfolding device_fails_def look w1(3) by simp
  show "device_count w1 = device_count w" by (rule w1(1))
  show prio: "init_priority (device_registry w1 j) = init_priority (device_registry w j)" for j by (simp add: w1(4))
  show "ahead (device_registry w1) = ahead (device_registry w)" by (simp add: ahead_def prio fun_eq_iff)
  show "dev_initialized (device_registry w1 j) = (dev_initialized (device_registry w j) \<or> j = m \<and> s = None)"
    by (cases s) (auto simp: w1(4))
qed

lemma init_loop_blocked:
  assumes call: "keeps_registry call"
  shows "device_fails call w i \<Longrightarrow> i < unat (device_count w) \<Longrightarrow> pending (device_registry w) i \<Longrightarrow>
    status \<noteq> DEVICE_STATUS_OK \<or> iter + card (pending_ahead w i) < unat (device_count w) \<Longrightarrow>
    init_loop call iter status w = Some (w', r) \<Longrightarrow>
    r \<noteq> DEVICE_STATUS_OK \<and> (\<forall>j. \<not> (j < unat (device_count w) \<and> ahead (device_registry w) j i) \<longrightarrow>
      dev_initialized (device_registry w' j) = dev_initialized (device_registry w j))"
proof (induction "unat (device_count w) - iter" arbitrary: w iter status)
  case 0
  then show ?case by (simp add: init_loop.simps [of call iter])
next
  case (Suc n)
  have lt: "iter < unat (device_count w)" using Suc.hyps(2) by simp
  obtain m where m: "next_device (device_registry w) 0 (unat (device_count w)) None 255 = Some m"
    using next_device_None [of "device_registry w" "unat (device_count w)"] Suc.prems(2,3)
    by (cases "next_device (device_registry w) 0 (unat (device_count w)) None 255") auto
  from Suc.prems(5) lt m obtain w1 s where d: "init_device call m w = Some (w1, s)"
    by (auto simp: init_loop.simps [of call iter] split: option.splits)
  note st = init_device_step [OF call d]
  note choice = next_device_ahead [OF m Suc.prems(2,3)]
  define status1 where "status1 = (case s of None \<Rightarrow> status | Some e \<Rightarrow> e)"
  have run: "init_loop call (iter + 1) status1 w1 = Some (w', r)"
    using Suc.prems(5) lt d m by (simp add: init_loop.simps [of call iter] status1_def split: option.splits)
  have mi: "m = i \<Longrightarrow> s \<noteq> None" using init_device_fails Suc.prems(1) d by blast
  then have wait: "pending (device_registry w1) i" using Suc.prems(3) by (auto simp: pending_def st(4,5))
  have rounds: "status1 \<noteq> DEVICE_STATUS_OK \<or> (iter + 1) + card (pending_ahead w1 i) < unat (device_count w1)"
  proof (cases s)
    case (Some e)
    with init_device_status d show ?thesis by (simp add: status1_def)
  next
    case None
    with mi choice have "m \<in> pending_ahead w i" by blast
    moreover have "pending_ahead w1 i = pending_ahead w i - {m}"
      using None by (auto simp: pending_ahead_def pending_def st)
    ultimately have "card (pending_ahead w i) = Suc (card (pending_ahead w1 i))"
      using card.remove [OF finite_pending_ahead] by metis
    with Suc.prems(4) None show ?thesis by (simp add: status1_def st(1))
  qed
  have "r \<noteq> DEVICE_STATUS_OK \<and> (\<forall>j. \<not> (j < unat (device_count w1) \<and> ahead (device_registry w1) j i) \<longrightarrow>
      dev_initialized (device_registry w' j) = dev_initialized (device_registry w1 j))"
    by (rule Suc.hyps(1) [OF _ _ _ wait rounds run]) (use Suc.hyps(2) Suc.prems(1,2) in \<open>simp_all add: st\<close>)
  moreover have "dev_initialized (device_registry w1 j) = dev_initialized (device_registry w j)"
    if "\<not> (j < unat (device_count w) \<and> ahead (device_registry w) j i)" for j
    using that choice mi by (auto simp: st(4) pending_ahead_def)
  ultimately show ?case by (simp add: st(1,2))
qed

section \<open>Runs\<close>

text \<open>What initialising devices leaves of the registries.\<close>

definition same_registry :: "world \<Rightarrow> world \<Rightarrow> bool" where
  "same_registry w w1 \<longleftrightarrow> driver_registry w1 = driver_registry w \<and> driver_count w1 = driver_count w \<and> device_count w1 = device_count w
     \<and> (\<forall>j. dev_name (device_registry w1 j) = dev_name (device_registry w j)
          \<and> dev_driver_name (device_registry w1 j) = dev_driver_name (device_registry w j)
          \<and> init_priority (device_registry w1 j) = init_priority (device_registry w j)
          \<and> (dev_initialized (device_registry w j) \<longrightarrow> dev_initialized (device_registry w1 j))
          \<and> (dev_initialized (device_registry w1 j) \<longrightarrow> dev_initialized (device_registry w j) \<or> pending (device_registry w) j))"

lemma init_device_same:
  assumes "keeps_registry call" and "init_device call i w = Some (w1, r)" and "pending (device_registry w) i"
  shows "same_registry w w1"
  using init_device_frame [OF assms(1,2)] assms(3) by (auto simp: same_registry_def split: if_splits)

lemma init_loop_same:
  "keeps_registry call \<Longrightarrow> init_loop call iter status w = Some (w', r) \<Longrightarrow> same_registry w w'"
proof (induction call iter status w rule: init_loop.induct)
  case (1 call iter status w)
  show ?case
  proof (cases "iter < unat (device_count w)")
    case False
    with "1.prems" show ?thesis by (simp add: init_loop.simps [of call iter] same_registry_def)
  next
    case True
    show ?thesis
    proof (cases "next_device (device_registry w) 0 (unat (device_count w)) None 255")
      case None
      with "1.prems" True show ?thesis by (simp add: init_loop.simps [of call iter] same_registry_def)
    next
      case (Some i)
      with "1.prems"(2) True obtain w1 s where d: "init_device call i w = Some (w1, s)"
        by (auto simp: init_loop.simps [of call iter] split: option.splits)
      have "same_registry w1 w'"
      proof (cases s)
        case None
        with "1.prems" True Some d "1.IH"(1) [OF True Some d refl] show ?thesis by (simp add: init_loop.simps [of call iter])
      next
        case (Some r1)
        with "1.prems" True \<open>next_device _ _ _ _ _ = Some i\<close> d "1.IH"(2) [OF True \<open>next_device _ _ _ _ _ = Some i\<close> d refl]
        show ?thesis by (simp add: init_loop.simps [of call iter])
      qed
      moreover have "same_registry w w1"
        using init_device_same [OF "1.prems"(1) d] next_device_Some [OF Some] by blast
      ultimately show ?thesis by (auto simp: same_registry_def pending_def)
    qed
  qed
qed

text \<open>The initialisation returns if the callbacks do.\<close>

lemma init_loop_total:
  "(\<And>f i w. call f i w \<noteq> None) \<Longrightarrow> init_loop call iter status w \<noteq> None"
proof (induction call iter status w rule: init_loop.induct)
  case (1 call iter status w)
  have d: "init_device call i w \<noteq> None" for i
  proof (cases "\<exists>k f. driver_lookup w (dev_driver_name (device_registry w i)) = Some k \<and> drv_init (driver_registry w k) = Some f")
    case True
    then obtain k f where "driver_lookup w (dev_driver_name (device_registry w i)) = Some k" "drv_init (driver_registry w k) = Some f" by blast
    moreover obtain w1 r where "call f i w = Some (w1, r)" using "1.prems" [of f i w] by auto
    ultimately show ?thesis by (simp add: init_device_def)
  qed (auto simp: init_device_def split: option.splits)
  show ?case
  proof (cases "iter < unat (device_count w) \<and> next_device (device_registry w) 0 (unat (device_count w)) None 255 \<noteq> None")
    case False
    then show ?thesis by (auto simp: init_loop.simps [of call iter])
  next
    case True
    then obtain i w1 r where s: "iter < unat (device_count w)"
      "next_device (device_registry w) 0 (unat (device_count w)) None 255 = Some i" "init_device call i w = Some (w1, r)"
      using d by fastforce
    show ?thesis
    proof (cases r)
      case None
      with s "1.IH"(1) [OF s(1,2), of "(w1, r)" w1 r] "1.prems" show ?thesis by (simp add: init_loop.simps [of call iter])
    next
      case (Some r1)
      with s "1.IH"(2) [OF s(1,2), of "(w1, r)" w1 r] "1.prems" show ?thesis by (simp add: init_loop.simps [of call iter])
    qed
  qed
qed

text \<open>A device of the lowest priority, 255, is never initialised.\<close>

lemma device_priority_255:
  assumes "keeps_registry call" and "device_init_all call w = Some (w', r)" and "init_priority (device_registry w i) = 255"
  shows "dev_initialized (device_registry w' i) = dev_initialized (device_registry w i)"
  using init_loop_same [OF assms(1), of 0 DEVICE_STATUS_OK w w' r] assms(2,3)
  by (auto simp: device_init_all_def same_registry_def pending_def)

lemma registry_ok_same: "same_registry w w1 \<Longrightarrow> registry_ok w \<Longrightarrow> registry_ok w1"
  by (simp add: same_registry_def registry_ok_def)

lemma registry_ok_init: "registry_ok (device_framework_init w)"
  by (simp add: registry_ok_def device_framework_init_def)

inductive framework_step :: "world \<Rightarrow> world \<Rightarrow> bool" where
  reset: "framework_step w (device_framework_init w)"
| driver: "driver_register w d = (w', r) \<Longrightarrow> framework_step w w'"
| device: "device_register w e = (w', r) \<Longrightarrow> framework_step w w'"
| builtin: "framework_step w (device_register_builtin_drivers w)"
| init_all: "keeps_registry call \<Longrightarrow> device_init_all call w = Some (w', r) \<Longrightarrow> framework_step w w'"

definition framework_boot :: "world \<Rightarrow> bool" where
  "framework_boot w \<longleftrightarrow> driver_count w = 0 \<and> device_count w = 0"

interpretation framework_runs: invariant_system framework_boot framework_step registry_ok
proof
  show "registry_ok w" if "framework_boot w" for w using that by (simp add: framework_boot_def registry_ok_def)
  show "registry_ok w'" if "framework_step w w'" "registry_ok w" for w w'
    using that
  proof (induction rule: framework_step.induct)
    case (builtin w)
    have r: "registry_ok (fst (driver_register v d))" if "registry_ok v" for v d
      using driver_register_ok [OF that, of d] by (metis prod.collapse)
    from builtin show ?case unfolding device_register_builtin_drivers_def Let_def by (intro r)
  next
    case (init_all call w w' r)
    then show ?case using init_loop_same registry_ok_same unfolding device_init_all_def by blast
  qed (use registry_ok_init driver_register_ok device_register_ok in blast)+
qed

section \<open>The properties\<close>

text \<open>C22: whatever is registered and initialised, the registries stay within their arrays, no two drivers
  and no two devices share a name, and the lookups are exact: every registered device is found under
  its name and every driver under its name.\<close>

theorem registries_always_exact:
  assumes "framework_boot w0" and "framework_step\<^sup>*\<^sup>* w0 w"
  shows "unat (driver_count w) \<le> MAX_DRIVERS \<and> unat (device_get_count w) \<le> MAX_DEVICES
    \<and> (\<forall>i<unat (device_count w). device_get_by_name w (dev_name (device_registry w i)) = Some i)
    \<and> (\<forall>i<unat (driver_count w). driver_lookup w (drv_name (driver_registry w i)) = Some i)
    \<and> (\<forall>name. device_get_by_name w name = None \<longleftrightarrow> (\<forall>i<unat (device_count w). dev_name (device_registry w i) \<noteq> name))"
proof -
  have ok: "registry_ok w" using framework_runs.reachable_inv [OF assms] .
  have "device_get_by_name w (dev_name (device_registry w i)) = Some i" if "i < unat (device_count w)" for i
  proof -
    have "first_index (\<lambda>j. dev_name (device_registry w j) = dev_name (device_registry w i)) 0 (unat (device_count w)) = Some i"
      by (rule first_index_unique) (use ok that in \<open>auto simp: registry_ok_def inj_on_def\<close>)
    with ok that show ?thesis by (simp add: device_get_by_name_def registry_ok_def)
  qed
  moreover have "driver_lookup w (drv_name (driver_registry w i)) = Some i" if "i < unat (driver_count w)" for i
  proof -
    have "first_index (\<lambda>j. drv_name (driver_registry w j) = drv_name (driver_registry w i)) 0 (unat (driver_count w)) = Some i"
      by (rule first_index_unique) (use ok that in \<open>auto simp: registry_ok_def inj_on_def\<close>)
    with ok that show ?thesis by (simp add: driver_lookup_def registry_ok_def)
  qed
  moreover have "device_get_by_name w name = None \<longleftrightarrow> (\<forall>i<unat (device_count w). dev_name (device_registry w i) \<noteq> name)" for name
    using ok by (auto simp: device_get_by_name_def first_index_None registry_ok_def)
  ultimately show ?thesis using ok by (simp add: registry_ok_def device_get_count_def)
qed

text \<open>A world after booting, with two devices of a client's driver registered, the more urgent one last.\<close>

definition blank_world :: world where
  "blank_world = \<lparr>driver_registry = (\<lambda>_. zero_driver), driver_count = 0, device_registry = (\<lambda>_. zero_device), device_count = 0,
     uarts = boot_uart, i2cs = (\<lambda>_. zero_i2c), spis = (\<lambda>_. zero_spi)\<rparr>"

definition led_driver :: driver where
  "led_driver = \<lparr>drv_name = Some ''led'', drv_init = Some (CLIENT_FN 0), drv_deinit = None\<rparr>"

definition led_device :: "string \<Rightarrow> u8 \<Rightarrow> device" where
  "led_device name p = zero_device\<lparr>dev_name := Some name, dev_driver_name := Some ''led'', init_priority := p\<rparr>"

definition led_world :: world where
  "led_world = fst (device_register (fst (device_register (fst (driver_register blank_world (Some led_driver)))
     (Some (led_device ''red'' 7)))) (Some (led_device ''green'' 3)))"

lemma led_world_eq:
  "led_world = blank_world\<lparr>driver_registry := (\<lambda>_. zero_driver)(0 := led_driver), driver_count := 1,
     device_registry := (\<lambda>_. zero_device)(0 := led_device ''red'' 7, 1 := led_device ''green'' 3), device_count := 2\<rparr>"
  by (simp add: led_world_def driver_register_def device_register_def blank_world_def led_driver_def led_device_def
    MAX_DRIVERS_def MAX_DEVICES_def numeral_2_eq_2)

theorem registries_always_exact_witness:
  "framework_step\<^sup>*\<^sup>* blank_world led_world \<and> device_get_by_name led_world (Some ''green'') = Some 1"
proof -
  define w1 where "w1 = fst (driver_register blank_world (Some led_driver))"
  define w2 where "w2 = fst (device_register w1 (Some (led_device ''red'' 7)))"
  have "framework_step blank_world w1" unfolding w1_def using framework_step.driver by (metis prod.collapse)
  moreover have "framework_step w1 w2" unfolding w2_def using framework_step.device by (metis prod.collapse)
  moreover have "framework_step w2 led_world" unfolding led_world_def w1_def [symmetric] w2_def [symmetric]
    using framework_step.device by (metis prod.collapse)
  ultimately have run: "framework_step\<^sup>*\<^sup>* blank_world led_world" by (auto intro: rtranclp.rtrancl_into_rtrancl)
  have "framework_boot blank_world" by (simp add: framework_boot_def blank_world_def)
  from registries_always_exact [OF this run]
  have "\<forall>i<unat (device_count led_world). device_get_by_name led_world (dev_name (device_registry led_world i)) = Some i" by blast
  moreover have "1 < unat (device_count led_world)" by (simp add: led_world_eq)
  ultimately have "device_get_by_name led_world (dev_name (device_registry led_world 1)) = Some 1" by blast
  moreover have "dev_name (device_registry led_world 1) = Some ''green''" by (simp add: led_world_eq led_device_def)
  ultimately show ?thesis using run by simp
qed

text \<open>The client's callback notes nothing and succeeds.\<close>

definition led_call :: "driver_fn \<Rightarrow> nat \<Rightarrow> world \<Rightarrow> (world \<times> device_status) option" where
  "led_call f i w = Some (w, DEVICE_STATUS_OK)"

lemma keeps_same:
  assumes "\<And>f i w w1 r. call f i w = Some (w1, r) \<Longrightarrow> w1 = w" shows "keeps_registry call"
  unfolding keeps_registry_def
proof (intro allI impI)
  fix f i w w1 r assume "call f i w = Some (w1, r)"
  then have "w1 = w" by (rule assms)
  moreover have "device_registry w = (device_registry w)(i := device_registry w i\<lparr>driver_data := driver_data (device_registry w i)\<rparr>)"
    by simp
  ultimately show "driver_registry w1 = driver_registry w \<and> driver_count w1 = driver_count w \<and> device_count w1 = device_count w
     \<and> (\<exists>h. device_registry w1 = (device_registry w)(i := device_registry w i\<lparr>driver_data := h\<rparr>))" by blast
qed

lemma led_order: "init_order led_world = [1, 0]"
proof -
  have "[0..<2] = [0, 1]" by (simp add: upt_rec)
  then show ?thesis by (simp add: init_order_def led_world_eq pending_def led_device_def zero_device_def)
qed

text \<open>C8: when the callbacks respect the registries, initialising all devices runs exactly the
  initialisations of the devices waiting, sorted by priority and, at equal priority, by order of
  registration: if each succeeds, the outcome is that of running them in that order, with
  \<open>DEVICE_STATUS_OK\<close>.\<close>

theorem device_init_all_in_order:
  assumes "keeps_registry call" and "init_in_order call (init_order w) w = Some w'"
  shows "device_init_all call w = Some (w', DEVICE_STATUS_OK)"
  unfolding device_init_all_def using init_loop_order [OF assms] init_order_length [of w] by simp

theorem device_init_all_in_order_witness:
  "init_order led_world = [1, 0] \<and> (\<exists>w'. device_init_all led_call led_world = Some (w', DEVICE_STATUS_OK)
     \<and> dev_initialized (device_registry w' 0) \<and> dev_initialized (device_registry w' 1))"
proof -
  have k: "keeps_registry led_call" by (rule keeps_same) (simp add: led_call_def)
  obtain w' where w': "init_in_order led_call [1, 0] led_world = Some w'" "dev_initialized (device_registry w' 0)"
    "dev_initialized (device_registry w' 1)"
    by (simp add: init_device_def driver_lookup_def led_world_eq led_device_def led_driver_def led_call_def upd_device_def)
  from device_init_all_in_order [OF k, of led_world w'] w' show ?thesis by (simp add: led_order)
qed

text \<open>C33: a waiting device that cannot be initialised stops the initialisation when its turn comes: it is
  chosen again in every remaining round. An error is reported, and neither it nor any device after it in
  the order of priority and registration is initialised, however many there are; only devices before it
  (more urgent ones, and those of its own priority registered earlier) can be.\<close>

theorem device_init_all_blocked:
  assumes "keeps_registry call" and "i < unat (device_count w)" and "\<not> dev_initialized (device_registry w i)"
    and "init_priority (device_registry w i) < 255"
    and "device_fails call w i" and "device_init_all call w = Some (w', r)"
  shows "r \<noteq> DEVICE_STATUS_OK \<and> \<not> dev_initialized (device_registry w' i)
    \<and> (\<forall>j. \<not> (j < unat (device_count w) \<and> ahead (device_registry w) j i) \<longrightarrow>
         dev_initialized (device_registry w' j) = dev_initialized (device_registry w j))"
proof -
  have wait: "pending (device_registry w) i" using assms(3,4) by (simp add: pending_def)
  have "pending_ahead w i \<subseteq> {..<unat (device_count w)} - {i}" by (auto simp: pending_ahead_def ahead_def)
  then have "pending_ahead w i \<subset> {..<unat (device_count w)}" using assms(2) by blast
  then have "card (pending_ahead w i) < unat (device_count w)" using psubset_card_mono [OF finite_lessThan] by (metis card_lessThan)
  then have "DEVICE_STATUS_OK \<noteq> DEVICE_STATUS_OK \<or> 0 + card (pending_ahead w i) < unat (device_count w)" by simp
  note init_loop_blocked [OF assms(1,5,2) wait this assms(6) [unfolded device_init_all_def]]
  moreover have "\<not> ahead (device_registry w) i i" by (simp add: ahead_def)
  ultimately show ?thesis using assms(3) by blast
qed

text \<open>The device registered first fails and has the lower priority; the other, more urgent one is initialised
  and does not help it.\<close>

theorem device_init_all_blocked_witness:
  "\<exists>w' r. device_init_all (\<lambda>f i w. Some (w, if i = 0 then DEVICE_STATUS_ERROR else DEVICE_STATUS_OK)) led_world = Some (w', r)
     \<and> r \<noteq> DEVICE_STATUS_OK \<and> \<not> dev_initialized (device_registry w' 0)"
proof -
  let ?call = "\<lambda>f i w. Some (w, if i = 0 then DEVICE_STATUS_ERROR else DEVICE_STATUS_OK)"
  have k: "keeps_registry ?call" by (rule keeps_same) simp
  have fails: "device_fails ?call led_world 0" by (auto simp: device_fails_def led_world_eq led_driver_def driver_lookup_def split: if_splits)
  obtain w' r where run: "device_init_all ?call led_world = Some (w', r)"
    using init_loop_total [of ?call 0 DEVICE_STATUS_OK led_world] by (auto simp: device_init_all_def)
  have "0 < unat (device_count led_world)" "\<not> dev_initialized (device_registry led_world 0)"
    "init_priority (device_registry led_world 0) < 255" by (simp_all add: led_world_eq led_device_def zero_device_def)
  from device_init_all_blocked [OF k this fails run] run show ?thesis by blast
qed

section \<open>The built-in drivers\<close>

lemma keep_data [simp]:
  "\<exists>h. reg = reg(i := reg i\<lparr>driver_data := h\<rparr>)" "\<exists>h. reg(i := d\<lparr>driver_data := x\<rparr>) = reg(i := d\<lparr>driver_data := h\<rparr>)"
  by (rule exI [of _ "driver_data (reg i)"]) auto

text \<open>The three callbacks respect the registries, and so does a call if those of the clients do.\<close>

lemma keeps_registry_builtin:
  assumes "keeps_registry (\<lambda>f. case f of CLIENT_FN n \<Rightarrow> client n | _ \<Rightarrow> (\<lambda>i w. None))"
  shows "keeps_registry (call_init client)"
  unfolding keeps_registry_def
proof (intro allI impI)
  fix f i w w1 r assume c: "call_init client f i w = Some (w1, r)"
  have self: "device_registry w = (device_registry w)(i := device_registry w i\<lparr>driver_data := driver_data (device_registry w i)\<rparr>)"
    by simp
  show "driver_registry w1 = driver_registry w \<and> driver_count w1 = driver_count w \<and> device_count w1 = device_count w
     \<and> (\<exists>h. device_registry w1 = (device_registry w)(i := device_registry w i\<lparr>driver_data := h\<rparr>))"
  proof (cases f)
    case (CLIENT_FN n)
    with c have "(\<lambda>f. case f of CLIENT_FN n \<Rightarrow> client n | _ \<Rightarrow> (\<lambda>i w. None)) (CLIENT_FN n) i w = Some (w1, r)"
      by (simp add: call_init_def)
    with assms show ?thesis unfolding keeps_registry_def by blast
  next
    case DRIVER_UART_INIT
    with c self show ?thesis
      by (auto simp: call_init_def driver_uart_init_def upd_device_def Let_def
        split: option.splits config_object.splits Option.bind_splits)
  next
    case DRIVER_I2C_INIT
    with c self show ?thesis
      by (auto simp: call_init_def driver_i2c_init_def upd_device_def Let_def split: option.splits config_object.splits prod.splits)
  next
    case DRIVER_SPI_INIT
    with c self show ?thesis
      by (auto simp: call_init_def driver_spi_init_def upd_device_def Let_def split: option.splits config_object.splits prod.splits)
  qed
qed

lemma builtin_registered:
  "driver_lookup (device_register_builtin_drivers (device_framework_init w)) (Some ''uart_driver'') = Some 0
   \<and> driver_registry (device_register_builtin_drivers (device_framework_init w)) 0
       = \<lparr>drv_name = Some ''uart_driver'', drv_init = Some DRIVER_UART_INIT, drv_deinit = None\<rparr>
   \<and> device_count (device_register_builtin_drivers (device_framework_init w)) = 0
   \<and> uarts (device_register_builtin_drivers (device_framework_init w)) = uarts w"
  by (simp add: device_register_builtin_drivers_def driver_register_def device_framework_init_def driver_lookup_def
    MAX_DRIVERS_def Let_def zero_driver_def)

text \<open>A world with the built-in drivers and one device.\<close>

definition world_with :: "world \<Rightarrow> device \<Rightarrow> world" where
  "world_with w d = fst (device_register (device_register_builtin_drivers (device_framework_init w)) (Some d))"

lemma world_with_facts:
  assumes "dev_name d \<noteq> None" and "dev_driver_name d = Some ''uart_driver''"
  shows "device_count (world_with w d) = 1" and "device_registry (world_with w d) 0 = d" and "uarts (world_with w d) = uarts w"
    and "driver_lookup (world_with w d) (Some ''uart_driver'') = Some 0"
    and "drv_init (driver_registry (world_with w d) 0) = Some DRIVER_UART_INIT"
  using builtin_registered [of w] assms
  by (auto simp: world_with_def device_register_def MAX_DEVICES_def driver_lookup_def)

lemma init_one_device:
  assumes d: "dev_name d \<noteq> None" "dev_driver_name d = Some ''uart_driver''" "init_priority d < 255" "\<not> dev_initialized d"
    and run: "driver_uart_init (Some 0) (world_with w d) = Some (w1, r)" "device_count w1 = 1"
  shows "device_init_all (call_init client) (world_with w d) =
    (if r = DEVICE_STATUS_OK then Some (upd_device 0 (\<lambda>d. d\<lparr>dev_initialized := True\<rparr>) w1, DEVICE_STATUS_OK) else Some (w1, r))"
proof -
  note f = world_with_facts [OF d(1,2), of w]
  have nd: "next_device (device_registry (world_with w d)) 0 (unat (device_count (world_with w d))) None 255 = Some 0"
    using d(3,4) by (simp add: f)
  have "init_device (call_init client) 0 (world_with w d) =
    (if r = DEVICE_STATUS_OK then Some (upd_device 0 (\<lambda>d. d\<lparr>dev_initialized := True\<rparr>) w1, None) else Some (w1, Some r))"
    using run(1) d(2) by (simp add: init_device_def f call_init_def)
  moreover have "init_loop call 1 st v = Some (v, st)" if "device_count v = 1" for call st v
    using that by (subst init_loop.simps) simp
  ultimately show ?thesis
    using nd run(2) by (simp add: device_init_all_def init_loop.simps [of _ 0] f upd_device_def)
qed

text \<open>The framework, the UART driver and the heap together: after registering the built-in drivers
  and a UART device with a configuration, initialising all devices either opens its port and leaves
  the handle in the device, or reports the failure with the device uninitialised and the heap as it
  was; the driver's invariant is kept.\<close>

lemma uart_device_initialised:
  assumes "uart_inv (uarts w)" and "dev_name d \<noteq> None" and "dev_driver_name d = Some ''uart_driver''"
    and "platform_data d = Some (UART_CONFIG cfg)" and "init_priority d < 255" and "\<not> dev_initialized d"
    and "unat (dev_id d) < MAX_UART_INSTANCES" and "\<not> uart_ready (uarts w) (Some (unat (dev_id d)))"
  shows "\<exists>w' r. device_init_all (call_init client) (world_with w d) = Some (w', r) \<and> uart_inv (uarts w')
    \<and> (if r = DEVICE_STATUS_OK
       then dev_initialized (device_registry w' 0) \<and> driver_data (device_registry w' 0) = Some (UART_HANDLE (unat (dev_id d)))
          \<and> uart_ready (uarts w') (Some (unat (dev_id d)))
       else r = DEVICE_STATUS_ERROR \<and> \<not> dev_initialized (device_registry w' 0)
          \<and> heap_live (uheap (uarts w')) = heap_live (uheap (uarts w)))"
proof -
  note f = world_with_facts [OF assms(2,3), of w]
  have closed: "\<not> uart_initialized (uart_instances (uarts w) (unat (dev_id d)))" using assms(8) by (simp add: uart_ready_def)
  have hinv: "heap_inv (uheap (uarts w))" using assms(1) by (simp add: uart_inv_def)
  have one: "device_init_all (call_init client) (world_with w d) =
      (if r = DEVICE_STATUS_OK then Some (upd_device 0 (\<lambda>d. d\<lparr>dev_initialized := True\<rparr>) w1, DEVICE_STATUS_OK) else Some (w1, r))"
    if "driver_uart_init (Some 0) (world_with w d) = Some (w1, r)" "device_count w1 = 1" for w1 r
    using init_one_device [OF assms(2,3,5,6) that] .
  show ?thesis
  proof (cases rule: uart_init_cases [OF hinv assms(7) closed, of cfg])
    case (1 h hd)
    define u where "u = upd_uart (unat (dev_id d)) (\<lambda>_. hd) (uarts w\<lparr>uheap := h\<rparr>)"
    have u: "uart_init (uarts w) (dev_id d) (Some cfg) = Some (u, None)" using 1(1) by (simp add: u_def)
    then have "driver_uart_init (Some 0) (world_with w d) = Some ((world_with w d)\<lparr>uarts := u\<rparr>, DEVICE_STATUS_ERROR)"
      by (simp add: driver_uart_init_def f assms(4))
    from one [OF this] uart_init_step [OF assms(1) u] touches_none_live [OF 1(3)] assms(6) show ?thesis
      by (simp add: f) (simp add: u_def upd_uart_def)
  next
    case (2 h p q i j)
    then obtain u where u: "uart_init (uarts w) (dev_id d) (Some cfg) = Some (u, Some (unat (dev_id d)))"
      and ready: "uart_ready u (Some (unat (dev_id d)))" by (auto simp: uart_ready_def upd_uart_def)
    have "driver_uart_init (Some 0) (world_with w d) =
      Some (upd_device 0 (\<lambda>d'. d'\<lparr>driver_data := Some (UART_HANDLE (unat (dev_id d)))\<rparr>) ((world_with w d)\<lparr>uarts := u\<rparr>), DEVICE_STATUS_OK)"
      by (simp add: driver_uart_init_def f assms(4) u)
    from one [OF this] uart_init_step [OF assms(1) u] ready show ?thesis
      by (simp add: f upd_device_def)
  qed
qed

end
