(* ===== verification/Framework_Typing.thy ===== *)
theory Framework_Typing imports Framework_Props begin

text \<open>
  The untyped pointers of the driver framework. A device carries a \<^verbatim>\<open>void *platform_data\<close>
  that the callback of its driver reads as a configuration, and a \<^verbatim>\<open>void *driver_data\<close> the
  callback fills with a handle. \<open>world_typed\<close> is the discipline clients follow: the configuration
  of a device has the type its driver reads. Progress and preservation show that it is enough.
\<close>

section \<open>The discipline\<close>

fun config_typed :: "driver_fn \<Rightarrow> config_object option \<Rightarrow> bool" where
  "config_typed f None \<longleftrightarrow> True"
| "config_typed DRIVER_UART_INIT (Some c) \<longleftrightarrow> (case c of UART_CONFIG _ \<Rightarrow> True | _ \<Rightarrow> False)"
| "config_typed DRIVER_I2C_INIT (Some c) \<longleftrightarrow> (case c of I2C_CONFIG _ \<Rightarrow> True | _ \<Rightarrow> False)"
| "config_typed DRIVER_SPI_INIT (Some c) \<longleftrightarrow> (case c of SPI_CONFIG _ \<Rightarrow> True | _ \<Rightarrow> False)"
| "config_typed (CLIENT_FN n) (Some c) \<longleftrightarrow> True"

text \<open>A handle of the type of its driver that refers to an open instance.\<close>

fun handle_live :: "world \<Rightarrow> driver_fn \<Rightarrow> handle_object option \<Rightarrow> bool" where
  "handle_live w DRIVER_UART_INIT h \<longleftrightarrow> (case h of Some (UART_HANDLE u) \<Rightarrow> uart_ready (uarts w) (Some u) | _ \<Rightarrow> False)"
| "handle_live w DRIVER_I2C_INIT h \<longleftrightarrow> (case h of Some (I2C_HANDLE i) \<Rightarrow> i2c_ready (i2cs w) (Some i) | _ \<Rightarrow> False)"
| "handle_live w DRIVER_SPI_INIT h \<longleftrightarrow> (case h of Some (SPI_HANDLE i) \<Rightarrow> spi_ready (spis w) (Some i) | _ \<Rightarrow> False)"
| "handle_live w (CLIENT_FN n) h \<longleftrightarrow> True"

definition init_of :: "world \<Rightarrow> device \<Rightarrow> driver_fn option" where
  "init_of w d =
     (case driver_lookup w (dev_driver_name d) of None \<Rightarrow> None | Some k \<Rightarrow> drv_init (driver_registry w k))"

definition device_typed :: "world \<Rightarrow> device \<Rightarrow> bool" where
  "device_typed w d \<longleftrightarrow>
     (case init_of w d of
        None \<Rightarrow> True
      | Some f \<Rightarrow> config_typed f (platform_data d) \<and> (dev_initialized d \<longrightarrow> handle_live w f (driver_data d)))"

definition world_typed :: "world \<Rightarrow> bool" where
  "world_typed w \<longleftrightarrow> uart_inv (uarts w) \<and> (\<forall>j<unat (device_count w). device_typed w (device_registry w j))"

text \<open>What a callback may do: open instances, and set the \<open>driver_data\<close> of its device.\<close>

definition only_opens :: "world \<Rightarrow> world \<Rightarrow> bool" where
  "only_opens w w1 \<longleftrightarrow>
     (\<forall>u. uart_ready (uarts w) (Some u) \<longrightarrow> uart_ready (uarts w1) (Some u))
     \<and> (\<forall>i. i2c_ready (i2cs w) (Some i) \<longrightarrow> i2c_ready (i2cs w1) (Some i))
     \<and> (\<forall>i. spi_ready (spis w) (Some i) \<longrightarrow> spi_ready (spis w1) (Some i))"

definition callback_effect :: "nat \<Rightarrow> world \<Rightarrow> world \<Rightarrow> bool" where
  "callback_effect i w w1 \<longleftrightarrow> uart_inv (uarts w1) \<and> only_opens w w1
     \<and> driver_registry w1 = driver_registry w \<and> driver_count w1 = driver_count w \<and> device_count w1 = device_count w
     \<and> (\<exists>h. device_registry w1 = (device_registry w)(i := device_registry w i\<lparr>driver_data := h\<rparr>))"

text \<open>The callbacks of clients return and respect the same limits.\<close>

definition client_ok :: "(nat \<Rightarrow> nat \<Rightarrow> world \<Rightarrow> (world \<times> device_status) option) \<Rightarrow> bool" where
  "client_ok client \<longleftrightarrow>
     (\<forall>n i w. uart_inv (uarts w) \<longrightarrow> (\<exists>w1 r. client n i w = Some (w1, r) \<and> callback_effect i w w1))"

section \<open>Progress of a callback\<close>

lemma uart_init_opens:
  assumes inv: "uart_inv s"
  shows "\<exists>s' r. uart_init s uid (Some cfg) = Some (s', r) \<and> uart_inv s'
    \<and> (\<forall>u. uart_ready s (Some u) \<longrightarrow> uart_ready s' (Some u)) \<and> (\<forall>u. r = Some u \<longrightarrow> uart_ready s' (Some u))"
proof (cases "MAX_UART_INSTANCES \<le> unat uid \<or> uart_initialized (uart_instances s (unat uid))")
  case True
  then show ?thesis using inv by (auto simp: uart_init_def uart_ready_def Let_def)
next
  case False
  then have u: "unat uid < MAX_UART_INSTANCES" and closed: "\<not> uart_initialized (uart_instances s (unat uid))" by auto
  have hinv: "heap_inv (uheap s)" using inv by (simp add: uart_inv_def)
  show ?thesis
  proof (cases rule: uart_init_cases [OF hinv u closed, of cfg])
    case (1 h hd)
    with uart_init_step [OF inv 1(1)] closed show ?thesis by (auto simp: uart_ready_def upd_uart_def)
  next
    case (2 h p q i j)
    with uart_init_step [OF inv 2(1)] show ?thesis by (auto simp: uart_ready_def upd_uart_def)
  qed
qed

lemma callback_effect_refl: "uart_inv (uarts w) \<Longrightarrow> callback_effect i w w"
  by (simp add: callback_effect_def only_opens_def)

lemma call_init_progress:
  assumes inv: "uart_inv (uarts w)" and typed: "config_typed f (platform_data (device_registry w i))" and client: "client_ok client"
  shows "\<exists>w1 r. call_init client f i w = Some (w1, r) \<and> callback_effect i w w1
    \<and> (r = DEVICE_STATUS_OK \<longrightarrow> handle_live w1 f (driver_data (device_registry w1 i)))"
proof (cases "\<exists>n. f = CLIENT_FN n")
  case True
  with client inv show ?thesis unfolding client_ok_def call_init_def by fastforce
next
  case False
  show ?thesis
  proof (cases "platform_data (device_registry w i)")
    case None
    with False callback_effect_refl [OF inv] show ?thesis
      by (cases f) (auto simp: call_init_def driver_uart_init_def driver_i2c_init_def driver_spi_init_def)
  next
    case (Some c)
    show ?thesis
    proof (cases f)
      case DRIVER_UART_INIT
      with Some typed obtain cfg where c: "c = UART_CONFIG cfg" by (auto split: config_object.splits)
      obtain s' r where s: "uart_init (uarts w) (dev_id (device_registry w i)) (Some cfg) = Some (s', r)" "uart_inv s'"
        "\<forall>u. uart_ready (uarts w) (Some u) \<longrightarrow> uart_ready s' (Some u)" "\<forall>u. r = Some u \<longrightarrow> uart_ready s' (Some u)"
        using uart_init_opens [OF inv] by blast
      then show ?thesis using DRIVER_UART_INIT Some c
        by (cases r) (auto simp: call_init_def driver_uart_init_def callback_effect_def only_opens_def upd_device_def)
    next
      case DRIVER_I2C_INIT
      with Some typed obtain cfg where c: "c = I2C_CONFIG cfg" by (auto split: config_object.splits)
      obtain s' r where s: "i2c_init (i2cs w) (dev_id (device_registry w i)) (Some cfg) = (s', r)" by fastforce
      then have "\<forall>j. i2c_ready (i2cs w) (Some j) \<longrightarrow> i2c_ready s' (Some j)" "\<forall>j. r = Some j \<longrightarrow> i2c_ready s' (Some j)"
        by (auto simp: i2c_init_def i2c_ready_def split: if_splits)
      then show ?thesis using DRIVER_I2C_INIT Some c s inv
        by (cases r) (auto simp: call_init_def driver_i2c_init_def callback_effect_def only_opens_def upd_device_def)
    next
      case DRIVER_SPI_INIT
      with Some typed obtain cfg where c: "c = SPI_CONFIG cfg" by (auto split: config_object.splits)
      obtain s' r where s: "spi_init (spis w) (dev_id (device_registry w i)) (Some cfg) = (s', r)" by fastforce
      then have "\<forall>j. spi_ready (spis w) (Some j) \<longrightarrow> spi_ready s' (Some j)" "\<forall>j. r = Some j \<longrightarrow> spi_ready s' (Some j)"
        by (auto simp: spi_init_def spi_ready_def split: if_splits)
      then show ?thesis using DRIVER_SPI_INIT Some c s inv
        by (cases r) (auto simp: call_init_def driver_spi_init_def callback_effect_def only_opens_def upd_device_def)
    qed (use False in blast)
  qed
qed

section \<open>Preservation\<close>

lemma unmark_idle: "\<not> dev_initialized (device_registry w i) \<Longrightarrow> upd_device i (\<lambda>d. d\<lparr>dev_initialized := False\<rparr>) w = w"
proof -
  assume idle: "\<not> dev_initialized (device_registry w i)"
  have "d\<lparr>dev_initialized := False\<rparr> = d" if "\<not> dev_initialized d" for d :: device using that by (cases d) simp
  from this [OF idle] show ?thesis by (simp add: upd_device_def)
qed

lemma handle_live_opens: "handle_live w f h \<Longrightarrow> only_opens w w1 \<Longrightarrow> handle_live w1 f h"
  by (cases f) (auto simp: only_opens_def split: option.splits handle_object.splits)

lemma init_of_same:
  "driver_registry w1 = driver_registry w \<Longrightarrow> driver_count w1 = driver_count w \<Longrightarrow>
   dev_driver_name d1 = dev_driver_name d \<Longrightarrow> init_of w1 d1 = init_of w d"
  by (simp add: init_of_def driver_lookup_def split: option.split)

text \<open>An effect of a callback keeps the discipline, if its device is marked only when its handle is live.\<close>

lemma callback_effect_typed:
  assumes "world_typed w" and eff: "callback_effect i w w1"
    and own: "\<And>f. init_of w (device_registry w i) = Some f \<Longrightarrow> b \<Longrightarrow> handle_live w1 f (driver_data (device_registry w1 i))"
    and fresh: "\<not> dev_initialized (device_registry w i)"
  shows "world_typed (upd_device i (\<lambda>d. d\<lparr>dev_initialized := b\<rparr>) w1)"
proof -
  define w2 where "w2 = upd_device i (\<lambda>d. d\<lparr>dev_initialized := b\<rparr>) w1"
  have reg: "driver_registry w2 = driver_registry w" "driver_count w2 = driver_count w" "device_count w2 = device_count w"
    and opens: "only_opens w w2" and inv: "uart_inv (uarts w2)"
    and same: "uarts w2 = uarts w1" "i2cs w2 = i2cs w1" "spis w2 = spis w1"
    using eff by (simp_all add: callback_effect_def w2_def upd_device_def only_opens_def)
  have live: "handle_live w2 f h = handle_live w1 f h" for f h
    by (cases f) (simp_all add: same split: option.splits handle_object.splits)
  have "device_typed w2 (device_registry w2 j)" if "j < unat (device_count w)" for j
  proof -
    have t: "device_typed w (device_registry w j)" using assms(1) that by (simp add: world_typed_def)
    have names: "dev_driver_name (device_registry w2 j) = dev_driver_name (device_registry w j)"
      "platform_data (device_registry w2 j) = platform_data (device_registry w j)"
      using eff by (auto simp: callback_effect_def w2_def upd_device_def)
    note f = init_of_same [OF reg(1,2) names(1)]
    show ?thesis
    proof (cases "j = i")
      case True
      have "dev_initialized (device_registry w2 i) = b" "driver_data (device_registry w2 i) = driver_data (device_registry w1 i)"
        by (simp_all add: w2_def upd_device_def)
      with True t own f names show ?thesis by (auto simp: device_typed_def live split: option.splits)
    next
      case False
      then have "device_registry w2 j = device_registry w j" using eff by (auto simp: callback_effect_def w2_def upd_device_def)
      with t f opens show ?thesis by (auto simp: device_typed_def handle_live_opens split: option.splits)
    qed
  qed
  with inv reg show ?thesis unfolding w2_def [symmetric] by (simp add: world_typed_def)
qed

lemma init_device_typed:
  assumes typed: "world_typed w" and client: "client_ok client" and i: "i < unat (device_count w)"
    and fresh: "\<not> dev_initialized (device_registry w i)"
  shows "\<exists>w1 r. init_device (call_init client) i w = Some (w1, r) \<and> world_typed w1"
proof (cases "init_of w (device_registry w i)")
  case None
  have inv: "uart_inv (uarts w)" using typed by (simp add: world_typed_def)
  from callback_effect_typed [OF typed callback_effect_refl [OF inv] _ fresh] None
  have "world_typed (upd_device i (\<lambda>d. d\<lparr>dev_initialized := True\<rparr>) w)" by simp
  with None typed show ?thesis by (auto simp: init_device_def init_of_def split: option.splits)
next
  case (Some f)
  have inv: "uart_inv (uarts w)" and dt: "device_typed w (device_registry w i)" using typed i by (simp_all add: world_typed_def)
  have "config_typed f (platform_data (device_registry w i))" using dt Some by (simp add: device_typed_def)
  from call_init_progress [OF inv this client] obtain w1 r where run: "call_init client f i w = Some (w1, r)"
    and eff: "callback_effect i w w1" and live: "r = DEVICE_STATUS_OK \<longrightarrow> handle_live w1 f (driver_data (device_registry w1 i))"
    by blast
  have unmarked: "upd_device i (\<lambda>d. d\<lparr>dev_initialized := False\<rparr>) w1 = w1"
    using eff fresh by (intro unmark_idle) (auto simp: callback_effect_def)
  show ?thesis
  proof (cases "r = DEVICE_STATUS_OK")
    case True
    with callback_effect_typed [OF typed eff _ fresh, of True] Some live
    have "world_typed (upd_device i (\<lambda>d. d\<lparr>dev_initialized := True\<rparr>) w1)" by simp
    with True run Some show ?thesis by (auto simp: init_device_def init_of_def split: option.splits)
  next
    case False
    have "world_typed w1" using callback_effect_typed [OF typed eff _ fresh, of False] unmarked by simp
    with False run Some show ?thesis by (auto simp: init_device_def init_of_def split: option.splits)
  qed
qed

lemma init_loop_typed:
  assumes "client_ok client"
  shows "world_typed w \<Longrightarrow> \<exists>w' r. init_loop (call_init client) iter status w = Some (w', r) \<and> world_typed w'"
proof (induction "call_init client" iter status w rule: init_loop.induct)
  case (1 iter status w)
  show ?case
  proof (cases "iter < unat (device_count w) \<and> next_device (device_registry w) 0 (unat (device_count w)) None 255 \<noteq> None")
    case False
    with "1.prems" show ?thesis by (auto simp: init_loop.simps [of "call_init client" iter])
  next
    case True
    then obtain i where s: "iter < unat (device_count w)"
      "next_device (device_registry w) 0 (unat (device_count w)) None 255 = Some i" by auto
    have "i < unat (device_count w)" "\<not> dev_initialized (device_registry w i)"
      using next_device_Some [OF s(2)] by (simp_all add: pending_def)
    from init_device_typed [OF "1.prems" assms this] obtain w1 r where
      d: "init_device (call_init client) i w = Some (w1, r)" "world_typed w1" by blast
    show ?thesis
    proof (cases r)
      case None
      with s d "1.hyps"(1) [OF s d(1) refl] show ?thesis by (simp add: init_loop.simps [of "call_init client" iter])
    next
      case (Some r1)
      with s d "1.hyps"(2) [OF s d(1) refl] show ?thesis by (simp add: init_loop.simps [of "call_init client" iter])
    qed
  qed
qed

section \<open>The property\<close>

text \<open>C23: when the configuration of every registered device has the type its driver reads, initialising all
  devices never reads an object through a pointer of another type, always returns, and leaves every
  initialised device of a built-in driver with a handle of that driver to an open instance.\<close>

theorem device_init_all_typed:
  assumes "world_typed w" and "client_ok client"
  shows "\<exists>w' r. device_init_all (call_init client) w = Some (w', r) \<and> world_typed w'
    \<and> (\<forall>j<unat (device_count w'). \<forall>f. dev_initialized (device_registry w' j) \<and> init_of w' (device_registry w' j) = Some f \<longrightarrow>
         handle_live w' f (driver_data (device_registry w' j)))"
proof -
  obtain w' r where "device_init_all (call_init client) w = Some (w', r)" "world_typed w'"
    using init_loop_typed [OF assms(2,1)] unfolding device_init_all_def by blast
  then show ?thesis by (auto simp: world_typed_def device_typed_def split: option.splits)
qed

text \<open>A sensor bus and a serial port.\<close>

definition bus_device :: device where
  "bus_device = zero_device\<lparr>dev_name := Some ''i2c_1'', dev_id := 1, dev_driver_name := Some ''i2c_driver'',
     platform_data := Some (I2C_CONFIG \<lparr>i2c_speed = I2C_SPEED_FAST, i2c_addr_mode = I2C_ADDR_7BIT, i2c_enable_dma = False,
       i2c_timeout_ms = 100\<rparr>), init_priority := 20\<rparr>"

definition port_device :: device where
  "port_device = zero_device\<lparr>dev_name := Some ''uart_0'', dev_driver_name := Some ''uart_driver'',
     platform_data := Some (UART_CONFIG small_config), init_priority := 10\<rparr>"

definition board_world :: world where
  "board_world = fst (device_register (fst (device_register (device_register_builtin_drivers (device_framework_init blank_world))
     (Some bus_device))) (Some port_device))"

definition builtin_driver :: "string \<Rightarrow> driver_fn \<Rightarrow> driver" where
  "builtin_driver name f = \<lparr>drv_name = Some name, drv_init = Some f, drv_deinit = None\<rparr>"

lemma blank_builtin:
  "device_register_builtin_drivers (device_framework_init blank_world) = blank_world\<lparr>
     driver_registry := (\<lambda>_. zero_driver)(0 := builtin_driver ''uart_driver'' DRIVER_UART_INIT,
       1 := builtin_driver ''i2c_driver'' DRIVER_I2C_INIT, 2 := builtin_driver ''spi_driver'' DRIVER_SPI_INIT),
     driver_count := 3\<rparr>"
proof -
  have init: "device_framework_init blank_world = blank_world" by (simp add: device_framework_init_def blank_world_def fun_eq_iff)
  show ?thesis
    unfolding init device_register_builtin_drivers_def builtin_driver_def
    by (simp add: driver_register_def blank_world_def zero_driver_def MAX_DRIVERS_def Let_def)
qed

lemma board_world_eq:
  "board_world = blank_world\<lparr>driver_registry := driver_registry (device_register_builtin_drivers (device_framework_init blank_world)),
     driver_count := 3, device_registry := (\<lambda>_. zero_device)(0 := bus_device, 1 := port_device), device_count := 2\<rparr>"
  unfolding board_world_def blank_builtin
  by (simp add: device_register_def blank_world_def bus_device_def port_device_def MAX_DEVICES_def numeral_2_eq_2)

lemma board_drivers:
  "dev_driver_name d = Some ''i2c_driver'' \<Longrightarrow> init_of board_world d = Some DRIVER_I2C_INIT"
  "dev_driver_name d = Some ''uart_driver'' \<Longrightarrow> init_of board_world d = Some DRIVER_UART_INIT"
  by (simp_all add: init_of_def driver_lookup_def board_world_eq blank_builtin builtin_driver_def)

lemma board_typed: "world_typed board_world"
proof -
  have "device_typed board_world bus_device"
    using board_drivers(1) [of bus_device] by (simp add: device_typed_def bus_device_def zero_device_def)
  moreover have "device_typed board_world port_device"
    using board_drivers(2) [of port_device] by (simp add: device_typed_def port_device_def zero_device_def)
  moreover have "device_count board_world = 2" "device_registry board_world 0 = bus_device"
    "device_registry board_world 1 = port_device" "uarts board_world = boot_uart"
    by (simp_all add: board_world_eq blank_world_def)
  ultimately show ?thesis using uart_boot_inv [OF boot_uart_boot] by (auto simp: world_typed_def less_2_cases_iff)
qed

theorem device_init_all_typed_witness:
  "world_typed board_world \<and> (\<exists>w' r. device_init_all (call_init (\<lambda>_ i w. Some (w, DEVICE_STATUS_OK))) board_world = Some (w', r)
     \<and> world_typed w')"
proof -
  have "client_ok (\<lambda>_ i w. Some (w, DEVICE_STATUS_OK))" by (simp add: client_ok_def callback_effect_refl)
  from device_init_all_typed [OF board_typed this] board_typed show ?thesis by blast
qed

end
