(* ===== verification/Startup.thy ===== *)
theory Startup imports Main begin

text \<open>
  The startup code of the ARM target (\<^verbatim>\<open>src/hal/stm32f429_startup.c\<close>): the weak aliases of
  the default handler and the vector table. Handlers are named by their symbols; an alias is replaced
  by a strong definition of the same name when the linker finds one, so the link result is a function
  of the symbols the other object files define.
\<close>

section \<open>Symbols\<close>

text \<open>The names declared as weak aliases of \<^verbatim>\<open>default_fault_handler\<close>.\<close>

definition weak_handlers :: "string list" where
  "weak_handlers =
    [''nmi_handler'', ''hard_fault_handler'', ''mem_manage_fault_handler'',
     ''bus_fault_handler'', ''usage_fault_handler'', ''sv_call_handler'',
     ''debug_mon_handler'', ''pend_sv_handler'', ''sys_tick_handler'',
     ''wwdg_irq_handler'', ''pvd_irq_handler'', ''tamp_stamp_irq_handler'',
     ''rtc_wkup_irq_handler'', ''flash_irq_handler'', ''rcc_irq_handler'',
     ''exti0_irq_handler'', ''exti1_irq_handler'', ''exti2_irq_handler'',
     ''exti3_irq_handler'', ''exti4_irq_handler'', ''dma1_stream0_irq_handler'',
     ''dma1_stream1_irq_handler'', ''dma1_stream2_irq_handler'', ''dma1_stream3_irq_handler'',
     ''dma1_stream4_irq_handler'', ''dma1_stream5_irq_handler'', ''dma1_stream6_irq_handler'',
     ''adc_irq_handler'', ''can1_tx_irq_handler'', ''can1_rx0_irq_handler'',
     ''can1_rx1_irq_handler'', ''can1_sce_irq_handler'', ''exti9_5_irq_handler'',
     ''tim1_brk_tim9_irq_handler'', ''tim1_up_tim10_irq_handler'', ''tim1_trg_com_tim11_irq_handler'',
     ''tim1_cc_irq_handler'', ''tim2_irq_handler'', ''tim3_irq_handler'',
     ''tim4_irq_handler'', ''i2c1_ev_irq_handler'', ''i2c1_er_irq_handler'',
     ''i2c2_ev_irq_handler'', ''i2c2_er_irq_handler'', ''spi1_irq_handler'',
     ''spi2_irq_handler'', ''usart1_irq_handler'', ''usart2_irq_handler'',
     ''usart3_irq_handler'', ''exti15_10_irq_handler'', ''rtc_alarm_irq_handler'',
     ''otg_fs_wkup_irq_handler'', ''tim8_brk_tim12_irq_handler'', ''tim8_up_tim13_irq_handler'',
     ''tim8_trg_com_tim14_irq_handler'', ''tim8_cc_irq_handler'', ''dma1_stream7_irq_handler'',
     ''fsmc_irq_handler'', ''sdio_irq_handler'', ''tim5_irq_handler'',
     ''spi3_irq_handler'', ''uart4_irq_handler'', ''uart5_irq_handler'',
     ''tim6_dac_irq_handler'', ''tim7_irq_handler'', ''dma2_stream0_irq_handler'',
     ''dma2_stream1_irq_handler'', ''dma2_stream2_irq_handler'', ''dma2_stream3_irq_handler'',
     ''dma2_stream4_irq_handler'', ''eth_irq_handler'', ''eth_wkup_irq_handler'',
     ''can2_tx_irq_handler'', ''can2_rx0_irq_handler'', ''can2_rx1_irq_handler'',
     ''can2_sce_irq_handler'', ''otg_fs_irq_handler'', ''dma2_stream5_irq_handler'',
     ''dma2_stream6_irq_handler'', ''dma2_stream7_irq_handler'', ''usart6_irq_handler'',
     ''i2c3_ev_irq_handler'', ''i2c3_er_irq_handler'', ''otg_hs_ep1_out_irq_handler'',
     ''otg_hs_ep1_in_irq_handler'', ''otg_hs_wkup_irq_handler'', ''otg_hs_irq_handler'',
     ''dcmi_irq_handler'', ''cryp_irq_handler'', ''hash_rng_irq_handler'',
     ''fpu_irq_handler'', ''uart7_irq_handler'', ''uart8_irq_handler'',
     ''spi4_irq_handler'', ''spi5_irq_handler'', ''spi6_irq_handler'',
     ''sai1_irq_handler'', ''lcd_tft_irq_handler'', ''lcd_tft_err_irq_handler'',
     ''dma2d_irq_handler'']"

datatype vector_entry = INITIAL_SP | HANDLER string | RESERVED

text \<open>The initialisers of the table; the elements up to 172 that have none are zero.\<close>

definition isr_vector_initialisers :: "vector_entry list" where
  "isr_vector_initialisers =
    [INITIAL_SP, HANDLER ''reset_handler'', HANDLER ''nmi_handler'',
     HANDLER ''hard_fault_handler'', HANDLER ''mem_manage_fault_handler'', HANDLER ''bus_fault_handler'',
     HANDLER ''usage_fault_handler'', RESERVED, RESERVED,
     RESERVED, RESERVED, HANDLER ''sv_call_handler'',
     HANDLER ''debug_mon_handler'', RESERVED, HANDLER ''pend_sv_handler'',
     HANDLER ''sys_tick_handler'', HANDLER ''wwdg_irq_handler'', HANDLER ''pvd_irq_handler'',
     HANDLER ''tamp_stamp_irq_handler'', HANDLER ''rtc_wkup_irq_handler'', HANDLER ''flash_irq_handler'',
     HANDLER ''rcc_irq_handler'', HANDLER ''exti0_irq_handler'', HANDLER ''exti1_irq_handler'',
     HANDLER ''exti2_irq_handler'', HANDLER ''exti3_irq_handler'', HANDLER ''exti4_irq_handler'',
     HANDLER ''dma1_stream0_irq_handler'', HANDLER ''dma1_stream1_irq_handler'', HANDLER ''dma1_stream2_irq_handler'',
     HANDLER ''dma1_stream3_irq_handler'', HANDLER ''dma1_stream4_irq_handler'', HANDLER ''dma1_stream5_irq_handler'',
     HANDLER ''dma1_stream6_irq_handler'', HANDLER ''adc_irq_handler'', HANDLER ''can1_tx_irq_handler'',
     HANDLER ''can1_rx0_irq_handler'', HANDLER ''can1_rx1_irq_handler'', HANDLER ''can1_sce_irq_handler'',
     HANDLER ''exti9_5_irq_handler'', HANDLER ''tim1_brk_tim9_irq_handler'', HANDLER ''tim1_up_tim10_irq_handler'',
     HANDLER ''tim1_trg_com_tim11_irq_handler'', HANDLER ''tim1_cc_irq_handler'', HANDLER ''tim2_irq_handler'',
     HANDLER ''tim3_irq_handler'', HANDLER ''tim4_irq_handler'', HANDLER ''i2c1_ev_irq_handler'',
     HANDLER ''i2c1_er_irq_handler'', HANDLER ''i2c2_ev_irq_handler'', HANDLER ''i2c2_er_irq_handler'',
     HANDLER ''spi1_irq_handler'', HANDLER ''spi2_irq_handler'', HANDLER ''usart1_irq_handler'',
     HANDLER ''usart2_irq_handler'', HANDLER ''usart3_irq_handler'', HANDLER ''exti15_10_irq_handler'',
     HANDLER ''rtc_alarm_irq_handler'', HANDLER ''otg_fs_wkup_irq_handler'', HANDLER ''tim8_brk_tim12_irq_handler'',
     HANDLER ''tim8_up_tim13_irq_handler'', HANDLER ''tim8_trg_com_tim14_irq_handler'', HANDLER ''tim8_cc_irq_handler'',
     HANDLER ''dma1_stream7_irq_handler'', HANDLER ''fsmc_irq_handler'', HANDLER ''sdio_irq_handler'',
     HANDLER ''tim5_irq_handler'', HANDLER ''spi3_irq_handler'', HANDLER ''uart4_irq_handler'',
     HANDLER ''uart5_irq_handler'', HANDLER ''tim6_dac_irq_handler'', HANDLER ''tim7_irq_handler'',
     HANDLER ''dma2_stream0_irq_handler'', HANDLER ''dma2_stream1_irq_handler'', HANDLER ''dma2_stream2_irq_handler'',
     HANDLER ''dma2_stream3_irq_handler'', HANDLER ''dma2_stream4_irq_handler'', HANDLER ''eth_irq_handler'',
     HANDLER ''eth_wkup_irq_handler'', HANDLER ''can2_tx_irq_handler'', HANDLER ''can2_rx0_irq_handler'',
     HANDLER ''can2_rx1_irq_handler'', HANDLER ''can2_sce_irq_handler'', HANDLER ''otg_fs_irq_handler'',
     HANDLER ''dma2_stream5_irq_handler'', HANDLER ''dma2_stream6_irq_handler'', HANDLER ''dma2_stream7_irq_handler'',
     HANDLER ''usart6_irq_handler'', HANDLER ''i2c3_ev_irq_handler'', HANDLER ''i2c3_er_irq_handler'',
     HANDLER ''otg_hs_ep1_out_irq_handler'', HANDLER ''otg_hs_ep1_in_irq_handler'', HANDLER ''otg_hs_wkup_irq_handler'',
     HANDLER ''otg_hs_irq_handler'', HANDLER ''dcmi_irq_handler'', HANDLER ''cryp_irq_handler'',
     HANDLER ''hash_rng_irq_handler'', HANDLER ''fpu_irq_handler'', HANDLER ''uart7_irq_handler'',
     HANDLER ''uart8_irq_handler'', HANDLER ''spi4_irq_handler'', HANDLER ''spi5_irq_handler'',
     HANDLER ''spi6_irq_handler'', HANDLER ''sai1_irq_handler'', HANDLER ''lcd_tft_irq_handler'',
     HANDLER ''lcd_tft_err_irq_handler'', HANDLER ''dma2d_irq_handler'']"

definition isr_vector :: "nat \<Rightarrow> vector_entry" where
  "isr_vector n = (if n < length isr_vector_initialisers then isr_vector_initialisers ! n else RESERVED)"

definition isr_vector_size :: nat where
  "isr_vector_size = 173"

text \<open>The code an entry points to after linking with objects that define the symbols \<open>strong\<close>.\<close>

definition link_handler :: "string set \<Rightarrow> string \<Rightarrow> string" where
  "link_handler strong name =
     (if name \<in> strong then name else if name \<in> set weak_handlers then ''default_fault_handler'' else name)"

section \<open>The table\<close>

text \<open>The functions with external linkage that the sources of the ARM target define.\<close>

definition strong_symbols :: "string list" where
  "strong_symbols =
    [''crc32_calculate'', ''bootloader_init'', ''bootloader_verify_image'', ''bootloader_jump_to_app'',
     ''driver_register'', ''device_register'', ''device_get_by_name'', ''device_get_by_driver_and_id'',
     ''device_get_count'', ''device_print_registry'', ''device_init_all'', ''device_framework_init'',
     ''device_register_builtin_drivers'', ''i2c_init'', ''i2c_deinit'', ''i2c_master_write'',
     ''i2c_master_read'', ''i2c_master_write_read'', ''i2c_write_register'', ''i2c_read_register'',
     ''i2c_read_registers'', ''i2c_scan_bus'', ''driver_i2c_init'', ''spi_init'',
     ''spi_deinit'', ''spi_transfer'', ''spi_write'', ''spi_read'',
     ''driver_spi_init'', ''uart_init'', ''uart_deinit'', ''uart_write'',
     ''uart_read'', ''uart_write_dma'', ''uart_available'', ''uart_flush'',
     ''uart_set_callback'', ''uart_irq_handler'', ''driver_uart_init'', ''hal_init'',
     ''hal_enable_interrupts'', ''hal_disable_interrupts'', ''hal_systick_init'', ''hal_get_systick'',
     ''sys_tick_handler'', ''irq_dispatcher_init'', ''irq_register'', ''irq_unregister'',
     ''irq_dispatch'', ''irq_enable_global'', ''irq_disable_global'', ''irq_restore'',
     ''irq_is_in_isr'', ''irq_get_handler_count'', ''irq_print_handlers'', ''default_fault_handler'',
     ''reset_handler'', ''mq_create'', ''mq_send'', ''mq_receive'',
     ''mq_destroy'', ''mutex_create'', ''mutex_lock'', ''mutex_unlock'',
     ''mutex_destroy'', ''sem_create'', ''sem_take'', ''sem_give'',
     ''sem_destroy'', ''memory_init'', ''rtos_malloc'', ''rtos_free'',
     ''rtos_calloc'', ''rtos_realloc'', ''memory_pool_create'', ''memory_pool_alloc'',
     ''memory_pool_free'', ''memory_pool_destroy'', ''memory_get_stats'', ''memory_print_stats'',
     ''memory_check_stack_overflow'', ''scheduler_init'', ''scheduler_add_task'', ''scheduler_remove_task'',
     ''scheduler_yield'', ''scheduler_tick'', ''scheduler_get_tick_count'', ''scheduler_start'',
     ''context_switch'', ''task_init'', ''task_create'', ''task_delete'',
     ''task_suspend'', ''task_resume'', ''task_delay'', ''task_yield'',
     ''task_get_current_id'', ''task_get_current_tcb'', ''task_get_tcb'', ''task_set_current'',
     ''task_led_blink'', ''task_uart_comm'', ''task_sensor_read'', ''main'']"

end
