(* ===== verification/Irq.thy ===== *)
theory Irq imports Rtos_Types begin

text \<open>
  The interrupt dispatcher (\<^verbatim>\<open>src/hal/interrupt_dispatcher.c\<close>): the table of handlers,
  registration, dispatch, and the global interrupt mask. The code of the handlers is the parameter
  \<open>call\<close>; it may change the state in any way, nested dispatches included. The state can be
  extended by the state of the handlers.
\<close>

section \<open>The table\<close>

type_synonym fn_ptr = nat

record irq_entry =
  irq_handler :: fn_ptr
  irq_context :: nat
  irq_registered :: bool

definition MAX_IRQ_HANDLERS :: nat where
  "MAX_IRQ_HANDLERS = 256"

record irq_state =
  in_isr_context :: bool
  irq_handlers :: "nat \<Rightarrow> irq_entry"
  handler_count :: u32

definition zero_irq_entry :: irq_entry where
  "zero_irq_entry = \<lparr>irq_handler = 0, irq_context = 0, irq_registered = False\<rparr>"

definition irq_dispatcher_init :: "'w irq_state_scheme \<Rightarrow> 'w irq_state_scheme" where
  "irq_dispatcher_init s = s\<lparr>irq_handlers := (\<lambda>i. if i < MAX_IRQ_HANDLERS then zero_irq_entry else irq_handlers s i),
     handler_count := 0, in_isr_context := False\<rparr>"

text \<open>The counter is raised when the entry is not registered, which it has just become.\<close>

definition irq_register :: "'w irq_state_scheme \<Rightarrow> u8 \<Rightarrow> fn_ptr \<Rightarrow> nat \<Rightarrow> 'w irq_state_scheme \<times> rtos_status" where
  "irq_register s irq_num handler context =
     (if MAX_IRQ_HANDLERS \<le> unat irq_num then (s, RTOS_ERROR_INVALID_PARAM)
      else if handler = NULL then (s, RTOS_ERROR_INVALID_PARAM)
      else let i = unat irq_num;
               s1 = s\<lparr>irq_handlers := (irq_handlers s)(i := irq_handlers s i\<lparr>irq_handler := handler,
                       irq_context := context, irq_registered := True\<rparr>)\<rparr>;
               s2 = (if \<not> irq_registered (irq_handlers s1 i) then s1\<lparr>handler_count := handler_count s1 + 1\<rparr> else s1)
           in (s2, RTOS_OK))"

definition irq_unregister :: "'w irq_state_scheme \<Rightarrow> u8 \<Rightarrow> 'w irq_state_scheme \<times> rtos_status" where
  "irq_unregister s irq_num =
     (if MAX_IRQ_HANDLERS \<le> unat irq_num then (s, RTOS_ERROR_INVALID_PARAM)
      else let i = unat irq_num in
        if \<not> irq_registered (irq_handlers s i) then (s, RTOS_ERROR)
        else (s\<lparr>irq_handlers := (irq_handlers s)(i := irq_handlers s i\<lparr>irq_handler := NULL, irq_context := NULL,
                  irq_registered := False\<rparr>), handler_count := handler_count s - 1\<rparr>, RTOS_OK))"

definition irq_dispatch ::
    "(fn_ptr \<Rightarrow> u8 \<Rightarrow> nat \<Rightarrow> 'w irq_state_scheme \<Rightarrow> 'w irq_state_scheme \<times> rtos_status) \<Rightarrow> 'w irq_state_scheme \<Rightarrow> u8 \<Rightarrow>
     'w irq_state_scheme \<times> rtos_status" where
  "irq_dispatch call s irq_num =
     (if MAX_IRQ_HANDLERS \<le> unat irq_num then (s, RTOS_ERROR_INVALID_PARAM)
      else let i = unat irq_num; was_in_isr = in_isr_context s; s1 = s\<lparr>in_isr_context := True\<rparr> in
        if \<not> irq_registered (irq_handlers s1 i) then (s1\<lparr>in_isr_context := was_in_isr\<rparr>, RTOS_ERROR)
        else let (s2, status) = call (irq_handler (irq_handlers s1 i)) irq_num (irq_context (irq_handlers s1 i)) s1
             in (s2\<lparr>in_isr_context := was_in_isr\<rparr>, status))"

definition irq_is_in_isr :: "'w irq_state_scheme \<Rightarrow> bool" where
  "irq_is_in_isr s = in_isr_context s"

definition irq_get_handler_count :: "'w irq_state_scheme \<Rightarrow> u32" where
  "irq_get_handler_count s = handler_count s"

section \<open>The global mask\<close>

text \<open>The two targets of the build. The register PRIMASK, of which bit 0 masks all interrupts, is
  written by \<^verbatim>\<open>cpsid\<close>, \<^verbatim>\<open>cpsie\<close> and \<^verbatim>\<open>msr\<close> on the ARM target; on Windows nothing is done.\<close>

datatype target = TARGET_WINDOWS | TARGET_QEMU

definition irq_enable_global :: "target \<Rightarrow> bool \<Rightarrow> bool" where
  "irq_enable_global t primask = (case t of TARGET_WINDOWS \<Rightarrow> primask | TARGET_QEMU \<Rightarrow> False)"

definition irq_disable_global :: "target \<Rightarrow> bool \<Rightarrow> bool \<times> u32" where
  "irq_disable_global t primask =
     (case t of TARGET_WINDOWS \<Rightarrow> (primask, 0) | TARGET_QEMU \<Rightarrow> (True, if primask then 1 else 0))"

definition irq_restore :: "target \<Rightarrow> u32 \<Rightarrow> bool \<Rightarrow> bool" where
  "irq_restore t flags primask = (case t of TARGET_WINDOWS \<Rightarrow> primask | TARGET_QEMU \<Rightarrow> bit flags 0)"

text \<open>Critical sections nest: leaving one restores the mask found on entry.\<close>

lemma irq_restore_disable:
  "irq_disable_global t p = (p1, flags) \<Longrightarrow> irq_restore TARGET_QEMU flags p2 = p \<or> t = TARGET_WINDOWS"
  by (auto simp: irq_disable_global_def irq_restore_def split: target.splits if_splits)

section \<open>The abstract table\<close>

text \<open>A map from interrupt numbers to handler and context.\<close>

definition irq_map :: "'w irq_state_scheme \<Rightarrow> u8 \<Rightarrow> (fn_ptr \<times> nat) option" where
  "irq_map s n = (if irq_registered (irq_handlers s (unat n))
     then Some (irq_handler (irq_handlers s (unat n)), irq_context (irq_handlers s (unat n))) else None)"

datatype irq_op = Register u8 fn_ptr nat | Unregister u8

fun irq_run :: "irq_op list \<Rightarrow> 'w irq_state_scheme \<Rightarrow> 'w irq_state_scheme" where
  "irq_run [] s = s"
| "irq_run (Register n h c # ops) s = irq_run ops (fst (irq_register s n h c))"
| "irq_run (Unregister n # ops) s = irq_run ops (fst (irq_unregister s n))"

fun map_run :: "irq_op list \<Rightarrow> (u8 \<Rightarrow> (fn_ptr \<times> nat) option) \<Rightarrow> (u8 \<Rightarrow> (fn_ptr \<times> nat) option)" where
  "map_run [] m = m"
| "map_run (Register n h c # ops) m = map_run ops (if h = 0 then m else m(n \<mapsto> (h, c)))"
| "map_run (Unregister n # ops) m = map_run ops (m(n := None))"

text \<open>The removals that succeed.\<close>

fun removals :: "irq_op list \<Rightarrow> (u8 \<Rightarrow> (fn_ptr \<times> nat) option) \<Rightarrow> nat" where
  "removals [] m = 0"
| "removals (Register n h c # ops) m = removals ops (if h = 0 then m else m(n \<mapsto> (h, c)))"
| "removals (Unregister n # ops) m = (if m n = None then 0 else 1) + removals ops (m(n := None))"

lemma irq_num_ok [simp]: "unat (n :: u8) < MAX_IRQ_HANDLERS" "\<not> MAX_IRQ_HANDLERS \<le> unat n"
  using unat_u8_less [of n] unfolding MAX_IRQ_HANDLERS_def by linarith+

lemma unat_u8_eq [simp]: "unat x = unat n \<longleftrightarrow> x = (n :: u8)"
  by (simp add: word_unat_eq_iff)

lemma irq_map_init: "irq_map (irq_dispatcher_init s) = (\<lambda>_. None)"
  by (auto simp: irq_map_def irq_dispatcher_init_def zero_irq_entry_def fun_eq_iff)

lemma irq_map_register:
  "irq_map (fst (irq_register s n h c)) = (if h = 0 then irq_map s else (irq_map s)(n \<mapsto> (h, c)))
   \<and> handler_count (fst (irq_register s n h c)) = handler_count s"
  by (auto simp: irq_register_def irq_map_def fun_eq_iff Let_def)

lemma irq_map_unregister:
  "irq_map (fst (irq_unregister s n)) = (irq_map s)(n := None)
   \<and> handler_count (fst (irq_unregister s n)) = handler_count s - (if irq_map s n = None then 0 else 1)"
  by (auto simp: irq_unregister_def irq_map_def fun_eq_iff Let_def)

lemma irq_run_map:
  "irq_map (irq_run ops s) = map_run ops (irq_map s)
   \<and> handler_count (irq_run ops s) = handler_count s - of_nat (removals ops (irq_map s))"
proof (induction ops s rule: irq_run.induct)
  case (1 s)
  show ?case by simp
next
  case (2 n h c ops s)
  then show ?case using irq_map_register [of s n h c] by simp
next
  case (3 n ops s)
  have u: "irq_map (fst (irq_unregister s n)) = (irq_map s)(n := None)"
    "handler_count (fst (irq_unregister s n)) = handler_count s - (if irq_map s n = None then 0 else 1)"
    using irq_map_unregister [of s n] by blast+
  note IH = 3 [unfolded u]
  show ?case unfolding irq_run.simps map_run.simps removals.simps IH [THEN conjunct1] IH [THEN conjunct2] by simp
qed

section \<open>The properties\<close>

text \<open>C24: after any sequence of registrations and removals the table is the map they describe (the last
  registration of a number counts, a null handler is refused), and a dispatch calls the handler
  registered last with its context, or answers \<open>RTOS_ERROR\<close> and changes nothing when there is none. This
  holds outside interrupt context and inside it, where a handler dispatches another interrupt (\<open>b\<close> says
  which): whatever the handler does, the flag for interrupt context is set while it runs and afterwards
  is again \<open>b\<close>.\<close>

theorem irq_dispatch_last_registered:
  fixes s :: "'w irq_state_scheme" and ops :: "irq_op list" and b :: bool
  defines "t \<equiv> (irq_run ops (irq_dispatcher_init s))\<lparr>in_isr_context := b\<rparr>"
  shows "irq_dispatch call t n =
    (case map_run ops (\<lambda>_. None) n of
       None \<Rightarrow> (t, RTOS_ERROR)
     | Some (h, c) \<Rightarrow>
         let (t1, status) = call h n c (t\<lparr>in_isr_context := True\<rparr>)
         in (t1\<lparr>in_isr_context := b\<rparr>, status))"
proof -
  have "irq_map t n = irq_map (irq_run ops (irq_dispatcher_init s)) n" by (simp add: t_def irq_map_def)
  then have "irq_map t n = map_run ops (\<lambda>_. None) n" and flag: "in_isr_context t = b"
    using irq_run_map [of ops "irq_dispatcher_init s"] by (simp_all add: irq_map_init t_def)
  then show ?thesis
    by (cases "irq_registered (irq_handlers t (unat n))")
      (auto simp: irq_dispatch_def irq_map_def flag Let_def split: option.splits)
qed

text \<open>The handler count is never raised: after any sequence of registrations and removals it is the
  negated number of removals, modulo \<open>2 ^ 32\<close>, and not the number of registered handlers.\<close>

lemma irq_handler_count_wrong:
  "irq_get_handler_count (irq_run ops (irq_dispatcher_init s)) = - of_nat (removals ops (\<lambda>_. None))"
  using irq_run_map [of ops "irq_dispatcher_init s"]
  by (simp add: irq_get_handler_count_def irq_map_init) (simp add: irq_dispatcher_init_def)

end
