(* ===== verification/Hal.thy ===== *)
theory Hal imports Startup Irq Kernel_Props "HOL-Library.Monad_Syntax" begin

text \<open>
  The hardware abstraction (\<^verbatim>\<open>src/hal/arm_cortex_m4.c\<close>) and the reset and exception entry of
  the ARM target (\<^verbatim>\<open>src/hal/stm32f429_startup.c\<close>). The memory-mapped registers the code
  writes are fields of the state; a read of a register by the hardware is not modelled.
\<close>

section \<open>The hardware abstraction\<close>

record hal_state =
  hal_tick_count :: u32
  primask :: bool
  cpacr :: u32
  systick_val :: u32
  systick_load :: u32
  systick_ctrl :: u32
  systick_running :: bool
  systick_thread :: bool
  kern :: kernel

definition SYSTICK_CTRL_ENABLE :: u32 where
  "SYSTICK_CTRL_ENABLE = 0x00000001"

definition SYSTICK_CTRL_TICKINT :: u32 where
  "SYSTICK_CTRL_TICKINT = 0x00000002"

definition SYSTICK_CTRL_CLKSOURCE :: u32 where
  "SYSTICK_CTRL_CLKSOURCE = 0x00000004"

definition hal_init :: "target \<Rightarrow> hal_state \<Rightarrow> hal_state" where
  "hal_init t s =
     (case t of TARGET_WINDOWS \<Rightarrow> s | TARGET_QEMU \<Rightarrow> s\<lparr>cpacr := cpacr s OR push_bit 20 0xF\<rparr>)"

definition hal_enable_interrupts :: "target \<Rightarrow> hal_state \<Rightarrow> hal_state" where
  "hal_enable_interrupts t s = (case t of TARGET_WINDOWS \<Rightarrow> s | TARGET_QEMU \<Rightarrow> s\<lparr>primask := False\<rparr>)"

definition hal_disable_interrupts :: "target \<Rightarrow> hal_state \<Rightarrow> hal_state" where
  "hal_disable_interrupts t s = (case t of TARGET_WINDOWS \<Rightarrow> s | TARGET_QEMU \<Rightarrow> s\<lparr>primask := True\<rparr>)"

text \<open>The reload value; \<open>None\<close> is the division by zero.\<close>

definition systick_reload :: "u32 \<Rightarrow> u32 option" where
  "systick_reload ticks =
     (if ticks = 0 then None
      else let reload_value = 21000000 div ticks - 1
           in Some (if 0xFFFFFF < reload_value then 0xFFFFFF else reload_value))"

text \<open>On Windows a thread is created, which succeeds or not (\<open>created\<close>).\<close>

definition hal_systick_init :: "target \<Rightarrow> bool \<Rightarrow> u32 \<Rightarrow> hal_state \<Rightarrow> hal_state option" where
  "hal_systick_init t created ticks s =
     (case t of
        TARGET_WINDOWS \<Rightarrow> Some (s\<lparr>systick_running := True, systick_thread := created\<rparr>)
      | TARGET_QEMU \<Rightarrow>
          do { reload_value \<leftarrow> systick_reload ticks;
               Some (s\<lparr>systick_val := 0, systick_load := reload_value,
                 systick_ctrl := SYSTICK_CTRL_ENABLE OR SYSTICK_CTRL_TICKINT OR SYSTICK_CTRL_CLKSOURCE\<rparr>) })"

definition hal_get_systick :: "hal_state \<Rightarrow> u32" where
  "hal_get_systick s = hal_tick_count s"

definition sys_tick_handler :: "hal_state \<Rightarrow> hal_state option" where
  "sys_tick_handler s =
     (let s1 = s\<lparr>hal_tick_count := hal_tick_count s + 1\<rparr>
      in do { k \<leftarrow> scheduler_tick (kern s1); Some (s1\<lparr>kern := k\<rparr>) })"

text \<open>The thread of the Windows target, \<open>n\<close> rounds of its loop: nothing lowers its flag, so the loop
  does not end by itself.\<close>

fun systick_thread_func :: "nat \<Rightarrow> hal_state \<Rightarrow> hal_state option" where
  "systick_thread_func 0 s = Some s"
| "systick_thread_func (Suc n) s =
     (if systick_running s
      then let s1 = s\<lparr>hal_tick_count := hal_tick_count s + 1\<rparr>
           in do { k \<leftarrow> scheduler_tick (kern s1); systick_thread_func n (s1\<lparr>kern := k\<rparr>) }
      else Some s)"

section \<open>Reset and exceptions\<close>

text \<open>The state in which \<^verbatim>\<open>main\<close> starts; after \<^verbatim>\<open>main\<close> the handler hangs. No data is
  copied or cleared before.\<close>

definition reset_handler :: "(hal_state \<Rightarrow> hal_state) \<Rightarrow> hal_state \<Rightarrow> hal_state" where
  "reset_handler main s =
     (let s1 = hal_init TARGET_QEMU (s\<lparr>primask := True\<rparr>);
          s2 = s1\<lparr>kern := scheduler_init (kern s1)\<rparr>
      in main s2)"

text \<open>The outcome of an exception: its handler returns, or the processor stays in it.\<close>

datatype outcome = RETURNS hal_state | HANGS

definition default_fault_handler :: outcome where
  "default_fault_handler = HANGS"

text \<open>The processor takes exception \<open>n\<close>: it calls the linked code of the entry. An entry of zero is no
  code, and the fault of calling it is handled by the default handler as well.\<close>

definition take_exception :: "nat \<Rightarrow> hal_state \<Rightarrow> outcome" where
  "take_exception n s =
     (case isr_vector n of
        HANDLER name \<Rightarrow>
          if link_handler (set strong_symbols) name = ''sys_tick_handler''
          then (case sys_tick_handler s of Some s' \<Rightarrow> RETURNS s' | None \<Rightarrow> HANGS)
          else default_fault_handler
      | _ \<Rightarrow> default_fault_handler)"

section \<open>The vector table\<close>

text \<open>The names of the entries from 2 on are those of the weak aliases, in the same order.\<close>

fun entry_names :: "vector_entry list \<Rightarrow> string list" where
  "entry_names [] = []"
| "entry_names (HANDLER name # es) = name # entry_names es"
| "entry_names (_ # es) = entry_names es"

lemma entry_names_set: "HANDLER name \<in> set es \<Longrightarrow> name \<in> set (entry_names es)"
  by (induction es rule: entry_names.induct) auto

lemma table_names: "entry_names (drop 2 isr_vector_initialisers) = weak_handlers"
  by (simp add: isr_vector_initialisers_def weak_handlers_def)

lemma length_initialisers: "length isr_vector_initialisers = 107"
  by (simp add: isr_vector_initialisers_def)

text \<open>Only one alias has a strong definition: all names of aliases end in \<open>_handler\<close>.\<close>

definition handler_name :: "string \<Rightarrow> bool" where
  "handler_name s = (take 8 (rev s) = ''reldnah_'')"

lemma weak_names: "list_all handler_name weak_handlers"
  by (simp add: weak_handlers_def handler_name_def)

lemma strong_names:
  "filter handler_name strong_symbols = [''uart_irq_handler'', ''sys_tick_handler'', ''default_fault_handler'', ''reset_handler'']"
  by (simp add: strong_symbols_def handler_name_def)

lemma strong_weak: "name \<in> set strong_symbols \<Longrightarrow> name \<in> set weak_handlers \<Longrightarrow> name = ''sys_tick_handler''"
proof -
  assume a: "name \<in> set strong_symbols" "name \<in> set weak_handlers"
  with weak_names have "handler_name name" by (simp add: list_all_iff)
  with a(1) have "name \<in> set (filter handler_name strong_symbols)" by simp
  then have "name \<in> {''uart_irq_handler'', ''sys_tick_handler'', ''default_fault_handler'', ''reset_handler''}"
    unfolding strong_names by simp
  moreover have "''uart_irq_handler'' \<notin> set weak_handlers" by (simp add: weak_handlers_def)
  moreover have "''default_fault_handler'' \<notin> set weak_handlers" by (simp add: weak_handlers_def)
  moreover have "''reset_handler'' \<notin> set weak_handlers" by (simp add: weak_handlers_def)
  ultimately show "name = ''sys_tick_handler''" using a(2) by auto
qed

lemma strong_tick: "''sys_tick_handler'' \<in> set strong_symbols"
  by (simp add: strong_symbols_def)

lemma nth_unique:
  "xs = as @ x # bs \<Longrightarrow> x \<notin> set as \<Longrightarrow> x \<notin> set bs \<Longrightarrow> n < length xs \<Longrightarrow> xs ! n = x \<longleftrightarrow> n = length as"
  by (auto simp: nth_append nth_Cons split: nat.splits)

lemma tick_entry:
  assumes "n < 107" shows "isr_vector_initialisers ! n = HANDLER ''sys_tick_handler'' \<longleftrightarrow> n = 15"
proof -
  have "isr_vector_initialisers = take 15 isr_vector_initialisers @ HANDLER ''sys_tick_handler'' # drop 16 isr_vector_initialisers"
    by (simp add: isr_vector_initialisers_def)
  moreover have "HANDLER ''sys_tick_handler'' \<notin> set (take 15 isr_vector_initialisers)" by (simp add: isr_vector_initialisers_def)
  moreover have "HANDLER ''sys_tick_handler'' \<notin> set (drop 16 isr_vector_initialisers)" by (simp add: isr_vector_initialisers_def)
  ultimately show ?thesis using nth_unique [of isr_vector_initialisers _ "HANDLER ''sys_tick_handler''"] assms length_initialisers by force
qed

lemma entry_link:
  assumes "isr_vector n = HANDLER name" and "2 \<le> n"
  shows "link_handler (set strong_symbols) name = (if n = 15 then ''sys_tick_handler'' else ''default_fault_handler'')"
proof -
  have n: "n < 107" "isr_vector_initialisers ! n = HANDLER name"
    using assms(1) by (simp_all add: isr_vector_def length_initialisers split: if_splits)
  have "Suc (Suc (n - 2)) = n" using assms(2) by simp
  have "drop 2 isr_vector_initialisers ! (n - 2) = HANDLER name" "n - 2 < length (drop 2 isr_vector_initialisers)"
    using n assms(2) \<open>Suc (Suc (n - 2)) = n\<close> by (simp_all add: length_initialisers)
  then have "HANDLER name \<in> set (drop 2 isr_vector_initialisers)" by (metis nth_mem)
  from entry_names_set [OF this] have w: "name \<in> set weak_handlers" by (simp only: table_names)
  have "name = ''sys_tick_handler'' \<longleftrightarrow> n = 15" using tick_entry [OF n(1)] n(2) by simp
  with w strong_weak [of name] strong_tick show ?thesis by (auto simp: link_handler_def)
qed

lemma tick_vector: "isr_vector 15 = HANDLER ''sys_tick_handler''"
  using tick_entry [of 15] by (simp add: isr_vector_def length_initialisers)

section \<open>The properties\<close>

text \<open>C25: of the exceptions and interrupts of the vector table only SysTick has a handler: taking any other
  (the supervisor call and PendSV among them, and the interrupts of every peripheral, for which the
  dispatcher and the handlers of the drivers exist) leaves the processor in the default handler.
  Taking SysTick on a well-formed kernel counts the tick, runs the scheduler's tick and returns with the
  kernel well formed.\<close>

theorem only_systick_handled:
  assumes "kernel_inv (kern s)" and "2 \<le> n" and "n < isr_vector_size"
  shows "if n = 15
    then \<exists>s'. take_exception n s = RETURNS s' \<and> kernel_inv (kern s') \<and> hal_get_systick s' = hal_get_systick s + 1
       \<and> scheduler_tick (kern s) = Some (kern s') \<and> primask s' = primask s
    else take_exception n s = HANGS"
proof (cases "n = 15")
  case True
  from tick_keeps [OF assms(1) [unfolded kernel_inv_def]] obtain k where
    k: "scheduler_tick (kern s) = Some k" "kernel_inv k" using kernel_invI by blast
  with True show ?thesis
    by (simp add: take_exception_def tick_vector entry_link [OF tick_vector] sys_tick_handler_def Let_def hal_get_systick_def)
next
  case False
  show ?thesis
  proof (cases "isr_vector n")
    case (HANDLER name)
    with entry_link [OF this assms(2)] False show ?thesis by (simp add: take_exception_def default_fault_handler_def)
  qed (use False in \<open>simp_all add: take_exception_def default_fault_handler_def\<close>)
qed

definition idle_hal :: hal_state where
  "idle_hal = \<lparr>hal_tick_count = 0, primask = False, cpacr = 0, systick_val = 0, systick_load = 0, systick_ctrl = 0,
     systick_running = False, systick_thread = False, kern = demo_kernel\<rparr>"

theorem only_systick_handled_witness:
  "take_exception 53 idle_hal = HANGS \<and> (\<exists>s'. take_exception 15 idle_hal = RETURNS s' \<and> hal_get_systick s' = 1)"
  using only_systick_handled [of idle_hal 53] only_systick_handled [of idle_hal 15] demo_inv
  by (auto simp: idle_hal_def isr_vector_size_def hal_get_systick_def)

text \<open>C40: the SysTick reload value asked for a tick rate: from 2 Hz up to 21 MHz it is exactly one less than
  the number of whole periods of the 21 MHz the code assumes; for 1 Hz it is clipped to 24 bits; above
  21 MHz the subtraction wraps and the slowest rate is set. The control register selects the processor
  clock.\<close>

theorem hal_systick_reload:
  assumes "ticks \<noteq> 0"
  shows "\<exists>s'. hal_systick_init TARGET_QEMU c ticks s = Some s' \<and> systick_val s' = 0 \<and> systick_ctrl s' = 7
    \<and> unat (systick_load s') =
        (if 1 < unat ticks \<and> unat ticks \<le> 21000000 then 21000000 div unat ticks - 1 else 2 ^ 24 - 1)"
proof -
  have q: "unat (21000000 div ticks) = 21000000 div unat ticks" by (simp add: unat_div)
  have pos: "0 < unat ticks" using assms by (simp add: unat_gt_0)
  define r where "r = 21000000 div ticks - 1"
  have reload: "systick_reload ticks = Some (if 0xFFFFFF < r then 0xFFFFFF else r)"
    using assms by (simp add: systick_reload_def r_def)
  have val: "unat (if 0xFFFFFF < r then 0xFFFFFF else r) =
      (if 1 < unat ticks \<and> unat ticks \<le> 21000000 then 21000000 div unat ticks - 1 else 2 ^ 24 - 1)"
  proof (cases "unat ticks \<le> 21000000")
    case True
    then have "1 \<le> 21000000 div unat ticks" using pos by (simp add: div_greater_zero_iff Suc_le_eq)
    then have ur: "unat r = 21000000 div unat ticks - 1" unfolding r_def using q by (subst unat_sub_small) simp_all
    show ?thesis
    proof (cases "unat ticks = 1")
      case True
      with ur show ?thesis by (simp add: word_less_nat_alt)
    next
      case False
      then have "21000000 div unat ticks \<le> 21000000 div 2" using pos by (intro div_le_mono2) auto
      then have "\<not> 0xFFFFFF < r" using ur by (simp add: word_less_nat_alt)
      with ur True False pos show ?thesis by simp
    qed
  next
    case False
    then have "21000000 div ticks = 0" using q by (simp add: word_unat_eq_iff)
    then have "r = 0xFFFFFFFF" by (simp add: r_def)
    with False show ?thesis by simp
  qed
  have "systick_ctrl (s\<lparr>systick_ctrl := SYSTICK_CTRL_ENABLE OR SYSTICK_CTRL_TICKINT OR SYSTICK_CTRL_CLKSOURCE\<rparr>) = 7"
    by (simp add: SYSTICK_CTRL_ENABLE_def SYSTICK_CTRL_TICKINT_def SYSTICK_CTRL_CLKSOURCE_def)
  then show ?thesis using val by (simp add: hal_systick_init_def reload)
qed

theorem hal_systick_reload_witness:
  "\<exists>s'. hal_systick_init TARGET_QEMU False 1000 idle_hal = Some s' \<and> unat (systick_load s') = 20999"
  using hal_systick_reload [of 1000 False idle_hal] by auto

end
