(* ===== verification/Demo_App.thy ===== *)
theory Demo_App imports Bootloader Framework_Typing Hal begin

text \<open>
  The demo application (\<^verbatim>\<open>examples/demo_app.c\<close>), the program that puts the components together: it
  verifies the firmware header, initialises the kernel and the heap, opens the devices through the
  framework, creates IPC objects and tasks, starts the scheduler and gives everything back.

  The scheduler of this build switches no contexts, so the task functions are never entered by the
  program itself; their endless loops are run for a number of rounds. From \<^verbatim>\<open>hal_systick_init\<close>
  on the timer ticks, from its own thread or by its interrupt: a parameter says how many ticks fall
  between any two operations of \<^verbatim>\<open>main\<close>, its sleep included. A tick in the middle of an operation
  is not part of these runs (the theory \<open>Tick_Race\<close> shows what one can do to a ready list). The
  addresses of the task functions, of a string literal and of local arrays are parameters.
\<close>

section \<open>State\<close>

text \<open>The statics of all components and of the application. The heap is the one the UART driver
  allocates from, the kernel the one the timer drives.\<close>

record demo_state =
  devices :: world
  hardware :: hal_state
  uart0 :: "nat option"
  i2c0 :: "nat option"
  sensor_sem :: addr
  uart_mutex :: addr

definition heap_of :: "demo_state \<Rightarrow> heap_state" where
  "heap_of d = uheap (uarts (devices d))"

definition set_heap :: "heap_state \<Rightarrow> demo_state \<Rightarrow> demo_state" where
  "set_heap h d = d\<lparr>devices := (devices d)\<lparr>uarts := (uarts (devices d))\<lparr>uheap := h\<rparr>\<rparr>\<rparr>"

definition kern_of :: "demo_state \<Rightarrow> kernel" where
  "kern_of d = kern (hardware d)"

definition set_kern :: "kernel \<Rightarrow> demo_state \<Rightarrow> demo_state" where
  "set_kern k d = d\<lparr>hardware := (hardware d)\<lparr>kern := k\<rparr>\<rparr>"

definition RTOS_WAIT_FOREVER :: u32 where
  "RTOS_WAIT_FOREVER = 0xFFFFFFFF"

definition MS_TO_TICKS :: "u32 \<Rightarrow> u32" where
  "MS_TO_TICKS ms = ms * 1000 div 1000"

definition TASK_PRIORITY_HIGH :: u8 where
  "TASK_PRIORITY_HIGH = 8"

definition TASK_PRIORITY_NORMAL :: u8 where
  "TASK_PRIORITY_NORMAL = 16"

definition TASK_PRIORITY_LOW :: u8 where
  "TASK_PRIORITY_LOW = 24"

section \<open>The tasks\<close>

definition task_led_blink_round :: "demo_state \<Rightarrow> demo_state option" where
  "task_led_blink_round d = do { k \<leftarrow> task_delay (MS_TO_TICKS 500) (kern_of d); Some (set_kern k d) }"

text \<open>The message is the 17 bytes of \<^verbatim>\<open>"Hello from RTOS!"\<close> and a line feed at \<open>msg\<close>.\<close>

definition task_uart_comm_round ::
    "(addr \<Rightarrow> nat \<Rightarrow> addr \<Rightarrow> uart_state \<Rightarrow> uart_state) \<Rightarrow> addr \<Rightarrow> demo_state \<Rightarrow> demo_state option" where
  "task_uart_comm_round call msg d =
     (let (h1, _) = mutex_lock (kern_of d) (heap_of d) (uart_mutex d) RTOS_WAIT_FOREVER;
          d1 = set_heap h1 d;
          (us, _) = uart_write call (uarts (devices d1)) (uart0 d1) msg 17;
          d2 = d1\<lparr>devices := (devices d1)\<lparr>uarts := us\<rparr>\<rparr>;
          (h2, _) = mutex_unlock (kern_of d2) (heap_of d2) (uart_mutex d2);
          d3 = set_heap h2 d2
      in do { k \<leftarrow> task_delay (MS_TO_TICKS 1000) (kern_of d3); Some (set_kern k d3) })"

definition task_sensor_read_round :: "addr \<Rightarrow> addr \<Rightarrow> demo_state \<Rightarrow> demo_state option" where
  "task_sensor_read_round frame sensor_data d =
     (let (h1, _) = sem_take (heap_of d) (sensor_sem d) RTOS_WAIT_FOREVER; d1 = set_heap h1 d
      in do { (bus, m, _) \<leftarrow> i2c_read_registers (i2cs (devices d1)) (mem (heap_of d1)) frame (i2c0 d1) 0x68 0x3B sensor_data 6;
              let d2 = set_heap ((heap_of d1)\<lparr>mem := m\<rparr>) (d1\<lparr>devices := (devices d1)\<lparr>i2cs := bus\<rparr>\<rparr>);
              let (h2, _) = sem_give (heap_of d2) (sensor_sem d2);
              let d3 = set_heap h2 d2;
              k \<leftarrow> task_delay (MS_TO_TICKS 100) (kern_of d3);
              Some (set_kern k d3) })"

text \<open>The functions themselves, stopped after \<open>n\<close> rounds of their loops, which have no other end.\<close>

primrec rounds :: "(demo_state \<Rightarrow> demo_state option) \<Rightarrow> nat \<Rightarrow> demo_state \<Rightarrow> demo_state option" where
  "rounds f 0 d = Some d"
| "rounds f (Suc n) d = do { d1 \<leftarrow> f d; rounds f n d1 }"

definition task_led_blink :: "nat \<Rightarrow> demo_state \<Rightarrow> demo_state option" where
  "task_led_blink n d = rounds task_led_blink_round n d"

definition task_uart_comm ::
    "(addr \<Rightarrow> nat \<Rightarrow> addr \<Rightarrow> uart_state \<Rightarrow> uart_state) \<Rightarrow> addr \<Rightarrow> nat \<Rightarrow> demo_state \<Rightarrow> demo_state option" where
  "task_uart_comm call msg n d = rounds (task_uart_comm_round call msg) n d"

definition task_sensor_read :: "addr \<Rightarrow> addr \<Rightarrow> nat \<Rightarrow> demo_state \<Rightarrow> demo_state option" where
  "task_sensor_read frame sensor_data n d = rounds (task_sensor_read_round frame sensor_data) n d"

section \<open>The main function\<close>

definition fw_header :: firmware_header where
  "fw_header = \<lparr>fw_magic = 0xDEADC0DE, fw_version = 1, fw_size = 32768, fw_crc32 = 0x12345678, fw_entry_point = 0x08008000\<rparr>"

definition demo_init :: "target \<Rightarrow> demo_state \<Rightarrow> demo_state" where
  "demo_init t d =
     (let d1 = d\<lparr>hardware := hal_init t (hardware d)\<rparr>;
          d2 = set_heap (memory_init (heap_of d1)) d1
      in set_kern (scheduler_init (task_init (kern_of d2))) d2)"

definition uart_dev :: device where
  "uart_dev = \<lparr>dev_name = Some ''uart_0'', dev_id = 0, dev_driver_name = Some ''uart_driver'',
     platform_data = Some (UART_CONFIG \<lparr>baud_rate = UART_BAUD_115200, parity = UART_PARITY_NONE, stop_bits = UART_STOPBITS_1,
       data_bits = UART_DATABITS_8, enable_dma = False, enable_interrupts = True, rx_buffer_size = 256, tx_buffer_size = 256\<rparr>),
     driver_data = None, init_priority = 10, dev_initialized = False\<rparr>"

definition i2c_dev :: device where
  "i2c_dev = \<lparr>dev_name = Some ''i2c_0'', dev_id = 0, dev_driver_name = Some ''i2c_driver'',
     platform_data = Some (I2C_CONFIG \<lparr>i2c_speed = I2C_SPEED_FAST, i2c_addr_mode = I2C_ADDR_7BIT, i2c_enable_dma = False,
       i2c_timeout_ms = 100\<rparr>),
     driver_data = None, init_priority = 20, dev_initialized = False\<rparr>"

definition spi_dev :: device where
  "spi_dev = \<lparr>dev_name = Some ''spi_0'', dev_id = 0, dev_driver_name = Some ''spi_driver'',
     platform_data = Some (SPI_CONFIG \<lparr>spi_mode = SPI_MODE_0, spi_speed = SPI_SPEED_HIGH, spi_enable_dma = False\<rparr>),
     driver_data = None, init_priority = 30, dev_initialized = False\<rparr>"

text \<open>The application has no callbacks of its own.\<close>

definition demo_devices :: "world \<Rightarrow> world option" where
  "demo_devices w =
     (let w1 = device_register_builtin_drivers (device_framework_init w);
          w2 = fst (device_register w1 (Some uart_dev));
          w3 = fst (device_register w2 (Some i2c_dev));
          w4 = fst (device_register w3 (Some spi_dev))
      in map_option fst (device_init_all (call_init (\<lambda>_ _ _. None)) w4))"

text \<open>A cast of \<^verbatim>\<open>driver_data\<close> to the handle type of one driver, and its use as such: \<open>None\<close> for an
  object of another type. A null pointer stays one.\<close>

fun as_uart :: "handle_object option \<Rightarrow> nat option option" where
  "as_uart None = Some None"
| "as_uart (Some (UART_HANDLE u)) = Some (Some u)"
| "as_uart (Some _) = None"

fun as_i2c :: "handle_object option \<Rightarrow> nat option option" where
  "as_i2c None = Some None"
| "as_i2c (Some (I2C_HANDLE i)) = Some (Some i)"
| "as_i2c (Some _) = None"

fun as_spi :: "handle_object option \<Rightarrow> nat option option" where
  "as_spi None = Some None"
| "as_spi (Some (SPI_HANDLE i)) = Some (Some i)"
| "as_spi (Some _) = None"

text \<open>The lookup by name is dereferenced without a check: a null pointer is undefined.\<close>

definition demo_handles :: "world \<Rightarrow> (nat option \<times> nat option \<times> nat option) option" where
  "demo_handles w =
     do { ud \<leftarrow> device_get_by_name w (Some ''uart_0'');
          id \<leftarrow> device_get_by_name w (Some ''i2c_0'');
          sd \<leftarrow> device_get_by_name w (Some ''spi_0'');
          u \<leftarrow> as_uart (driver_data (device_registry w ud));
          i \<leftarrow> as_i2c (driver_data (device_registry w id));
          s \<leftarrow> as_spi (driver_data (device_registry w sd));
          Some (u, i, s) }"

definition demo_ipc :: "demo_state \<Rightarrow> demo_state option" where
  "demo_ipc d =
     do { (h1, sem) \<leftarrow> sem_create (heap_of d) 1 1;
          (h2, mutex) \<leftarrow> mutex_create h1;
          Some ((set_heap h2 d)\<lparr>sensor_sem := sem, uart_mutex := mutex\<rparr>) }"

definition literal :: "string \<Rightarrow> u8 list" where
  "literal s = map of_char s"

definition demo_tasks :: "addr \<Rightarrow> addr \<Rightarrow> addr \<Rightarrow> kernel \<Rightarrow> kernel option" where
  "demo_tasks led comm sensor k =
     do { (k1, _, _) \<leftarrow> task_create led (Some (literal ''LED_Blink'')) TASK_PRIORITY_LOW NULL k;
          (k2, _, _) \<leftarrow> task_create comm (Some (literal ''UART_Comm'')) TASK_PRIORITY_NORMAL NULL k1;
          (k3, _, _) \<leftarrow> task_create sensor (Some (literal ''Sensor_Read'')) TASK_PRIORITY_HIGH NULL k2;
          Some k3 }"

text \<open>What the timer does while \<open>n\<close> ticks pass: on Windows its thread, if it was created, runs \<open>n\<close>
  rounds; on the ARM target the interrupt is taken \<open>n\<close> times, if interrupts and the SysTick are
  enabled.\<close>

fun sys_ticks :: "nat \<Rightarrow> hal_state \<Rightarrow> hal_state option" where
  "sys_ticks 0 s = Some s"
| "sys_ticks (Suc n) s = do { s1 \<leftarrow> sys_tick_handler s; sys_ticks n s1 }"

definition demo_ticks :: "target \<Rightarrow> nat \<Rightarrow> demo_state \<Rightarrow> demo_state option" where
  "demo_ticks t n d =
     do { hw \<leftarrow> (case t of
                  TARGET_WINDOWS \<Rightarrow>
                    if systick_thread (hardware d) then systick_thread_func n (hardware d) else Some (hardware d)
                | TARGET_QEMU \<Rightarrow>
                    if \<not> primask (hardware d)
                       \<and> systick_ctrl (hardware d) AND SYSTICK_CTRL_ENABLE \<noteq> 0
                       \<and> systick_ctrl (hardware d) AND SYSTICK_CTRL_TICKINT \<noteq> 0
                    then sys_ticks n (hardware d) else Some (hardware d));
          Some (d\<lparr>hardware := hw\<rparr>) }"

text \<open>From the verified header up to the running timer; the second component are the handles.\<close>

definition demo_setup ::
    "target \<Rightarrow> bool \<Rightarrow> addr \<Rightarrow> addr \<Rightarrow> addr \<Rightarrow> demo_state \<Rightarrow>
     (demo_state \<times> (nat option \<times> nat option \<times> nat option)) option" where
  "demo_setup t created led comm sensor d =
     do { let d1 = demo_init t d;
          w \<leftarrow> demo_devices (devices d1);
          hs \<leftarrow> demo_handles w;
          d2 \<leftarrow> demo_ipc (d1\<lparr>devices := w\<rparr>);
          k \<leftarrow> demo_tasks led comm sensor (kern_of d2);
          hw \<leftarrow> hal_systick_init t created 1000 (hardware (set_kern k d2));
          Some (d2\<lparr>hardware := hw\<rparr>, hs) }"

text \<open>The cleanup: the three devices, then the two objects.\<close>

definition demo_close ::
    "target \<Rightarrow> (nat \<Rightarrow> nat) \<Rightarrow> nat option \<times> nat option \<times> nat option \<Rightarrow> demo_state \<Rightarrow> demo_state option" where
  "demo_close t ticks hs d =
     (case hs of (u, i, s) \<Rightarrow>
        do { let d1 = d\<lparr>devices := (devices d)\<lparr>spis := fst (spi_deinit (spis (devices d)) s)\<rparr>\<rparr>;
             d2 \<leftarrow> demo_ticks t (ticks 2) d1;
             let d3 = d2\<lparr>devices := (devices d2)\<lparr>i2cs := fst (i2c_deinit (i2cs (devices d2)) i)\<rparr>\<rparr>;
             d4 \<leftarrow> demo_ticks t (ticks 3) d3;
             (us, _) \<leftarrow> uart_deinit (uarts (devices d4)) u;
             demo_ticks t (ticks 4) (d4\<lparr>devices := (devices d4)\<lparr>uarts := us\<rparr>\<rparr>) })"

definition demo_destroy :: "target \<Rightarrow> (nat \<Rightarrow> nat) \<Rightarrow> demo_state \<Rightarrow> demo_state option" where
  "demo_destroy t ticks d =
     do { h1 \<leftarrow> sem_destroy (heap_of d) (sensor_sem d);
          d1 \<leftarrow> demo_ticks t (ticks 5) (set_heap h1 d);
          h2 \<leftarrow> mutex_destroy (heap_of d1) (uart_mutex d1);
          demo_ticks t (ticks 6) (set_heap h2 d1) }"

definition demo_cleanup ::
    "target \<Rightarrow> (nat \<Rightarrow> nat) \<Rightarrow> nat option \<times> nat option \<times> nat option \<Rightarrow> demo_state \<Rightarrow> demo_state option" where
  "demo_cleanup t ticks hs d = do { d1 \<leftarrow> demo_close t ticks hs d; demo_destroy t ticks d1 }"

text \<open>The handles \<^verbatim>\<open>uart0\<close> and \<^verbatim>\<open>i2c0\<close> that \<^verbatim>\<open>main\<close> assigns are its local variables, which hide the
  statics the tasks use. The ticks numbered 0 fall before the start of the scheduler, those numbered
  1 between the start and the cleanup, where the Windows program sleeps, and the others follow the
  five operations of the cleanup.\<close>

definition demo_main ::
    "target \<Rightarrow> bool \<Rightarrow> (nat \<Rightarrow> nat) \<Rightarrow> addr \<Rightarrow> addr \<Rightarrow> addr \<Rightarrow> demo_state \<Rightarrow> (demo_state \<times> int) option" where
  "demo_main t created ticks led comm sensor d =
     (if bootloader_verify_image (Some fw_header) \<noteq> RTOS_OK then Some (d, -1)
      else do {
        (d1, hs) \<leftarrow> demo_setup t created led comm sensor d;
        d2 \<leftarrow> demo_ticks t (ticks 0) d1;
        k \<leftarrow> scheduler_start (kern_of d2);
        d3 \<leftarrow> demo_ticks t (ticks 1) (set_kern k d2);
        d4 \<leftarrow> demo_cleanup t ticks hs d3;
        Some (d4, 0) })"

end
