(* ===== verification/Heap_Stacked.thy ===== *)
theory Heap_Stacked imports Ipc_Props Uart begin

text \<open>
  Heaps as a program leaves them that only allocates: allocated blocks from the bottom up and one
  free block above them. On such a heap every constructor succeeds at a known address; the two
  programs of the repository, the demo application and the test program, are followed with these
  lemmas.
\<close>

section \<open>A heap filled from the bottom\<close>

definition stacked :: "heap_state \<Rightarrow> blk list \<Rightarrow> addr \<Rightarrow> nat \<Rightarrow> bool" where
  "stacked s used a n \<longleftrightarrow> heap_ok s (used @ [(a, n, True)]) \<and> (\<forall>b l. (b, l, True) \<notin> set used)"

lemma stacked_inv: "stacked s used a n \<Longrightarrow> heap_inv s"
  by (auto simp: stacked_def intro: heap_invI)

lemma stacked_live:
  "stacked s used a n \<Longrightarrow> heap_live s p = Some k \<longleftrightarrow> 32 \<le> p \<and> (p - 32, k, False) \<in> set used"
  using heap_live_Some [of s "used @ [(a, n, True)]" p k] by (auto simp: stacked_def)

lemma map_eqI: "(\<And>p k. f p = Some k \<longleftrightarrow> g p = Some k) \<Longrightarrow> f = g"
  by (rule ext) (metis not_Some_eq)

lemma malloc_stacked:
  assumes s: "stacked s used a n" and k: "k \<noteq> 0" "unat k \<le> 2 ^ 64 - 4" and l: "l = (unat k + 3) div 4 * 4" "l + 64 \<le> n"
  shows "\<exists>s'. rtos_malloc s k = Some (s', a + 32) \<and> stacked s' (used @ [(a, l, False)]) (a + 32 + l) (n - l - 32)"
proof -
  have ok: "heap_ok s (used @ [(a, n, True)])" and used: "\<And>b m. (b, m, True) \<notin> set used" using s by (auto simp: stacked_def)
  note bs = heap_ok_inv [OF ok] and al = unat_align_size [OF k(2)]
  have fits: "\<not> no_fit l (heap_blocks s)" using bs l(2) by (auto simp: no_fit_def)
  from malloc_blocks [OF conjunct1 [OF bs] k(1)] fits bs obtain s' b m where
    r: "rtos_malloc s k = Some (s', b + 32)" "heap_inv s'" "best_fit l (used @ [(a, n, True)]) b m"
      "heap_blocks s' = take_block b l (used @ [(a, n, True)])"
    unfolding al l(1) [symmetric] by auto
  have b: "b = a" using r(3) used by (auto simp: best_fit_def)
  have "a \<notin> fst ` set used" using heap_ok_distinct [OF ok] by auto
  then have "heap_blocks s' = (used @ [(a, l, False)]) @ [(a + 32 + l, n - l - 32, True)]"
    using r(4) l(2) by (simp add: b take_block_append)
  then have "stacked s' (used @ [(a, l, False)]) (a + 32 + l) (n - l - 32)"
    using r(2) used by (auto simp: stacked_def heap_inv_ok)
  with r(1) b show ?thesis by blast
qed

lemma stacked_store:
  assumes "stacked s (used @ [(a, l, False)]) c n" and "inside (a + 32) l f"
  shows "stacked (heap_store f s) (used @ [(a, l, False)]) c n"
proof -
  have "heap_live s (a + 32) = Some l" using stacked_live [OF assms(1), of "a + 32" l] by simp
  from heap_store_ok [OF _ this assms(2)] assms(1) show ?thesis by (auto simp: stacked_def)
qed

lemma sem_create_stacked:
  assumes "stacked s used a n" and "72 \<le> n"
  shows "\<exists>s'. sem_create s i m = Some (s', a + 32) \<and> stacked s' (used @ [(a, 8, False)]) (a + 40) (n - 40)"
proof -
  have "\<exists>s1. rtos_malloc s sizeof_semaphore = Some (s1, a + 32) \<and> stacked s1 (used @ [(a, 8, False)]) (a + 32 + 8) (n - 8 - 32)"
    by (rule malloc_stacked [OF assms(1)]) (use assms(2) in \<open>simp_all add: sizeof_semaphore_def\<close>)
  then obtain s1 where
    s1: "rtos_malloc s sizeof_semaphore = Some (s1, a + 32)" "stacked s1 (used @ [(a, 8, False)]) (a + 40) (n - 40)" by (auto simp: add.commute)
  have "inside (a + 32) 8 (\<lambda>m'. set_sem_max_count (a + 32) m (set_sem_count (a + 32) i m'))"
    using inside_comp [OF inside_sem(2) [of 8 "a + 32" "\<lambda>_. m"] inside_sem(1) [of 8 "a + 32" "\<lambda>_. i"]] by simp
  from stacked_store [OF s1(2) this] s1(1) show ?thesis by (simp add: sem_create_def)
qed

lemma mutex_create_stacked:
  assumes "stacked s used a n" and "72 \<le> n"
  shows "\<exists>s'. mutex_create s = Some (s', a + 32) \<and> stacked s' (used @ [(a, 8, False)]) (a + 40) (n - 40)"
proof -
  have "\<exists>s1. rtos_malloc s sizeof_mutex = Some (s1, a + 32) \<and> stacked s1 (used @ [(a, 8, False)]) (a + 32 + 8) (n - 8 - 32)"
    by (rule malloc_stacked [OF assms(1)]) (use assms(2) in \<open>simp_all add: sizeof_mutex_def\<close>)
  then obtain s1 where
    s1: "rtos_malloc s sizeof_mutex = Some (s1, a + 32)" "stacked s1 (used @ [(a, 8, False)]) (a + 40) (n - 40)" by (auto simp: add.commute)
  have "inside (a + 32) 8 (set_mutex (a + 32) False 0)" by (auto simp: inside_def set_mutex_def frames)
  from stacked_store [OF s1(2) this] s1(1) show ?thesis by (simp add: mutex_create_def)
qed

section \<open>A port with its two buffers\<close>

lemma uart_opens_stacked:
  assumes s: "stacked (uheap u) [] b n" and closed: "\<not> uart_initialized (uart_instances u 0)"
    and sz: "rx_buffer_size cfg = w" "tx_buffer_size cfg = w" "unat w = k" "0 < k" "4 dvd k" "2 * k + 160 \<le> n"
  shows "\<exists>h port. uart_init u 0 (Some cfg) = Some (upd_uart 0 (\<lambda>_. port) (u\<lparr>uheap := h\<rparr>), Some 0)
    \<and> stacked h [(b, k, False), (b + 32 + k, k, False)] (b + 64 + 2 * k) (n - 64 - 2 * k)
    \<and> uart_initialized port \<and> cb_buffer (rx_buffer port) = b + 32 \<and> cb_buffer (tx_buffer port) = b + 64 + k
    \<and> unat (cb_size (tx_buffer port)) = k \<and> cb_count (tx_buffer port) = 0"
proof -
  have u: "unat (ucast w :: size_t) = k" using unsigned_less [where w = w, where ?'a = nat] sz(3)
    by (simp add: unsigned_ucast_eq take_bit_nat_eq_self)
  then have ne: "(ucast w :: size_t) \<noteq> 0" using sz(4) by auto
  have k: "k = (k + 3) div 4 * 4" "k \<le> 2 ^ 64 - 4"
    using sz(5) unsigned_less [where w = w, where ?'a = nat] sz(3) by auto
  have "\<exists>h1. rtos_malloc (uheap u) (ucast w) = Some (h1, b + 32) \<and> stacked h1 ([] @ [(b, k, False)]) (b + 32 + k) (n - k - 32)"
    by (rule malloc_stacked [OF s ne]) (use u k sz(6) in auto)
  then obtain h1 where h1: "rtos_malloc (uheap u) (ucast w) = Some (h1, b + 32)" "stacked h1 [(b, k, False)] (b + 32 + k) (n - k - 32)"
    by auto
  have "\<exists>h2. rtos_malloc h1 (ucast w) = Some (h2, b + 32 + k + 32)
      \<and> stacked h2 ([(b, k, False)] @ [(b + 32 + k, k, False)]) (b + 32 + k + 32 + k) (n - k - 32 - k - 32)"
    by (rule malloc_stacked [OF h1(2) ne]) (use u k sz(6) in auto)
  moreover have "b + 32 + k + 32 + k = b + 64 + 2 * k" "n - k - 32 - k - 32 = n - 64 - 2 * k" "b + 32 + k + 32 = b + 64 + k"
    by simp_all
  ultimately obtain h2 where h2: "rtos_malloc h1 (ucast w) = Some (h2, b + 64 + k)"
    "stacked h2 [(b, k, False), (b + 32 + k, k, False)] (b + 64 + 2 * k) (n - 64 - 2 * k)" by (auto simp: add.commute)
  define port where "port = zero_uart\<lparr>uart_id := 0, uart_cfg := Some cfg,
    rx_buffer := \<lparr>cb_buffer = b + 32, cb_size = ucast w, cb_head = 0, cb_tail = 0, cb_count = 0\<rparr>,
    tx_buffer := \<lparr>cb_buffer = b + 64 + k, cb_size = ucast w, cb_head = 0, cb_tail = 0, cb_count = 0\<rparr>,
    uart_initialized := True, tx_busy := False\<rparr>"
  have "uart_init u 0 (Some cfg) = Some (upd_uart 0 (\<lambda>_. port) (u\<lparr>uheap := h2\<rparr>), Some 0)"
    using closed by (simp add: uart_init_def circ_buf_init_def sz(1,2) h1(1) h2(1) MAX_UART_INSTANCES_def port_def)
  moreover have "uart_initialized port" "cb_buffer (rx_buffer port) = b + 32" "cb_buffer (tx_buffer port) = b + 64 + k"
    "unat (cb_size (tx_buffer port)) = k" "cb_count (tx_buffer port) = 0"
    by (simp_all add: port_def u)
  ultimately show ?thesis using h2(2) by blast
qed

end
