(* ===== verification/Heap_User.thy ===== *)
theory Heap_User imports Heap_Object begin

text \<open>
  What the components that share the heap owe each other. A component keeps a state of its own and
  owns some blocks of the heap. It relies on nobody else touching these, and it guarantees that its
  own steps touch nothing but its blocks and such that were not allocated. The locale \<open>heap_user\<close> is
  this contract; two components that own different blocks form a component again
  (\<open>heap_users\<close>), so the whole system is well behaved because its parts are.
\<close>

section \<open>The effect of a step\<close>

text \<open>A step of a component that owns \<open>A\<close> before and \<open>A'\<close> afterwards.\<close>

definition effect :: "heap_state \<Rightarrow> addr set \<Rightarrow> heap_state \<Rightarrow> addr set \<Rightarrow> bool" where
  "effect h A h' A' \<longleftrightarrow> (\<exists>W. touches h h' W \<and> (\<forall>p\<in>W. p \<in> A \<or> heap_live h p = None)
     \<and> A' - W = A - W \<and> (\<forall>p\<in>W. p \<in> A' \<longleftrightarrow> heap_live h' p \<noteq> None))"

lemma effectI:
  "touches h h' W \<Longrightarrow> (\<And>p. p \<in> W \<Longrightarrow> p \<in> A \<or> heap_live h p = None) \<Longrightarrow> A' - W = A - W \<Longrightarrow>
   (\<And>p. p \<in> W \<Longrightarrow> p \<in> A' \<longleftrightarrow> heap_live h' p \<noteq> None) \<Longrightarrow> effect h A h' A'"
  unfolding effect_def by (rule exI [of _ W]) simp

lemma effect_none: "touches h h' {} \<Longrightarrow> effect h A h' A"
  by (rule effectI [where W = "{}"]) simp_all

lemma effect_refl: "heap_inv h \<Longrightarrow> effect h A h A"
  by (rule effect_none) (rule touches_refl)

lemma effect_inv: "effect h A h' A' \<Longrightarrow> heap_inv h'"
  by (auto simp: effect_def touches_inv)

text \<open>The steps on blocks the component owns: using them, taking new ones, giving some back.\<close>

lemma effect_use:
  assumes "touches h h' W" and "W \<subseteq> A" and "\<And>p. p \<in> W \<Longrightarrow> heap_live h' p \<noteq> None"
  shows "effect h A h' A"
  using assms by (intro effectI [where W = W]) auto

lemma effect_take:
  assumes "touches h h' W" and "\<And>p. p \<in> W \<Longrightarrow> heap_live h p = None \<and> heap_live h' p \<noteq> None"
  shows "effect h A h' (A \<union> W)"
  using assms by (intro effectI [where W = W]) auto

lemma effect_give:
  assumes "touches h h' W" and "W \<subseteq> A" and "\<And>p. p \<in> W \<Longrightarrow> heap_live h' p = None"
  shows "effect h A h' (A - W)"
  using assms by (intro effectI [where W = W]) auto

text \<open>What the others see of it: their blocks are not touched, and what is allocated beside them is
  still what the component owns.\<close>

lemma effect_touches:
  assumes "effect h A h' A'" and "B \<subseteq> dom (heap_live h)" and "A \<inter> B = {}"
  obtains W where "touches h h' W" and "W \<inter> B = {}"
proof -
  from assms(1) obtain W where "touches h h' W" and "\<forall>p\<in>W. p \<in> A \<or> heap_live h p = None" by (auto simp: effect_def)
  moreover have "heap_live h p \<noteq> None" if "p \<in> B" for p using that assms(2) by blast
  ultimately have "W \<inter> B = {}" using assms(3) by blast
  then show thesis using \<open>touches h h' W\<close> that by blast
qed

lemma effect_live:
  assumes "effect h A h' A'" and "A \<subseteq> dom (heap_live h)"
  shows "A' \<subseteq> dom (heap_live h')"
proof
  fix p assume p: "p \<in> A'"
  from assms(1) obtain W where W: "touches h h' W" "A' - W = A - W" "\<forall>p\<in>W. p \<in> A' \<longleftrightarrow> heap_live h' p \<noteq> None"
    by (auto simp: effect_def)
  show "p \<in> dom (heap_live h')"
  proof (cases "p \<in> W")
    case False
    with W(2) p assms(2) have "p \<in> dom (heap_live h)" by blast
    with touches_live [OF W(1) False] show ?thesis by (simp add: domIff)
  qed (use W(3) p in auto)
qed

text \<open>The same step seen as one of a larger component.\<close>

lemma effect_frame:
  assumes "effect h A h' A'" and "B \<subseteq> dom (heap_live h)" and "A \<inter> B = {}"
  shows "effect h (A \<union> B) h' (A' \<union> B)" and "A' \<inter> B = {}"
proof -
  from assms(1) obtain W where W: "touches h h' W" "\<forall>p\<in>W. p \<in> A \<or> heap_live h p = None"
    "A' - W = A - W" "\<forall>p\<in>W. p \<in> A' \<longleftrightarrow> heap_live h' p \<noteq> None" by (auto simp: effect_def)
  have "heap_live h p \<noteq> None" if "p \<in> B" for p using that assms(2) by blast
  then have WB: "W \<inter> B = {}" using W(2) assms(3) by blast
  show "A' \<inter> B = {}" using WB W(3) assms(3) by blast
  show "effect h (A \<union> B) h' (A' \<union> B)"
  proof (rule effectI [OF W(1)])
    show "p \<in> A \<union> B \<or> heap_live h p = None" if "p \<in> W" for p using bspec [OF W(2) that] by auto
    show "A' \<union> B - W = A \<union> B - W" using W(3) by blast
    show "p \<in> A' \<union> B \<longleftrightarrow> heap_live h' p \<noteq> None" if "p \<in> W" for p using bspec [OF W(4) that] WB that by blast
  qed
qed

lemma effect_exact:
  assumes "effect h A h' A'" and "dom (heap_live h) = A"
  shows "dom (heap_live h') = A'"
proof (rule set_eqI)
  fix p
  from assms(1) obtain W where W: "touches h h' W" "A' - W = A - W" "\<forall>p\<in>W. p \<in> A' \<longleftrightarrow> heap_live h' p \<noteq> None"
    by (auto simp: effect_def)
  show "p \<in> dom (heap_live h') \<longleftrightarrow> p \<in> A'"
  proof (cases "p \<in> W")
    case False
    have "p \<in> dom (heap_live h') \<longleftrightarrow> p \<in> dom (heap_live h)" using touches_live [OF W(1) False] by (simp add: domIff)
    with W(2) assms(2) False show ?thesis by blast
  qed (use W(3) in auto)
qed

section \<open>The contract\<close>

text \<open>A component consists of parts with names: \<open>part\<close> are the blocks of the one with the given name,
  \<open>view\<close> is what clients can observe of it, \<open>step\<close> an operation on it; \<open>idle\<close> is the state in which
  the component holds nothing.\<close>

locale heap_user =
  fixes inv :: "heap_state \<Rightarrow> 'c \<Rightarrow> bool"
    and owned :: "heap_state \<Rightarrow> 'c \<Rightarrow> addr set"
    and part :: "heap_state \<Rightarrow> 'c \<Rightarrow> 'n \<Rightarrow> addr set"
    and view :: "heap_state \<Rightarrow> 'c \<Rightarrow> 'n \<Rightarrow> 'v option"
    and step :: "heap_state \<times> 'c \<Rightarrow> 'n \<Rightarrow> heap_state \<times> 'c \<Rightarrow> bool"
    and idle :: "'c \<Rightarrow> bool"
  assumes inv_heap: "inv h c \<Longrightarrow> heap_inv h"
    and owned_live: "inv h c \<Longrightarrow> owned h c \<subseteq> dom (heap_live h)"
    and part_owned: "owned h c = (\<Union>n. part h c n)"
    and part_unique: "inv h c \<Longrightarrow> p \<in> part h c n \<Longrightarrow> p \<in> part h c m \<Longrightarrow> n = m"
    and stable: "inv h c \<Longrightarrow> touches h h' W \<Longrightarrow> W \<inter> owned h c = {} \<Longrightarrow>
          inv h' c \<and> owned h' c = owned h c \<and> view h' c = view h c"
    and step_inv: "step (h, c) n (h', c') \<Longrightarrow> inv h c \<Longrightarrow> inv h' c'"
    and step_effect: "step (h, c) n (h', c') \<Longrightarrow> inv h c \<Longrightarrow> effect h (owned h c) h' (owned h' c')"
    and step_view: "step (h, c) n (h', c') \<Longrightarrow> inv h c \<Longrightarrow> view h c m = Some v \<Longrightarrow> m \<noteq> n \<Longrightarrow> view h' c' m = Some v"
    and idle_inv: "idle c \<Longrightarrow> heap_inv h \<Longrightarrow> inv h c \<and> owned h c = {}"
    and drain: "inv h c \<Longrightarrow> \<exists>h' c'. (\<lambda>s t. \<exists>n. step s n t)\<^sup>*\<^sup>* (h, c) (h', c') \<and> idle c'"
begin

text \<open>Every block of the component has one owner.\<close>

lemma owner:
  assumes "inv h c"
  shows "p \<in> owned h c \<longleftrightarrow> (\<exists>!n. p \<in> part h c n)"
  using part_unique [OF assms] unfolding part_owned by blast

text \<open>A run of the component alone.\<close>

lemma run_inv:
  "(\<lambda>s t. \<exists>n. step s n t)\<^sup>*\<^sup>* (h, c) (h', c') \<Longrightarrow> inv h c \<Longrightarrow> inv h' c'"
  by (induction rule: rtranclp_induct2) (use step_inv in blast)+

text \<open>When the heap holds nothing but what the component owns, this stays so; and everything can be
  given back.\<close>

lemma run_exact:
  "(\<lambda>s t. \<exists>n. step s n t)\<^sup>*\<^sup>* (h, c) (h', c') \<Longrightarrow> inv h c \<Longrightarrow> dom (heap_live h) = owned h c \<Longrightarrow>
   dom (heap_live h') = owned h' c'"
proof (induction rule: rtranclp_induct2)
  case (step h1 c1 h2 c2)
  from step.hyps(2) obtain n where n: "step (h1, c1) n (h2, c2)" by blast
  note inv = run_inv [OF step.hyps(1) step.prems(1)]
  from effect_exact [OF step_effect [OF n inv]] step show ?case by blast
qed

lemma all_returned:
  assumes "inv h c" and "dom (heap_live h) = owned h c"
  obtains h' c' where "(\<lambda>s t. \<exists>n. step s n t)\<^sup>*\<^sup>* (h, c) (h', c')" and "idle c'" and "inv h' c'" and "heap_live h' = Map.empty"
proof -
  from drain [OF assms(1)] obtain h' c' where r: "(\<lambda>s t. \<exists>n. step s n t)\<^sup>*\<^sup>* (h, c) (h', c')" "idle c'" by blast
  note inv = run_inv [OF r(1) assms(1)]
  have "dom (heap_live h') = {}" using run_exact [OF r(1) assms] idle_inv [OF r(2) inv_heap [OF inv]] by simp
  with r inv show thesis by (intro that) auto
qed

end

section \<open>Two components\<close>

definition pair_inv ::
    "(heap_state \<Rightarrow> 'c \<Rightarrow> bool) \<Rightarrow> (heap_state \<Rightarrow> 'c \<Rightarrow> addr set) \<Rightarrow> (heap_state \<Rightarrow> 'd \<Rightarrow> bool) \<Rightarrow>
     (heap_state \<Rightarrow> 'd \<Rightarrow> addr set) \<Rightarrow> heap_state \<Rightarrow> 'c \<times> 'd \<Rightarrow> bool" where
  "pair_inv inv1 owned1 inv2 owned2 h = (\<lambda>(c, d). inv1 h c \<and> inv2 h d \<and> owned1 h c \<inter> owned2 h d = {})"

definition pair_owned ::
    "(heap_state \<Rightarrow> 'c \<Rightarrow> addr set) \<Rightarrow> (heap_state \<Rightarrow> 'd \<Rightarrow> addr set) \<Rightarrow> heap_state \<Rightarrow> 'c \<times> 'd \<Rightarrow> addr set" where
  "pair_owned owned1 owned2 h = (\<lambda>(c, d). owned1 h c \<union> owned2 h d)"

definition pair_part ::
    "(heap_state \<Rightarrow> 'c \<Rightarrow> 'n \<Rightarrow> addr set) \<Rightarrow> (heap_state \<Rightarrow> 'd \<Rightarrow> 'm \<Rightarrow> addr set) \<Rightarrow> heap_state \<Rightarrow> 'c \<times> 'd \<Rightarrow>
     'n + 'm \<Rightarrow> addr set" where
  "pair_part part1 part2 h = (\<lambda>(c, d) x. case x of Inl n \<Rightarrow> part1 h c n | Inr m \<Rightarrow> part2 h d m)"

lemma pair_part_union: "(\<Union>x. pair_part part1 part2 h (c, d) x) = (\<Union>n. part1 h c n) \<union> (\<Union>m. part2 h d m)"
  by (rule set_eqI) (simp add: pair_part_def split_sum_ex)

definition pair_view ::
    "(heap_state \<Rightarrow> 'c \<Rightarrow> 'n \<Rightarrow> 'v option) \<Rightarrow> (heap_state \<Rightarrow> 'd \<Rightarrow> 'm \<Rightarrow> 'w option) \<Rightarrow> heap_state \<Rightarrow> 'c \<times> 'd \<Rightarrow>
     'n + 'm \<Rightarrow> ('v + 'w) option" where
  "pair_view view1 view2 h = (\<lambda>(c, d) x. case x of Inl n \<Rightarrow> map_option Inl (view1 h c n) | Inr m \<Rightarrow> map_option Inr (view2 h d m))"

inductive pair_step ::
    "(heap_state \<times> 'c \<Rightarrow> 'n \<Rightarrow> heap_state \<times> 'c \<Rightarrow> bool) \<Rightarrow> (heap_state \<times> 'd \<Rightarrow> 'm \<Rightarrow> heap_state \<times> 'd \<Rightarrow> bool) \<Rightarrow>
     heap_state \<times> 'c \<times> 'd \<Rightarrow> 'n + 'm \<Rightarrow> heap_state \<times> 'c \<times> 'd \<Rightarrow> bool" for step1 step2 where
  first: "step1 (h, c) n (h', c') \<Longrightarrow> pair_step step1 step2 (h, c, d) (Inl n) (h', c', d)"
| second: "step2 (h, d) m (h', d') \<Longrightarrow> pair_step step1 step2 (h, c, d) (Inr m) (h', c, d')"

inductive_cases pair_stepE: "pair_step step1 step2 (h, c, d) x (h', c', d')"

lemmas pair_step_cases = pair_stepE [consumes 1, case_names first second]

definition pair_idle :: "('c \<Rightarrow> bool) \<Rightarrow> ('d \<Rightarrow> bool) \<Rightarrow> 'c \<times> 'd \<Rightarrow> bool" where
  "pair_idle idle1 idle2 = (\<lambda>(c, d). idle1 c \<and> idle2 d)"

lemmas pair_simps = pair_inv_def pair_owned_def pair_part_def pair_view_def pair_idle_def

locale heap_users = one: heap_user inv1 owned1 part1 view1 step1 idle1 + two: heap_user inv2 owned2 part2 view2 step2 idle2
  for inv1 :: "heap_state \<Rightarrow> 'c \<Rightarrow> bool" and owned1 :: "heap_state \<Rightarrow> 'c \<Rightarrow> addr set"
    and part1 :: "heap_state \<Rightarrow> 'c \<Rightarrow> 'n \<Rightarrow> addr set" and view1 :: "heap_state \<Rightarrow> 'c \<Rightarrow> 'n \<Rightarrow> 'v option" and step1 and idle1
    and inv2 :: "heap_state \<Rightarrow> 'd \<Rightarrow> bool" and owned2 :: "heap_state \<Rightarrow> 'd \<Rightarrow> addr set"
    and part2 :: "heap_state \<Rightarrow> 'd \<Rightarrow> 'm \<Rightarrow> addr set" and view2 :: "heap_state \<Rightarrow> 'd \<Rightarrow> 'm \<Rightarrow> 'w option" and step2 and idle2
begin

text \<open>A step of one component: what the other one relies on, and the pair guarantees.\<close>

lemma first_step:
  assumes st: "step1 (h, c) n (h', c')" and c: "inv1 h c" and d: "inv2 h d" and apart: "owned1 h c \<inter> owned2 h d = {}"
  shows "inv1 h' c'" and "inv2 h' d" and "owned2 h' d = owned2 h d" and "view2 h' d = view2 h d"
    and "owned1 h' c' \<inter> owned2 h' d = {}" and "effect h (owned1 h c \<union> owned2 h d) h' (owned1 h' c' \<union> owned2 h' d)"
proof -
  note e = one.step_effect [OF st c] and fr = effect_frame [OF one.step_effect [OF st c] two.owned_live [OF d] apart]
  obtain W where W: "touches h h' W" "W \<inter> owned2 h d = {}" by (rule effect_touches [OF e two.owned_live [OF d] apart])
  note stable = two.stable [OF d W]
  then show "inv2 h' d" "owned2 h' d = owned2 h d" "view2 h' d = view2 h d" by blast+
  show "inv1 h' c'" by (rule one.step_inv [OF st c])
  show "owned1 h' c' \<inter> owned2 h' d = {}" "effect h (owned1 h c \<union> owned2 h d) h' (owned1 h' c' \<union> owned2 h' d)"
    using fr stable by simp_all
qed

lemma second_step:
  assumes st: "step2 (h, d) m (h', d')" and c: "inv1 h c" and d: "inv2 h d" and apart: "owned1 h c \<inter> owned2 h d = {}"
  shows "inv2 h' d'" and "inv1 h' c" and "owned1 h' c = owned1 h c" and "view1 h' c = view1 h c"
    and "owned1 h' c \<inter> owned2 h' d' = {}" and "effect h (owned1 h c \<union> owned2 h d) h' (owned1 h' c \<union> owned2 h' d')"
proof -
  have apart': "owned2 h d \<inter> owned1 h c = {}" using apart by blast
  note e = two.step_effect [OF st d] and fr = effect_frame [OF two.step_effect [OF st d] one.owned_live [OF c] apart']
  obtain W where W: "touches h h' W" "W \<inter> owned1 h c = {}" by (rule effect_touches [OF e one.owned_live [OF c] apart'])
  note stable = one.stable [OF c W]
  then show "inv1 h' c" "owned1 h' c = owned1 h c" "view1 h' c = view1 h c" by blast+
  show "inv2 h' d'" by (rule two.step_inv [OF st d])
  show "owned1 h' c \<inter> owned2 h' d' = {}" "effect h (owned1 h c \<union> owned2 h d) h' (owned1 h' c \<union> owned2 h' d')"
    using fr stable by (simp_all add: Int_commute Un_commute)
qed

text \<open>Runs of one component are runs of the pair.\<close>

lemma first_run:
  assumes "(\<lambda>s t. \<exists>n. step1 s n t)\<^sup>*\<^sup>* (h, c) (h', c')"
  shows "(\<lambda>s t. \<exists>x. pair_step step1 step2 s x t)\<^sup>*\<^sup>* (h, c, d) (h', c', d)"
  using assms by (induction rule: rtranclp_induct2) (auto intro: pair_step.first rtranclp.rtrancl_into_rtrancl)

lemma second_run:
  assumes "(\<lambda>s t. \<exists>n. step2 s n t)\<^sup>*\<^sup>* (h, d) (h', d')"
  shows "(\<lambda>s t. \<exists>x. pair_step step1 step2 s x t)\<^sup>*\<^sup>* (h, c, d) (h', c, d')"
  using assms by (induction rule: rtranclp_induct2) (auto intro: pair_step.second rtranclp.rtrancl_into_rtrancl)

lemma first_run_inv:
  assumes "(\<lambda>s t. \<exists>n. step1 s n t)\<^sup>*\<^sup>* (h, c) (h', c')" and "inv1 h c" and "inv2 h d" and "owned1 h c \<inter> owned2 h d = {}"
  shows "inv1 h' c' \<and> inv2 h' d \<and> owned1 h' c' \<inter> owned2 h' d = {}"
  using assms
proof (induction rule: rtranclp_induct2)
  case (step h1 c1 h2 c2)
  then obtain n where "step1 (h1, c1) n (h2, c2)" "inv1 h1 c1" "inv2 h1 d" "owned1 h1 c1 \<inter> owned2 h1 d = {}" by blast
  from first_step [OF this] show ?case by blast
qed blast

end

sublocale heap_users \<subseteq> pair: heap_user "pair_inv inv1 owned1 inv2 owned2" "pair_owned owned1 owned2"
    "pair_part part1 part2" "pair_view view1 view2" "pair_step step1 step2" "pair_idle idle1 idle2"
proof
  fix h h' :: heap_state and c c' :: "'c \<times> 'd" and n m :: "'n + 'm" and v W q
  obtain a b a' b' where p: "c = (a, b)" "c' = (a', b')" by (metis prod.exhaust)
  show "heap_inv h" if "pair_inv inv1 owned1 inv2 owned2 h c"
    using that one.inv_heap by (auto simp: pair_simps p)
  show "pair_owned owned1 owned2 h c \<subseteq> dom (heap_live h)" if "pair_inv inv1 owned1 inv2 owned2 h c"
    using that one.owned_live two.owned_live by (simp add: pair_simps p)
  show "pair_owned owned1 owned2 h c = (\<Union>n. pair_part part1 part2 h c n)"
    by (simp add: p pair_owned_def pair_part_union one.part_owned two.part_owned)
  show "n = m" if "pair_inv inv1 owned1 inv2 owned2 h c" "q \<in> pair_part part1 part2 h c n" "q \<in> pair_part part1 part2 h c m"
  proof -
    have i: "inv1 h a" "inv2 h b" and "owned1 h a \<inter> owned2 h b = {}" using that(1) by (simp_all add: pair_simps p)
    then have apart: "\<not> (q \<in> part1 h a i \<and> q \<in> part2 h b j)" for i j
      unfolding one.part_owned two.part_owned by blast
    show ?thesis using that(2,3) apart one.part_unique [OF i(1)] two.part_unique [OF i(2)]
      by (cases n; cases m) (auto simp: pair_simps p)
  qed
  show "pair_inv inv1 owned1 inv2 owned2 h' c \<and> pair_owned owned1 owned2 h' c = pair_owned owned1 owned2 h c
      \<and> pair_view view1 view2 h' c = pair_view view1 view2 h c"
    if "pair_inv inv1 owned1 inv2 owned2 h c" "touches h h' W" "W \<inter> pair_owned owned1 owned2 h c = {}"
  proof -
    have "W \<inter> owned1 h a = {}" "W \<inter> owned2 h b = {}" using that(3) by (auto simp: pair_simps p)
    with that(1,2) one.stable [of h a h' W] two.stable [of h b h' W] show ?thesis by (simp add: pair_simps p)
  qed
  show "pair_inv inv1 owned1 inv2 owned2 h' c'"
    if "pair_step step1 step2 (h, c) n (h', c')" "pair_inv inv1 owned1 inv2 owned2 h c"
    using that(1) [unfolded p]
  proof (cases rule: pair_step_cases)
    case (first i)
    with that(2) p first_step [of h a i h' a' b] show ?thesis by (simp add: pair_simps)
  next
    case (second j)
    with that(2) p second_step [of h b j h' b' a] show ?thesis by (simp add: pair_simps)
  qed
  show "effect h (pair_owned owned1 owned2 h c) h' (pair_owned owned1 owned2 h' c')"
    if "pair_step step1 step2 (h, c) n (h', c')" "pair_inv inv1 owned1 inv2 owned2 h c"
    using that(1) [unfolded p]
  proof (cases rule: pair_step_cases)
    case (first i)
    with that(2) p first_step(6) [of h a i h' a' b] show ?thesis by (simp add: pair_simps)
  next
    case (second j)
    with that(2) p second_step(6) [of h b j h' b' a] show ?thesis by (simp add: pair_simps)
  qed
  show "pair_view view1 view2 h' c' m = Some v"
    if "pair_step step1 step2 (h, c) n (h', c')" "pair_inv inv1 owned1 inv2 owned2 h c" "pair_view view1 view2 h c m = Some v" "m \<noteq> n"
    using that(1) [unfolded p]
  proof (cases rule: pair_step_cases)
    case (first i)
    with that(2-4) p first_step(4) [of h a i h' a' b] one.step_view [of h a i h' a']
    show ?thesis by (cases m) (auto simp: pair_simps)
  next
    case (second j)
    with that(2-4) p second_step(4) [of h b j h' b' a] two.step_view [of h b j h' b']
    show ?thesis by (cases m) (auto simp: pair_simps)
  qed
  show "pair_inv inv1 owned1 inv2 owned2 h c \<and> pair_owned owned1 owned2 h c = {}" if "pair_idle idle1 idle2 c" "heap_inv h"
    using that one.idle_inv [of a h] two.idle_inv [of b h] by (simp add: pair_simps p)
  show "\<exists>h' c'. (\<lambda>s t. \<exists>n. pair_step step1 step2 s n t)\<^sup>*\<^sup>* (h, c) (h', c') \<and> pair_idle idle1 idle2 c'"
    if "pair_inv inv1 owned1 inv2 owned2 h c"
  proof -
    have i: "inv1 h a" "inv2 h b" "owned1 h a \<inter> owned2 h b = {}" using that by (simp_all add: pair_simps p)
    from one.drain [OF i(1)] obtain h1 a1 where d1: "(\<lambda>s t. \<exists>n. step1 s n t)\<^sup>*\<^sup>* (h, a) (h1, a1)" "idle1 a1" by blast
    from first_run_inv [OF d1(1) i] two.drain obtain h2 b2 where
      d2: "(\<lambda>s t. \<exists>n. step2 s n t)\<^sup>*\<^sup>* (h1, b) (h2, b2)" "idle2 b2" by blast
    from first_run [OF d1(1), of b] second_run [OF d2(1), of a1] d1(2) d2(2)
    show ?thesis unfolding p by (intro exI [of _ h2] exI [of _ "(a1, b2)"]) (auto simp: pair_simps)
  qed
qed

end
