(* ===== verification/Heap_Population.thy ===== *)
theory Heap_Population imports Heap_User begin

text \<open>
  Finite populations of heap objects as components of the system: the steps that use a member,
  add one, or remove one have the effect the contract \<open>heap_user\<close> asks for.
\<close>

section \<open>Populations\<close>

definition members ::
    "(heap_state \<Rightarrow> 'o \<Rightarrow> bool) \<Rightarrow> (memory \<Rightarrow> 'o \<Rightarrow> addr set) \<Rightarrow> heap_state \<Rightarrow> 'o set \<Rightarrow> bool" where
  "members ok owns h X \<longleftrightarrow> heap_inv h \<and> finite X \<and> population ok owns h X"

lemma members_ok: "members ok owns h X \<Longrightarrow> x \<in> X \<Longrightarrow> ok h x"
  by (simp add: members_def population_def)

lemma members_heap: "members ok owns h X \<Longrightarrow> heap_inv h"
  by (simp add: members_def)

lemma members_unique:
  "members ok owns h X \<Longrightarrow> x \<in> X \<Longrightarrow> y \<in> X \<Longrightarrow> p \<in> owns (mem h) x \<Longrightarrow> p \<in> owns (mem h) y \<Longrightarrow> x = y"
  unfolding members_def population_def by blast

lemma members_empty [simp]: "members ok owns h {} \<longleftrightarrow> heap_inv h"
  by (simp add: members_def population_def)

lemma blocks_of_empty [simp]: "blocks_of owns h {} = {}"
  by (simp add: blocks_of_def)

lemma blocks_of_insert: "blocks_of owns h (insert x X) = owns (mem h) x \<union> blocks_of owns h X"
  by (auto simp: blocks_of_def)

context heap_object begin

lemma members_owned: "members ok owns h X \<Longrightarrow> blocks_of owns h X \<subseteq> dom (heap_live h)"
  using population_live by (auto simp: members_def)

lemma members_stable:
  assumes "members ok owns h X" and "touches h h' W" and "W \<inter> blocks_of owns h X = {}"
  shows "members ok owns h' X" and "blocks_of owns h' X = blocks_of owns h X"
    and "\<forall>x\<in>X. view (mem h') x = view (mem h) x"
proof -
  have "block_same h h' p" if "p \<in> blocks_of owns h X" for p using touches_same [OF assms(2)] assms(3) that by blast
  note k = population_kept [OF _ touches_inv [OF assms(2)] this]
  have pop: "population ok owns h X" using assms(1) by (simp add: members_def)
  show "members ok owns h' X" using k(1) [OF pop] assms(1,2) by (simp add: members_def touches_inv)
  show "blocks_of owns h' X = blocks_of owns h X" by (rule k(2) [OF pop])
  show "\<forall>x\<in>X. view (mem h') x = view (mem h) x" using k(3) [OF pop] by blast
qed

lemma members_subset: "members ok owns h X \<Longrightarrow> Y \<subseteq> X \<Longrightarrow> members ok owns h Y"
  using population_subset by (auto simp: members_def intro: finite_subset)

lemma members_add:
  assumes "members ok owns h X" and "ok h z" and "owns (mem h) z \<inter> blocks_of owns h X = {}"
  shows "members ok owns h (insert z X)"
  using assms by (fastforce simp: members_def population_def blocks_of_def)

text \<open>An operation on the member \<open>y\<close>, which may turn it into \<open>z\<close>.\<close>

lemma members_replace:
  assumes mem: "members ok owns h X" and y: "y \<in> X" and t: "touches h h' (owns (mem h) y)"
    and ok: "ok h' z" and own: "owns (mem h') z = owns (mem h) y"
  shows "members ok owns h' (insert z (X - {y}))"
    and "effect h (blocks_of owns h X) h' (blocks_of owns h' (insert z (X - {y})))"
    and "\<forall>x\<in>X - {y}. view (mem h') x = view (mem h) x"
proof -
  have pop: "population ok owns h X" using mem by (simp add: members_def)
  note m = member_blocks [OF pop y]
  have "owns (mem h) y \<inter> blocks_of owns h (X - {y}) = {}" using m(2) by blast
  note st = members_stable [OF members_subset [OF mem, of "X - {y}"] t this]
  show "members ok owns h' (insert z (X - {y}))"
    by (rule members_add [OF st(1) ok]) (use st(2) m(2) own in blast)+
  show "\<forall>x\<in>X - {y}. view (mem h') x = view (mem h) x" using st(3) by blast
  have "blocks_of owns h' (insert z (X - {y})) = blocks_of owns h X"
    using st(2) m(1) own by (auto simp: blocks_of_insert)
  moreover have "effect h (blocks_of owns h X) h' (blocks_of owns h X)"
    by (rule effect_use [OF t]) (use m(1) own owns_live [OF ok] in auto)
  ultimately show "effect h (blocks_of owns h X) h' (blocks_of owns h' (insert z (X - {y})))" by simp
qed

lemma members_use:
  assumes "members ok owns h X" and "y \<in> X" and "touches h h' (owns (mem h) y)"
    and "ok h' y" and "owns (mem h') y = owns (mem h) y"
  shows "members ok owns h' X" and "effect h (blocks_of owns h X) h' (blocks_of owns h' X)"
    and "\<forall>x\<in>X. x \<noteq> y \<longrightarrow> view (mem h') x = view (mem h) x"
  using members_replace [OF assms] insert_Diff [OF assms(2)] by auto

text \<open>A new member in fresh blocks, and the end of one.\<close>

lemma members_insert:
  assumes mem: "members ok owns h X" and t: "touches h h' (owns (mem h') z)" and ok: "ok h' z"
    and new: "\<And>p. p \<in> owns (mem h') z \<Longrightarrow> heap_live h p = None"
  shows "members ok owns h' (insert z X)" and "effect h (blocks_of owns h X) h' (blocks_of owns h' (insert z X))"
    and "\<forall>x\<in>X. view (mem h') x = view (mem h) x"
proof -
  have apart: "owns (mem h') z \<inter> blocks_of owns h X = {}"
    using new members_owned [OF mem] by (intro equals0I) (auto simp: subset_iff domIff)
  note st = members_stable [OF mem t this]
  show "members ok owns h' (insert z X)" by (rule members_add [OF st(1) ok]) (use apart st(2) in blast)
  show "\<forall>x\<in>X. view (mem h') x = view (mem h) x" by (rule st(3))
  have "effect h (blocks_of owns h X) h' (blocks_of owns h X \<union> owns (mem h') z)"
    by (rule effect_take [OF t]) (use new owns_live [OF ok] in blast)
  then show "effect h (blocks_of owns h X) h' (blocks_of owns h' (insert z X))"
    using st(2) by (simp add: blocks_of_insert Un_commute)
qed

lemma members_remove:
  assumes mem: "members ok owns h X" and y: "y \<in> X" and t: "touches h h' (owns (mem h) y)"
    and dead: "\<And>p. p \<in> owns (mem h) y \<Longrightarrow> heap_live h' p = None"
  shows "members ok owns h' (X - {y})" and "effect h (blocks_of owns h X) h' (blocks_of owns h' (X - {y}))"
    and "\<forall>x\<in>X - {y}. view (mem h') x = view (mem h) x"
proof -
  have pop: "population ok owns h X" using mem by (simp add: members_def)
  note m = member_blocks [OF pop y]
  have "owns (mem h) y \<inter> blocks_of owns h (X - {y}) = {}" using m(2) by blast
  note st = members_stable [OF members_subset [OF mem, of "X - {y}"] t this]
  show "members ok owns h' (X - {y})" "\<forall>x\<in>X - {y}. view (mem h') x = view (mem h) x" using st(1,3) by blast+
  have "effect h (blocks_of owns h X) h' (blocks_of owns h X - owns (mem h) y)"
    by (rule effect_give [OF t]) (use m(1) dead in blast)+
  moreover have "blocks_of owns h X - owns (mem h) y = blocks_of owns h' (X - {y})" using st(2) m by blast
  ultimately show "effect h (blocks_of owns h X) h' (blocks_of owns h' (X - {y}))" by simp
qed

end

text \<open>A component that can always make progress towards holding nothing drains.\<close>

lemma drain_by:
  fixes load :: "'c \<Rightarrow> nat" and good :: "heap_state \<Rightarrow> 'c \<Rightarrow> bool"
  assumes "\<And>h c. good h c \<Longrightarrow> \<not> idle c \<Longrightarrow> \<exists>n h' c'. step (h, c) n (h', c') \<and> good h' c' \<and> load c' < load c"
    and "good h c"
  shows "\<exists>h' c'. (\<lambda>s t. \<exists>n. step s n t)\<^sup>*\<^sup>* (h, c) (h', c') \<and> idle c'"
  using assms(2)
proof (induction "load c" arbitrary: h c rule: less_induct)
  case less
  show ?case
  proof (cases "idle c")
    case False
    from assms(1) [OF less.prems False] obtain n h1 c1 where
      s: "step (h, c) n (h1, c1)" "good h1 c1" "load c1 < load c" by blast
    from less.hyps [OF s(3,2)] s(1) show ?thesis by (blast intro: converse_rtranclp_into_rtranclp)
  qed blast
qed

end
