(* ===== verification/Ipc_System.thy ===== *)
theory Ipc_System imports Ipc_Props Heap_Population begin

text \<open>
  The communication objects together, over one heap: semaphores, mutexes and message queues are
  created, used and destroyed in any order. \<open>object_step\<close> is one such operation, labelled with the
  object it is made on; the objects are a component of the system in the sense of \<open>heap_user\<close>
  (interpretation \<open>objects\<close>).
\<close>

section \<open>Objects\<close>

datatype ipc_object = SEMAPHORE addr | MUTEX addr | QUEUE addr

datatype ipc_view = COUNT u32 u32 | HELD "u32 option" | ITEMS "u8 list list" size_t size_t

fun obj_ok :: "heap_state \<Rightarrow> ipc_object \<Rightarrow> bool" where
  "obj_ok s (SEMAPHORE a) = sem_ok s a"
| "obj_ok s (MUTEX a) = mutex_ok s a"
| "obj_ok s (QUEUE q) = mq_ok s q"

fun obj_owns :: "memory \<Rightarrow> ipc_object \<Rightarrow> addr set" where
  "obj_owns m (SEMAPHORE a) = {a}"
| "obj_owns m (MUTEX a) = {a}"
| "obj_owns m (QUEUE q) = {q, mq_buffer m q}"

fun obj_view :: "memory \<Rightarrow> ipc_object \<Rightarrow> ipc_view" where
  "obj_view m (SEMAPHORE a) = COUNT (sem_count m a) (sem_max_count m a)"
| "obj_view m (MUTEX a) = HELD (mutex_view m a)"
| "obj_view m (QUEUE q) = ITEMS (mq_items m q) (mq_msg_size m q) (mq_max_msgs m q)"

fun obj_destroy :: "heap_state \<Rightarrow> ipc_object \<Rightarrow> heap_state option" where
  "obj_destroy s (SEMAPHORE a) = sem_destroy s a"
| "obj_destroy s (MUTEX a) = mutex_destroy s a"
| "obj_destroy s (QUEUE q) = mq_destroy s q"

interpretation ipc: heap_object obj_ok obj_owns obj_view
proof
  fix s s' :: heap_state and x p
  show "obj_ok s x \<Longrightarrow> p \<in> obj_owns (mem s) x \<Longrightarrow> heap_live s p \<noteq> None"
    using sem.owns_live mutex.owns_live queue.owns_live by (cases x) auto
  show "obj_ok s x \<Longrightarrow> heap_inv s' \<Longrightarrow> \<forall>p\<in>obj_owns (mem s) x. block_same s s' p \<Longrightarrow>
      obj_ok s' x \<and> obj_owns (mem s') x = obj_owns (mem s) x \<and> obj_view (mem s') x = obj_view (mem s) x"
    using sem.stable [of s _ s'] mutex.stable [of s _ s'] queue.stable [of s _ s'] by (cases x) auto
qed

section \<open>What the operations touch\<close>

lemma sem_create_touches:
  assumes "sem_create s i n = Some (s', a)" and "heap_inv s"
  shows "if a = NULL then s' = s
    else touches s s' {a} \<and> sem_ok s' a \<and> heap_live s a = None \<and> obj_view (mem s') (SEMAPHORE a) = COUNT i n"
proof -
  from assms(1) obtain s1 where r: "rtos_malloc s sizeof_semaphore = Some (s1, a)"
    and s': "a \<noteq> NULL \<Longrightarrow> s' = heap_store (\<lambda>m. set_sem_max_count a n (set_sem_count a i m)) s1" "a = NULL \<Longrightarrow> s' = s1"
    by (auto simp: sem_create_def split: Option.bind_splits prod.splits if_splits)
  show ?thesis
  proof (cases "a = NULL")
    case True
    with r s'(2) heap.malloc_null [of s sizeof_semaphore s1] assms(2) show ?thesis by simp
  next
    case False
    have "inside a (unat sizeof_semaphore) (\<lambda>m. set_sem_max_count a n (set_sem_count a i m))"
      by (rule inside_comp) (simp_all add: sizeof_semaphore_def inside_sem)
    from malloc_store [OF r assms(2) False _ this] s'(1) [OF False] obtain k where
      "touches s s' {a}" "heap_live s' = (heap_live s)(a \<mapsto> k)" "8 \<le> k" "heap_live s a = None"
      by (auto simp: sizeof_semaphore_def)
    with False s'(1) show ?thesis by (auto simp: sem_ok_def touches_inv)
  qed
qed

lemma mutex_create_touches:
  assumes "mutex_create s = Some (s', a)" and "heap_inv s"
  shows "if a = NULL then s' = s
    else touches s s' {a} \<and> mutex_ok s' a \<and> heap_live s a = None \<and> obj_view (mem s') (MUTEX a) = HELD None"
proof -
  from assms(1) obtain s1 where r: "rtos_malloc s sizeof_mutex = Some (s1, a)"
    and s': "a \<noteq> NULL \<Longrightarrow> s' = heap_store (set_mutex a False 0) s1" "a = NULL \<Longrightarrow> s' = s1"
    by (auto simp: mutex_create_def split: Option.bind_splits prod.splits if_splits)
  show ?thesis
  proof (cases "a = NULL")
    case True
    with r s'(2) heap.malloc_null [of s sizeof_mutex s1] assms(2) show ?thesis by simp
  next
    case False
    have "inside a (unat sizeof_mutex) (set_mutex a False 0)" by (auto simp: sizeof_mutex_def inside_def set_mutex_def frames)
    from malloc_store [OF r assms(2) False _ this] s'(1) [OF False] obtain k where
      "touches s s' {a}" "heap_live s' = (heap_live s)(a \<mapsto> k)" "8 \<le> k" "heap_live s a = None"
      by (auto simp: sizeof_mutex_def)
    with False s'(1) show ?thesis by (auto simp: mutex_ok_def touches_inv mutex_view_def)
  qed
qed

lemma obj_destroy_ok:
  assumes "obj_ok s x"
  obtains s' where "obj_destroy s x = Some s'" and "touches s s' (obj_owns (mem s) x)"
    and "\<forall>p\<in>obj_owns (mem s) x. heap_live s' p = None"
proof -
  have free: "\<exists>s'. rtos_free s a = Some s' \<and> touches s s' {a} \<and> heap_live s' a = None"
    if "heap_inv s" "heap_live s a = Some k" for a k
    using heap.free_live [OF that] free_touches [OF _ that] by fastforce
  show thesis
  proof (cases x)
    case (SEMAPHORE a)
    with assms free [of a] sem_ok_nonnull [of s a] that show ?thesis by (auto simp: sem_ok_def sem_destroy_def)
  next
    case (MUTEX a)
    with assms free [of a] mutex_ok_nonnull [of s a] that show ?thesis by (auto simp: mutex_ok_def mutex_destroy_def)
  next
    case (QUEUE q)
    with assms have "mq_ok s q" by simp
    then show ?thesis by (rule mq_destroy_outcome) (use QUEUE that in auto)
  qed
qed

text \<open>Using an object: only its blocks change, it stays well formed and keeps them.\<close>

definition obj_used :: "heap_state \<Rightarrow> ipc_object \<Rightarrow> heap_state \<Rightarrow> bool" where
  "obj_used s x s' \<longleftrightarrow> touches s s' (obj_owns (mem s) x) \<and> obj_ok s' x \<and> obj_owns (mem s') x = obj_owns (mem s) x"

lemma obj_unused: "obj_ok s x \<Longrightarrow> obj_used s x s"
  by (cases x) (auto simp: obj_used_def sem_ok_def mutex_ok_def mq_ok_def intro: touches_refl)

lemma sem_used: "sem_ok s a \<Longrightarrow> others_kept s s' {a} \<Longrightarrow> sem_ok s' a \<Longrightarrow> obj_used s (SEMAPHORE a) s'"
  by (simp add: obj_used_def others_kept_touches)

lemma sem_take_used: "sem_ok s a \<Longrightarrow> obj_used s (SEMAPHORE a) (fst (sem_take s a t))"
  by (rule sem_take_cases [of s a t]) (use obj_unused [of s "SEMAPHORE a"] in \<open>simp_all add: sem_used\<close>)

lemma sem_give_used: "sem_ok s a \<Longrightarrow> obj_used s (SEMAPHORE a) (fst (sem_give s a))"
  by (rule sem_give_cases [of s a]) (use obj_unused [of s "SEMAPHORE a"] in \<open>simp_all add: sem_used\<close>)

lemma mutex_store_used: "mutex_ok s a \<Longrightarrow> obj_used s (MUTEX a) (heap_store (set_mutex a l w) s)"
  using mutex_store by (simp add: obj_used_def others_kept_touches)

lemma mutex_used:
  assumes "mutex_ok s a"
  shows "obj_used s (MUTEX a) (fst (mutex_lock k s a t))" and "obj_used s (MUTEX a) (fst (mutex_unlock k s a))"
  using mutex_store_used [OF assms] obj_unused [of s "MUTEX a"] assms by (auto simp: mutex_lock_def mutex_unlock_def)

lemma mq_send_used:
  assumes "mq_ok s q"
  shows "obj_used s (QUEUE q) (fst (mq_send s q msg t))"
proof (cases "msg = NULL \<or> mq_max_msgs (mem s) q \<le> mq_count (mem s) q")
  case True
  with obj_unused [of s "QUEUE q"] assms show ?thesis by (auto simp: mq_send_def)
next
  case False
  with send_ok [OF assms, of msg t] obtain s' where
    "mq_send s q msg t = (s', RTOS_OK)" "mq_ok s' q" and o: "others_kept s s' {q, mq_buffer (mem s) q}"
    and b: "mq_buffer (mem s') q = mq_buffer (mem s) q"
    by (auto simp: word_le_nat_alt not_le)
  then show ?thesis by (auto simp: obj_used_def b others_kept_touches)
qed

lemma mq_receive_used:
  assumes "mq_ok s q" and "outside_heap s msg (unat (mq_msg_size (mem s) q))"
  shows "obj_used s (QUEUE q) (fst (mq_receive s q msg t))"
proof (cases "msg = NULL \<or> mq_count (mem s) q = 0")
  case True
  with obj_unused [of s "QUEUE q"] assms(1) show ?thesis by (auto simp: mq_receive_def)
next
  case False
  then have "0 < unat (mq_count (mem s) q)" by (simp add: unat_gt_0)
  from receive_ok [OF assms(1) this _ assms(2), of t] False obtain s' where
    "mq_receive s q msg t = (s', RTOS_OK)" "mq_ok s' q" and o: "others_kept s s' {q}"
    and b: "mq_buffer (mem s') q = mq_buffer (mem s) q" by auto
  moreover have "touches s s' {q, mq_buffer (mem s) q}" using others_kept_touches [OF o] by (auto simp: touches_def)
  ultimately show ?thesis by (simp add: obj_used_def)
qed

section \<open>The objects as a component\<close>

text \<open>One operation; the label is the object it is made on. Destroyed objects are not used again,
  and messages are received into a buffer outside the heap; these are the only rules clients keep.
  The kernel, which tells a mutex who calls, may be in any state.\<close>

inductive object_step :: "heap_state \<times> ipc_object set \<Rightarrow> ipc_object \<Rightarrow> heap_state \<times> ipc_object set \<Rightarrow> bool" where
  sem_created: "sem_create h i n = Some (h', a) \<Longrightarrow>
    object_step (h, X) (SEMAPHORE a) (h', if a = NULL then X else insert (SEMAPHORE a) X)"
| mutex_created: "mutex_create h = Some (h', a) \<Longrightarrow>
    object_step (h, X) (MUTEX a) (h', if a = NULL then X else insert (MUTEX a) X)"
| queue_created: "mq_create h sz n = Some (h', q) \<Longrightarrow> unat sz * unat n \<le> 2 ^ 64 - 4 \<Longrightarrow>
    object_step (h, X) (QUEUE q) (h', if q = NULL then X else insert (QUEUE q) X)"
| taken: "SEMAPHORE a \<in> X \<Longrightarrow> object_step (h, X) (SEMAPHORE a) (fst (sem_take h a t), X)"
| given: "SEMAPHORE a \<in> X \<Longrightarrow> object_step (h, X) (SEMAPHORE a) (fst (sem_give h a), X)"
| locked: "MUTEX a \<in> X \<Longrightarrow> object_step (h, X) (MUTEX a) (fst (mutex_lock k h a t), X)"
| unlocked: "MUTEX a \<in> X \<Longrightarrow> object_step (h, X) (MUTEX a) (fst (mutex_unlock k h a), X)"
| sent: "QUEUE q \<in> X \<Longrightarrow> object_step (h, X) (QUEUE q) (fst (mq_send h q msg t), X)"
| received: "QUEUE q \<in> X \<Longrightarrow> outside_heap h msg (unat (mq_msg_size (mem h) q)) \<Longrightarrow>
    object_step (h, X) (QUEUE q) (fst (mq_receive h q msg t), X)"
| destroyed: "x \<in> X \<Longrightarrow> obj_destroy h x = Some h' \<Longrightarrow> object_step (h, X) x (h', X - {x})"

inductive_cases object_stepE: "object_step (h, X) x (h', X')"

lemmas object_step_cases = object_stepE
  [consumes 1, case_names sem_created mutex_created queue_created taken given locked unlocked sent received destroyed]

text \<open>The effect of a step on the population.\<close>

definition object_effect :: "heap_state \<Rightarrow> ipc_object set \<Rightarrow> ipc_object \<Rightarrow> heap_state \<Rightarrow> ipc_object set \<Rightarrow> bool" where
  "object_effect h X y h' X' \<longleftrightarrow> members obj_ok obj_owns h' X'
     \<and> effect h (blocks_of obj_owns h X) h' (blocks_of obj_owns h' X')
     \<and> (\<forall>x\<in>X. x \<noteq> y \<longrightarrow> x \<in> X' \<and> obj_view (mem h') x = obj_view (mem h) x)"

lemma used_effect:
  "members obj_ok obj_owns h X \<Longrightarrow> x \<in> X \<Longrightarrow> obj_used h x h' \<Longrightarrow> object_effect h X x h' X"
  using ipc.members_use [of h X x h'] by (simp add: object_effect_def obj_used_def)

lemma created_effect:
  assumes "members obj_ok obj_owns h X" and "touches h h' (obj_owns (mem h') x)" and "obj_ok h' x"
    and "\<forall>p\<in>obj_owns (mem h') x. heap_live h p = None"
  shows "object_effect h X x h' (insert x X)"
  using ipc.members_insert [OF assms(1-3)] assms(4) by (simp add: object_effect_def)

lemma unchanged_effect: "members obj_ok obj_owns h X \<Longrightarrow> touches h h' {} \<Longrightarrow> object_effect h X x h' X"
  using ipc.members_stable [of h X h' "{}"] by (simp add: object_effect_def effect_none)

lemma destroyed_effect:
  assumes "members obj_ok obj_owns h X" and "x \<in> X" and "obj_destroy h x = Some h'"
  shows "object_effect h X x h' (X - {x})"
proof -
  obtain h1 where "obj_destroy h x = Some h1" and h: "touches h h1 (obj_owns (mem h) x)"
    "\<forall>p\<in>obj_owns (mem h) x. heap_live h1 p = None"
    by (rule obj_destroy_ok [OF members_ok [OF assms(1,2)]])
  with ipc.members_remove [OF assms(1,2), of h1] assms(3) show ?thesis by (auto simp: object_effect_def)
qed

lemma object_step_ok:
  assumes st: "object_step (h, X) y (h', X')" and mem: "members obj_ok obj_owns h X"
  shows "object_effect h X y h' X'"
  using st
proof (cases rule: object_step_cases)
  case (sem_created i n a)
  from sem_create_touches [OF sem_created(3) members_heap [OF mem]] created_effect [OF mem, of h' "SEMAPHORE a"]
    unchanged_effect [OF mem touches_refl [OF members_heap [OF mem]]] sem_created(1,2)
  show ?thesis by (auto split: if_splits)
next
  case (mutex_created a)
  from mutex_create_touches [OF mutex_created(3) members_heap [OF mem]] created_effect [OF mem, of h' "MUTEX a"]
    unchanged_effect [OF mem touches_refl [OF members_heap [OF mem]]] mutex_created(1,2)
  show ?thesis by (auto split: if_splits)
next
  case (queue_created sz n q)
  have "unat sz * unat n \<le> 2 ^ 64 - 4" using queue_created(4) by simp
  from mq_create_outcome [OF members_heap [OF mem] this] queue_created(3)
  have "if q = NULL then touches h h' {}
     else mq_ok h' q \<and> touches h h' {q, mq_buffer (mem h') q}
        \<and> heap_live h q = None \<and> heap_live h (mq_buffer (mem h') q) = None" by (auto split: if_splits)
  then show ?thesis
    using unchanged_effect [OF mem, of h'] created_effect [OF mem, of h' "QUEUE q"] queue_created(1,2)
    by (auto split: if_splits)
qed (use used_effect [OF mem] members_ok [OF mem] destroyed_effect [OF mem] in
      \<open>force simp: sem_take_used sem_give_used mutex_used mq_send_used mq_receive_used\<close>)+

definition object_view :: "heap_state \<Rightarrow> ipc_object set \<Rightarrow> ipc_object \<Rightarrow> ipc_view option" where
  "object_view h X x = (if x \<in> X then Some (obj_view (mem h) x) else None)"

definition object_part :: "heap_state \<Rightarrow> ipc_object set \<Rightarrow> ipc_object \<Rightarrow> addr set" where
  "object_part h X x = (if x \<in> X then obj_owns (mem h) x else {})"

interpretation objects: heap_user "members obj_ok obj_owns" "blocks_of obj_owns" object_part object_view object_step "\<lambda>X. X = {}"
proof
  fix h h' :: heap_state and X X' :: "ipc_object set" and x y W v p
  show "members obj_ok obj_owns h X \<Longrightarrow> heap_inv h" by (rule members_heap)
  show "members obj_ok obj_owns h X \<Longrightarrow> blocks_of obj_owns h X \<subseteq> dom (heap_live h)" by (rule ipc.members_owned)
  show "blocks_of obj_owns h X = (\<Union>x. object_part h X x)" by (auto simp: blocks_of_def object_part_def split: if_splits)
  show "members obj_ok obj_owns h X \<Longrightarrow> p \<in> object_part h X x \<Longrightarrow> p \<in> object_part h X y \<Longrightarrow> x = y"
    using members_unique [of obj_ok obj_owns h X x y p] by (auto simp: object_part_def split: if_splits)
  show "members obj_ok obj_owns h X \<Longrightarrow> touches h h' W \<Longrightarrow> W \<inter> blocks_of obj_owns h X = {} \<Longrightarrow>
      members obj_ok obj_owns h' X \<and> blocks_of obj_owns h' X = blocks_of obj_owns h X \<and> object_view h' X = object_view h X"
    using ipc.members_stable [of h X h' W] by (auto simp: object_view_def)
  show "object_step (h, X) x (h', X') \<Longrightarrow> members obj_ok obj_owns h X \<Longrightarrow> members obj_ok obj_owns h' X'"
    and "object_step (h, X) x (h', X') \<Longrightarrow> members obj_ok obj_owns h X \<Longrightarrow>
      effect h (blocks_of obj_owns h X) h' (blocks_of obj_owns h' X')"
    and "object_step (h, X) x (h', X') \<Longrightarrow> members obj_ok obj_owns h X \<Longrightarrow> object_view h X y = Some v \<Longrightarrow> y \<noteq> x \<Longrightarrow>
      object_view h' X' y = Some v"
    using object_step_ok [of h X x h' X'] by (auto simp: object_effect_def object_view_def split: if_splits)
  show "X = {} \<Longrightarrow> heap_inv h \<Longrightarrow> members obj_ok obj_owns h X \<and> blocks_of obj_owns h X = {}" by simp
  show "\<exists>h' X'. (\<lambda>s t. \<exists>x. object_step s x t)\<^sup>*\<^sup>* (h, X) (h', X') \<and> X' = {}" if "members obj_ok obj_owns h X"
  proof (rule drain_by [where load = card and good = "members obj_ok obj_owns", OF _ that])
    fix h :: heap_state and X :: "ipc_object set"
    assume m: "members obj_ok obj_owns h X" and "X \<noteq> {}"
    then obtain x where x: "x \<in> X" by blast
    obtain h' where h': "obj_destroy h x = Some h'" by (rule obj_destroy_ok [OF members_ok [OF m x]])
    have "card (X - {x}) < card X" using x m by (intro card_Diff1_less) (auto simp: members_def)
    with object_step.destroyed [OF x h'] destroyed_effect [OF m x h'] show
      "\<exists>n h' X'. object_step (h, X) n (h', X') \<and> members obj_ok obj_owns h' X' \<and> card X' < card X"
      unfolding object_effect_def by blast
  qed
qed

end
