(* ===== verification/Demo_Props.thy ===== *)
theory Demo_Props imports Demo_App Heap_Stacked Ipc_System begin

text \<open>
  The program as a whole: from the state after loading, \<^verbatim>\<open>main\<close> of the demo application runs to its
  end, with every component in the state the others expect of it, and gives all memory back; its
  tasks, were they entered, would find null handles.
\<close>

section \<open>Devices\<close>

text \<open>Opening the port with its two buffers.\<close>

definition demo_config :: uart_config where
  "demo_config = \<lparr>baud_rate = UART_BAUD_115200, parity = UART_PARITY_NONE, stop_bits = UART_STOPBITS_1,
     data_bits = UART_DATABITS_8, enable_dma = False, enable_interrupts = True, rx_buffer_size = 256, tx_buffer_size = 256\<rparr>"

lemma demo_uart_opens:
  assumes s: "stacked (uheap u) [] b 65504" and closed: "\<not> uart_initialized (uart_instances u 0)"
  shows "\<exists>h port. uart_init u 0 (Some demo_config) = Some (upd_uart 0 (\<lambda>_. port) (u\<lparr>uheap := h\<rparr>), Some 0)
    \<and> stacked h [(b, 256, False), (b + 288, 256, False)] (b + 576) 64928
    \<and> uart_initialized port \<and> cb_buffer (rx_buffer port) = b + 32 \<and> cb_buffer (tx_buffer port) = b + 320"
proof -
  have "\<exists>h port. uart_init u 0 (Some demo_config) = Some (upd_uart 0 (\<lambda>_. port) (u\<lparr>uheap := h\<rparr>), Some 0)
    \<and> stacked h [(b, 256, False), (b + 32 + 256, 256, False)] (b + 64 + 2 * 256) (65504 - 64 - 2 * 256)
    \<and> uart_initialized port \<and> cb_buffer (rx_buffer port) = b + 32 \<and> cb_buffer (tx_buffer port) = b + 64 + 256
    \<and> unat (cb_size (tx_buffer port)) = 256 \<and> cb_count (tx_buffer port) = 0"
    by (rule uart_opens_stacked [OF s closed, where w = "256 :: u16"]) (simp_all add: demo_config_def)
  then show ?thesis by (auto simp: add.commute)
qed

text \<open>The world in which the devices are initialised.\<close>

definition demo_world :: "world \<Rightarrow> world" where
  "demo_world w = w\<lparr>
     driver_registry := (driver_registry (device_framework_init w))
       (0 := builtin_driver ''uart_driver'' DRIVER_UART_INIT, 1 := builtin_driver ''i2c_driver'' DRIVER_I2C_INIT,
        2 := builtin_driver ''spi_driver'' DRIVER_SPI_INIT), driver_count := 3,
     device_registry := (device_registry (device_framework_init w))(0 := uart_dev, 1 := i2c_dev, 2 := spi_dev),
     device_count := 3\<rparr>"

lemma builtin_world:
  "device_register_builtin_drivers (device_framework_init w) = (device_framework_init w)\<lparr>
     driver_registry := (driver_registry (device_framework_init w))
       (0 := builtin_driver ''uart_driver'' DRIVER_UART_INIT, 1 := builtin_driver ''i2c_driver'' DRIVER_I2C_INIT,
        2 := builtin_driver ''spi_driver'' DRIVER_SPI_INIT), driver_count := 3\<rparr>"
proof -
  have c: "driver_count (device_framework_init w) = 0" by (simp add: device_framework_init_def)
  show ?thesis
    unfolding device_register_builtin_drivers_def builtin_driver_def
    by (simp add: driver_register_def c MAX_DRIVERS_def Let_def)
qed

lemma demo_devices_world:
  "demo_devices w = map_option fst (device_init_all (call_init (\<lambda>_ _ _. None)) (demo_world w))"
proof -
  have c: "device_count (device_framework_init w) = 0" "uarts (device_framework_init w) = uarts w"
    by (simp_all add: device_framework_init_def)
  have "fst (device_register (fst (device_register (fst (device_register
      (device_register_builtin_drivers (device_framework_init w)) (Some uart_dev))) (Some i2c_dev))) (Some spi_dev)) = demo_world w"
    unfolding builtin_world demo_world_def
    by (simp add: device_register_def c MAX_DEVICES_def uart_dev_def i2c_dev_def spi_dev_def)
      (simp add: device_framework_init_def)
  then show ?thesis by (simp add: demo_devices_def Let_def)
qed

lemma demo_lookup:
  assumes "driver_registry v = driver_registry (demo_world w)" and "driver_count v = 3"
  shows "driver_lookup v (Some ''uart_driver'') = Some 0" "driver_lookup v (Some ''i2c_driver'') = Some 1"
    "driver_lookup v (Some ''spi_driver'') = Some 2"
    "drv_init (driver_registry v 0) = Some DRIVER_UART_INIT" "drv_init (driver_registry v 1) = Some DRIVER_I2C_INIT"
    "drv_init (driver_registry v 2) = Some DRIVER_SPI_INIT"
  by (simp_all add: driver_lookup_def assms demo_world_def builtin_driver_def)

lemma demo_order: "init_order (demo_world w) = [0, 1, 2]"
proof -
  have "[0..<3] = [0, 1, 2]" by (simp add: upt_rec)
  then show ?thesis by (simp add: init_order_def demo_world_def pending_def uart_dev_def i2c_dev_def spi_dev_def)
qed

text \<open>The three rounds.\<close>

definition opened_dev :: "device \<Rightarrow> handle_object \<Rightarrow> device" where
  "opened_dev d h = d\<lparr>driver_data := Some h, dev_initialized := True\<rparr>"

definition demo_opened :: "world \<Rightarrow> heap_state \<Rightarrow> uart_handle \<Rightarrow> world" where
  "demo_opened w h port = (demo_world w)\<lparr>
     device_registry := (device_registry (demo_world w))(0 := opened_dev uart_dev (UART_HANDLE 0),
       1 := opened_dev i2c_dev (I2C_HANDLE 0), 2 := opened_dev spi_dev (SPI_HANDLE 0)),
     uarts := upd_uart 0 (\<lambda>_. port) ((uarts w)\<lparr>uheap := h\<rparr>),
     i2cs := fst (i2c_init (i2cs w) 0 (Some \<lparr>i2c_speed = I2C_SPEED_FAST, i2c_addr_mode = I2C_ADDR_7BIT,
       i2c_enable_dma = False, i2c_timeout_ms = 100\<rparr>)),
     spis := fst (spi_init (spis w) 0 (Some \<lparr>spi_mode = SPI_MODE_0, spi_speed = SPI_SPEED_HIGH, spi_enable_dma = False\<rparr>))\<rparr>"

lemma demo_devices_open:
  assumes u: "uart_init (uarts w) 0 (Some demo_config) = Some (upd_uart 0 (\<lambda>_. port) ((uarts w)\<lparr>uheap := h\<rparr>), Some 0)"
  shows "demo_devices w = Some (demo_opened w h port)"
proof -
  let ?call = "call_init (\<lambda>_ _ _. None)"
  define w0 where "w0 = demo_world w"
  have reg: "device_registry w0 0 = uart_dev" "device_registry w0 1 = i2c_dev" "device_registry w0 2 = spi_dev"
    "uarts w0 = uarts w" "i2cs w0 = i2cs w" "spis w0 = spis w" "driver_count w0 = 3"
    by (simp_all add: w0_def demo_world_def)
  have lk: "driver_lookup v (Some ''uart_driver'') = Some 0" "driver_lookup v (Some ''i2c_driver'') = Some 1"
    "driver_lookup v (Some ''spi_driver'') = Some 2" "drv_init (driver_registry v 0) = Some DRIVER_UART_INIT"
    "drv_init (driver_registry v 1) = Some DRIVER_I2C_INIT" "drv_init (driver_registry v 2) = Some DRIVER_SPI_INIT"
    if "driver_registry v = driver_registry w0" "driver_count v = driver_count w0" for v
    using demo_lookup [of v w] that by (simp_all add: w0_def reg [unfolded w0_def])
  define w1 where "w1 = w0\<lparr>device_registry := (device_registry w0)(0 := opened_dev uart_dev (UART_HANDLE 0)),
    uarts := upd_uart 0 (\<lambda>_. port) ((uarts w)\<lparr>uheap := h\<rparr>)\<rparr>"
  define w2 where "w2 = w1\<lparr>device_registry := (device_registry w1)(1 := opened_dev i2c_dev (I2C_HANDLE 0)),
    i2cs := fst (i2c_init (i2cs w) 0 (Some \<lparr>i2c_speed = I2C_SPEED_FAST, i2c_addr_mode = I2C_ADDR_7BIT,
       i2c_enable_dma = False, i2c_timeout_ms = 100\<rparr>))\<rparr>"
  define w3 where "w3 = w2\<lparr>device_registry := (device_registry w2)(2 := opened_dev spi_dev (SPI_HANDLE 0)),
    spis := fst (spi_init (spis w) 0 (Some \<lparr>spi_mode = SPI_MODE_0, spi_speed = SPI_SPEED_HIGH, spi_enable_dma = False\<rparr>))\<rparr>"
  have "init_device ?call 0 w0 = Some (w1, None)"
    using u reg lk [of w0] by (simp add: w1_def init_device_def call_init_def driver_uart_init_def upd_device_def uart_dev_def
      demo_config_def opened_dev_def)
  moreover have "init_device ?call 1 w1 = Some (w2, None)"
    using reg lk [of w1] by (simp add: w2_def w1_def init_device_def call_init_def driver_i2c_init_def upd_device_def i2c_dev_def
      opened_dev_def i2c_init_def MAX_I2C_INSTANCES_def)
  moreover have "init_device ?call 2 w2 = Some (w3, None)"
    using reg lk [of w2] by (simp add: w3_def w2_def w1_def init_device_def call_init_def driver_spi_init_def upd_device_def spi_dev_def
      opened_dev_def spi_init_def MAX_SPI_INSTANCES_def)
  ultimately have "init_in_order ?call (init_order w0) w0 = Some w3" unfolding w0_def demo_order by (simp add: w0_def)
  moreover have "keeps_registry ?call" by (rule keeps_registry_builtin) (simp add: keeps_registry_def split: driver_fn.split)
  ultimately have "device_init_all ?call w0 = Some (w3, DEVICE_STATUS_OK)"
    using init_loop_order [of ?call w0 w3 0] init_order_length [of w0] by (simp add: device_init_all_def)
  moreover have "w3 = demo_opened w h port" by (simp add: w3_def w2_def w1_def w0_def demo_opened_def)
  ultimately show ?thesis by (simp add: demo_devices_world w0_def)
qed

lemma demo_handles_open: "demo_handles (demo_opened w h port) = Some (Some 0, Some 0, Some 0)"
proof -
  let ?w = "demo_opened w h port"
  have reg: "device_registry ?w 0 = opened_dev uart_dev (UART_HANDLE 0)" "device_registry ?w 1 = opened_dev i2c_dev (I2C_HANDLE 0)"
    "device_registry ?w 2 = opened_dev spi_dev (SPI_HANDLE 0)" "device_count ?w = 3"
    by (simp_all add: demo_opened_def demo_world_def)
  have names: "dev_name (opened_dev d x) = dev_name d" "driver_data (opened_dev d x) = Some x" for d x
    by (simp_all add: opened_dev_def)
  have "device_get_by_name ?w (Some ''uart_0'') = Some 0" "device_get_by_name ?w (Some ''i2c_0'') = Some 1"
    "device_get_by_name ?w (Some ''spi_0'') = Some 2"
    using reg reg(3) [unfolded numeral_2_eq_2]
    by (simp_all add: device_get_by_name_def names uart_dev_def i2c_dev_def spi_dev_def)
  then show ?thesis using reg by (simp add: demo_handles_def names)
qed

section \<open>The kernel\<close>

text \<open>Creating a task in the next of the slots used so far.\<close>

lemma create_next:
  fixes nm
  assumes "kernel_ok k qs" and "next_task_id k = of_nat (t + 1)" and "t < MAX_TASKS"
    and "\<forall>u<t. task_id (core k u) \<noteq> 0 \<and> tstate (core k u) \<noteq> TASK_STATE_DELETED" and "task_id (core k t) = 0"
    and "f \<noteq> NULL" and "unat prio < NUM_PRIORITY_LEVELS"
  defines "b \<equiv> new_tcb f nm prio NULL (of_nat (t + 1))"
  shows "\<exists>k' r i. task_create f nm prio NULL k = Some (k', r, i) \<and> kernel_ok k' (qs(unat prio := qs (unat prio) @ [t]))
    \<and> core k' = (core k)(t := b) \<and> next_task_id k' = of_nat (t + 2)"
proof -
  have slot: "find_free_slot k = Some t" using assms(3-5) by (auto simp: find_free_slot_def find_upt_Some)
  have small: "unat (of_nat (t + 1) :: u32) = t + 1"
    unfolding unsigned_of_nat of_nat_id using assms(3) by (intro take_bit_nat_eq_self) (simp add: MAX_TASKS_def)
  have "unat (next_task_id k) + 1 < 2 ^ 32" unfolding assms(2) small using assms(3) by (simp add: MAX_TASKS_def)
  from create_ok [OF assms(1) this assms(6,7) slot, of nm NULL] show ?thesis
    by (auto simp: assms(2) b_def enqueue_def)
qed

lemma start_runs:
  assumes ok: "kernel_ok k qs" and idle: "current_tcb k = None" and n: "front qs = Some n"
  shows "\<exists>k'. scheduler_start k = Some k' \<and> kernel_ok k' (dequeue (core k) n qs)
    \<and> core k' = set_state TASK_STATE_RUNNING n (core k) \<and> current_tcb k' = Some n"
proof -
  define k1 where "k1 = k\<lparr>scheduler_running := True\<rparr>"
  have lk: "linked k1 qs" by (rule linked_cong [OF kernel_okD(1) [OF ok]]) (simp_all add: k1_def)
  have core1: "core k1 = core k" by (simp add: k1_def core_def fun_eq_iff)
  have "kernel_ok k1 qs" using ok lk core1 by (simp add: kernel_ok_def k1_def)
  from yield_ok [OF this] idle n show ?thesis
    by (auto simp: scheduler_start_def scheduler_yield_def k1_def spec_yield_def spec_schedule_def spec_rotate_def
      core1 [unfolded k1_def])
qed

text \<open>Ticks while no task is current or the most urgent one is: they count, and no task notices.\<close>

definition settled :: "queues \<Rightarrow> kernel \<Rightarrow> bool" where
  "settled qs k \<longleftrightarrow> kernel_ok k qs
     \<and> (\<forall>c h. current_tcb k = Some c \<longrightarrow> front qs = Some h \<longrightarrow> \<not> priority (core k h) < priority (core k c))"

definition same_tasks :: "queues \<Rightarrow> kernel \<Rightarrow> kernel \<Rightarrow> bool" where
  "same_tasks qs k k' \<longleftrightarrow> settled qs k' \<and> core k' = core k \<and> current_tcb k' = current_tcb k"

lemma same_tasks_refl: "settled qs k \<Longrightarrow> same_tasks qs k k"
  by (simp add: same_tasks_def)

lemma same_tasks_trans: "same_tasks qs k k1 \<Longrightarrow> same_tasks qs k1 k2 \<Longrightarrow> same_tasks qs k k2"
  by (simp add: same_tasks_def)

lemma tick_settled:
  assumes "settled qs k"
  shows "\<exists>k'. scheduler_tick k = Some k' \<and> same_tasks qs k k'"
proof -
  have ok: "kernel_ok k qs" using assms by (simp add: settled_def)
  define k1 where "k1 = k\<lparr>system_tick_count := system_tick_count k + 1\<rparr>"
  have "scheduler_tick k = Some k1" using tick_ok(1) [OF ok] assms by (auto simp: settled_def k1_def)
  moreover have "kernel_ok k1 qs" "core k1 = core k" using tick_ok(2,3) [OF ok] by (simp_all add: k1_def)
  moreover have "current_tcb k1 = current_tcb k" by (simp add: k1_def)
  ultimately show ?thesis using assms by (simp add: same_tasks_def settled_def del: core_simps)
qed

lemma thread_settled:
  "settled qs (kern s) \<Longrightarrow> \<exists>s'. systick_thread_func n s = Some s' \<and> same_tasks qs (kern s) (kern s')"
proof (induction n arbitrary: s)
  case (Suc n)
  from tick_settled [OF Suc.prems] obtain k where k: "scheduler_tick (kern s) = Some k" "same_tasks qs (kern s) k" by blast
  define s1 where "s1 = s\<lparr>hal_tick_count := hal_tick_count s + 1, kern := k\<rparr>"
  have "settled qs (kern s1)" using k(2) by (simp add: s1_def same_tasks_def)
  from Suc.IH [OF this] obtain s' where "systick_thread_func n s1 = Some s'" "same_tasks qs k (kern s')" by (auto simp: s1_def)
  with k same_tasks_trans [OF k(2)] same_tasks_refl [OF Suc.prems] show ?case by (auto simp: s1_def Let_def)
qed (simp add: same_tasks_refl)

lemma interrupts_settled:
  "settled qs (kern s) \<Longrightarrow> \<exists>s'. sys_ticks n s = Some s' \<and> same_tasks qs (kern s) (kern s')"
proof (induction n arbitrary: s)
  case (Suc n)
  from tick_settled [OF Suc.prems] obtain k where k: "scheduler_tick (kern s) = Some k" "same_tasks qs (kern s) k" by blast
  define s1 where "s1 = s\<lparr>hal_tick_count := hal_tick_count s + 1, kern := k\<rparr>"
  have "settled qs (kern s1)" using k(2) by (simp add: s1_def same_tasks_def)
  from Suc.IH [OF this] obtain s' where "sys_ticks n s1 = Some s'" "same_tasks qs k (kern s')" by (auto simp: s1_def)
  with k same_tasks_trans [OF k(2)] show ?case by (auto simp: s1_def sys_tick_handler_def Let_def)
qed (simp add: same_tasks_refl)

lemma demo_ticks_settled:
  assumes "settled qs (kern_of d)"
  obtains hw where "demo_ticks t n d = Some (d\<lparr>hardware := hw\<rparr>)" and "same_tasks qs (kern_of d) (kern hw)"
proof -
  have s: "settled qs (kern (hardware d))" using assms by (simp add: kern_of_def)
  obtain hw1 where hw1: "systick_thread_func n (hardware d) = Some hw1" "same_tasks qs (kern_of d) (kern hw1)"
    using thread_settled [OF s, of n] by (auto simp: kern_of_def)
  obtain hw2 where hw2: "sys_ticks n (hardware d) = Some hw2" "same_tasks qs (kern_of d) (kern hw2)"
    using interrupts_settled [OF s, of n] by (auto simp: kern_of_def)
  have id: "same_tasks qs (kern_of d) (kern (hardware d))" using same_tasks_refl [OF s] by (simp add: kern_of_def)
  have "demo_ticks t n d = Some (d\<lparr>hardware := hw1\<rparr>) \<or> demo_ticks t n d = Some (d\<lparr>hardware := hw2\<rparr>)
      \<or> demo_ticks t n d = Some (d\<lparr>hardware := hardware d\<rparr>)"
    by (cases t) (simp_all add: demo_ticks_def hw1(1) hw2(1))
  with that hw1(2) hw2(2) id show thesis by blast
qed

definition demo_queues :: queues where
  "demo_queues = (\<lambda>_. [])(24 := [0], 16 := [1], 8 := [2])"

lemma demo_tasks_created:
  assumes "led \<noteq> NULL" and "comm \<noteq> NULL" and "sensor \<noteq> NULL"
  shows "\<exists>k. demo_tasks led comm sensor (kernel_boot k0) = Some k \<and> kernel_ok k demo_queues \<and> current_tcb k = None
    \<and> (\<forall>t<3. tstate (core k t) = TASK_STATE_READY \<and> unat (task_id (core k t)) = t + 1)
    \<and> priority (core k 0) = 24 \<and> priority (core k 1) = 16 \<and> priority (core k 2) = 8"
proof -
  let ?nm = "\<lambda>s. Some (literal s)"
  have z: "core (kernel_boot k0) t = zero_tcb" for t by (rule boot_core)
  have id0: "next_task_id (kernel_boot k0) = of_nat (0 + 1)" by (simp add: kernel_boot_def scheduler_init_def task_init_def)
  obtain k1 r1 i1 where k1: "task_create led (?nm ''LED_Blink'') TASK_PRIORITY_LOW NULL (kernel_boot k0) = Some (k1, r1, i1)"
    "kernel_ok k1 ((\<lambda>_. [])(24 := [0]))" "next_task_id k1 = of_nat (0 + 2)"
    "core k1 = (core (kernel_boot k0))(0 := new_tcb led (?nm ''LED_Blink'') TASK_PRIORITY_LOW NULL (of_nat (0 + 1)))"
    using create_next [OF boot_ok id0, of led TASK_PRIORITY_LOW "?nm ''LED_Blink''"] assms(1) z
    by (auto simp: TASK_PRIORITY_LOW_def MAX_TASKS_def NUM_PRIORITY_LEVELS_def zero_tcb_def simp del: core_simps)
  have id1: "next_task_id k1 = of_nat (1 + 1)" using k1(3) by simp
  obtain k2 r2 i2 where k2: "task_create comm (?nm ''UART_Comm'') TASK_PRIORITY_NORMAL NULL k1 = Some (k2, r2, i2)"
    "kernel_ok k2 ((\<lambda>_. [])(24 := [0], 16 := [1]))" "next_task_id k2 = of_nat (1 + 2)"
    "core k2 = (core k1)(1 := new_tcb comm (?nm ''UART_Comm'') TASK_PRIORITY_NORMAL NULL (of_nat (1 + 1)))"
    using create_next [OF k1(2) id1, of comm TASK_PRIORITY_NORMAL "?nm ''UART_Comm''"] assms(2) z k1(4)
    by (auto simp: TASK_PRIORITY_NORMAL_def MAX_TASKS_def NUM_PRIORITY_LEVELS_def zero_tcb_def simp del: core_simps)
  have id2: "next_task_id k2 = of_nat (2 + 1)" using k2(3) by simp
  obtain k3 r3 i3 where k3: "task_create sensor (?nm ''Sensor_Read'') TASK_PRIORITY_HIGH NULL k2 = Some (k3, r3, i3)"
    "kernel_ok k3 ((\<lambda>_. [])(24 := [0], 16 := [1], 8 := [2]))"
    "core k3 = (core k2)(2 := new_tcb sensor (?nm ''Sensor_Read'') TASK_PRIORITY_HIGH NULL (of_nat (2 + 1)))"
    using create_next [OF k2(2) id2, of sensor TASK_PRIORITY_HIGH "?nm ''Sensor_Read''"] assms(3) z k1(4) k2(4)
    by (auto simp: TASK_PRIORITY_HIGH_def MAX_TASKS_def NUM_PRIORITY_LEVELS_def zero_tcb_def less_2_cases_iff simp del: core_simps)
  have "current_tcb k3 = current_tcb (kernel_boot k0)"
    using create_current [OF k1(1)] create_current [OF k2(1)] create_current [OF k3(1)] by simp
  then have "current_tcb k3 = None" by (simp add: kernel_boot_def scheduler_init_def)
  moreover have "demo_tasks led comm sensor (kernel_boot k0) = Some k3" by (simp add: demo_tasks_def k1(1) k2(1) k3(1))
  moreover have c: "core k3 0 = new_tcb led (?nm ''LED_Blink'') TASK_PRIORITY_LOW NULL 1"
    "core k3 1 = new_tcb comm (?nm ''UART_Comm'') TASK_PRIORITY_NORMAL NULL 2"
    "core k3 2 = new_tcb sensor (?nm ''Sensor_Read'') TASK_PRIORITY_HIGH NULL 3"
    unfolding k3(3) k2(4) k1(4) by simp_all
  moreover have "\<forall>t<3. tstate (core k3 t) = TASK_STATE_READY \<and> unat (task_id (core k3 t)) = t + 1"
  proof (intro allI impI)
    fix t :: nat assume "t < 3"
    then consider "t = 0" | "t = 1" | "t = 2" by linarith
    then show "tstate (core k3 t) = TASK_STATE_READY \<and> unat (task_id (core k3 t)) = t + 1"
      by cases (simp_all only: c new_tcb_simps, simp_all)
  qed
  moreover have "priority (core k3 0) = 24" "priority (core k3 1) = 16" "priority (core k3 2) = 8"
    by (simp_all only: c new_tcb_simps TASK_PRIORITY_LOW_def TASK_PRIORITY_NORMAL_def TASK_PRIORITY_HIGH_def)
  ultimately show ?thesis using k3(2) unfolding demo_queues_def by blast
qed

lemma demo_front: "front demo_queues = Some 2"
  unfolding front_Some by (intro exI [of _ 8]) (auto simp: demo_queues_def NUM_PRIORITY_LEVELS_def)

section \<open>Giving everything back\<close>

lemma free_live:
  assumes "heap_inv s" and "heap_live s p = Some k"
  shows "\<exists>s'. rtos_free s p = Some s' \<and> heap_inv s' \<and> heap_live s' = (heap_live s)(p := None)" and "p \<noteq> NULL"
  using free_merges [OF assms] heap.live_range [OF assms] by auto

text \<open>The four blocks of the program, given back one after the other.\<close>

lemma four_frees:
  assumes inv: "heap_inv s" and live: "heap_live s = [p1 \<mapsto> k1, p2 \<mapsto> k2, p3 \<mapsto> k3, p4 \<mapsto> k4]" and distinct: "distinct [p1, p2, p3, p4]"
  obtains h1 h2 h3 h4 where "rtos_free s p1 = Some h1" "rtos_free h1 p2 = Some h2" "rtos_free h2 p3 = Some h3" "rtos_free h3 p4 = Some h4"
    and "p1 \<noteq> NULL" "p2 \<noteq> NULL" "p3 \<noteq> NULL" "p4 \<noteq> NULL" and "heap_inv h4" "heap_live h4 = Map.empty"
proof -
  from free_live [OF inv, of p1 k1] live distinct obtain h1 where
    h1: "rtos_free s p1 = Some h1" "heap_inv h1" "heap_live h1 = [p2 \<mapsto> k2, p3 \<mapsto> k3, p4 \<mapsto> k4]" "p1 \<noteq> NULL"
    by (auto simp: fun_upd_twist)
  from free_live [OF h1(2), of p2 k2] h1(3) distinct obtain h2 where
    h2: "rtos_free h1 p2 = Some h2" "heap_inv h2" "heap_live h2 = [p3 \<mapsto> k3, p4 \<mapsto> k4]" "p2 \<noteq> NULL"
    by (auto simp: fun_upd_twist)
  from free_live [OF h2(2), of p3 k3] h2(3) distinct obtain h3 where
    h3: "rtos_free h2 p3 = Some h3" "heap_inv h3" "heap_live h3 = [p4 \<mapsto> k4]" "p3 \<noteq> NULL"
    by (auto simp: fun_upd_twist)
  from free_live [OF h3(2), of p4 k4] h3(3) obtain h4 where
    h4: "rtos_free h3 p4 = Some h4" "heap_inv h4" "heap_live h4 = Map.empty" "p4 \<noteq> NULL" by auto
  show thesis by (rule that [OF h1(1) h2(1) h3(1) h4(1) h1(4) h2(4) h3(4) h4(4,2,3)])
qed

text \<open>One operation of the cleanup followed by ticks.\<close>

lemma op_ticks:
  assumes "settled qs k" and "kern_of d1 = k"
  obtains w where "demo_ticks t n d1 = Some (d1\<lparr>hardware := w\<rparr>)" and "settled qs (kern w)" and "same_tasks qs k (kern w)"
proof -
  have "settled qs (kern_of d1)" using assms by simp
  then obtain w where "demo_ticks t n d1 = Some (d1\<lparr>hardware := w\<rparr>)" "same_tasks qs (kern_of d1) (kern w)"
    by (rule demo_ticks_settled)
  with that assms(2) show thesis by (simp add: same_tasks_def)
qed

lemma demo_close_ok:
  assumes port: "uart_instances (uarts (devices d)) 0 = port" "uart_initialized port"
    and free: "rtos_free (heap_of d) (cb_buffer (rx_buffer port)) = Some h1" "rtos_free h1 (cb_buffer (tx_buffer port)) = Some h2"
    and ne: "cb_buffer (rx_buffer port) \<noteq> NULL" "cb_buffer (tx_buffer port) \<noteq> NULL"
    and quiet: "settled qs (kern_of d)"
  shows "\<exists>d'. demo_close t ticks (Some 0, Some 0, Some 0) d = Some d' \<and> heap_of d' = h2
    \<and> \<not> uart_ready (uarts (devices d')) (Some 0) \<and> \<not> i2c_ready (i2cs (devices d')) (Some 0) \<and> \<not> spi_ready (spis (devices d')) (Some 0)
    \<and> sensor_sem d' = sensor_sem d \<and> uart_mutex d' = uart_mutex d
    \<and> same_tasks qs (kern_of d) (kern_of d') \<and> uart0 d' = uart0 d \<and> i2c0 d' = i2c0 d"
proof -
  define d1 where "d1 = d\<lparr>devices := (devices d)\<lparr>spis := fst (spi_deinit (spis (devices d)) (Some 0))\<rparr>\<rparr>"
  have "kern_of d1 = kern_of d" by (simp add: d1_def kern_of_def)
  then obtain w1 where w1: "demo_ticks t (ticks 2) d1 = Some (d1\<lparr>hardware := w1\<rparr>)" "settled qs (kern w1)"
    "same_tasks qs (kern_of d) (kern w1)" by (rule op_ticks [OF quiet])
  define d2 where "d2 = d1\<lparr>hardware := w1\<rparr>"
  define d3 where "d3 = d2\<lparr>devices := (devices d2)\<lparr>i2cs := fst (i2c_deinit (i2cs (devices d2)) (Some 0))\<rparr>\<rparr>"
  have "kern_of d3 = kern w1" by (simp add: d3_def d2_def kern_of_def)
  then obtain w2 where w2: "demo_ticks t (ticks 3) d3 = Some (d3\<lparr>hardware := w2\<rparr>)" "settled qs (kern w2)"
    "same_tasks qs (kern w1) (kern w2)" by (rule op_ticks [OF w1(2)])
  define d4 where "d4 = d3\<lparr>hardware := w2\<rparr>"
  define us where "us = upd_uart 0 (\<lambda>h. h\<lparr>rx_buffer := (rx_buffer port)\<lparr>cb_buffer := NULL\<rparr>,
      tx_buffer := (tx_buffer port)\<lparr>cb_buffer := NULL\<rparr>, uart_initialized := False\<rparr>) ((uarts (devices d))\<lparr>uheap := h2\<rparr>)"
  have uarts4: "uarts (devices d4) = uarts (devices d)" by (simp add: d4_def d3_def d2_def d1_def)
  have u: "uart_deinit (uarts (devices d4)) (Some 0) = Some (us, RTOS_OK)"
    using port free ne unfolding uarts4 by (simp add: us_def uart_deinit_def uart_ready_def circ_buf_deinit_def heap_of_def)
  define d5 where "d5 = d4\<lparr>devices := (devices d4)\<lparr>uarts := us\<rparr>\<rparr>"
  have "kern_of d5 = kern w2" by (simp add: d5_def d4_def kern_of_def)
  then obtain w3 where w3: "demo_ticks t (ticks 4) d5 = Some (d5\<lparr>hardware := w3\<rparr>)" "settled qs (kern w3)"
    "same_tasks qs (kern w2) (kern w3)" by (rule op_ticks [OF w2(2)])
  define d' where "d' = d5\<lparr>hardware := w3\<rparr>"
  have run: "demo_close t ticks (Some 0, Some 0, Some 0) d = Some d'"
    by (simp only: demo_close_def prod.case Let_def Option.bind.bind_lunit d1_def [symmetric] w1(1) d2_def [symmetric]
      d3_def [symmetric] w2(1) d4_def [symmetric] u d5_def [symmetric] w3(1) d'_def [symmetric])
  note fields = d'_def d5_def d4_def d3_def d2_def d1_def us_def upd_uart_def
  have "\<not> uart_ready (uarts (devices d')) (Some 0)" "\<not> i2c_ready (i2cs (devices d')) (Some 0)" "\<not> spi_ready (spis (devices d')) (Some 0)"
    by (auto simp: fields uart_ready_def i2c_ready_def i2c_deinit_def spi_ready_def spi_deinit_def)
  moreover have "uart0 d' = uart0 d" "i2c0 d' = i2c0 d" "heap_of d' = h2" "kern_of d' = kern w3"
    "sensor_sem d' = sensor_sem d" "uart_mutex d' = uart_mutex d"
    by (simp_all add: fields heap_of_def kern_of_def)
  moreover have "same_tasks qs (kern_of d) (kern w3)" using w1(3) w2(3) w3(3) by (simp add: same_tasks_def)
  ultimately show ?thesis using run by (intro exI [of _ d']) simp
qed

lemma demo_destroy_ok:
  assumes free: "rtos_free (heap_of d) (sensor_sem d) = Some h1" "rtos_free h1 (uart_mutex d) = Some h2"
    and ne: "sensor_sem d \<noteq> NULL" "uart_mutex d \<noteq> NULL" and quiet: "settled qs (kern_of d)"
  shows "\<exists>w. demo_destroy t ticks d = Some ((set_heap h2 d)\<lparr>hardware := w\<rparr>) \<and> same_tasks qs (kern_of d) (kern w)"
proof -
  have "kern_of (set_heap h1 d) = kern_of d" by (simp add: set_heap_def kern_of_def)
  then obtain w1 where w1: "demo_ticks t (ticks 5) (set_heap h1 d) = Some ((set_heap h1 d)\<lparr>hardware := w1\<rparr>)" "settled qs (kern w1)"
    "same_tasks qs (kern_of d) (kern w1)" by (rule op_ticks [OF quiet])
  define d1 where "d1 = (set_heap h1 d)\<lparr>hardware := w1\<rparr>"
  have d1: "heap_of d1 = h1" "uart_mutex d1 = uart_mutex d" by (simp_all add: d1_def heap_of_def set_heap_def)
  have "kern_of (set_heap h2 d1) = kern w1" by (simp add: set_heap_def kern_of_def d1_def)
  then obtain w2 where w2: "demo_ticks t (ticks 6) (set_heap h2 d1) = Some ((set_heap h2 d1)\<lparr>hardware := w2\<rparr>)" "settled qs (kern w2)"
    "same_tasks qs (kern w1) (kern w2)" by (rule op_ticks [OF w1(2)])
  have "(set_heap h2 d1)\<lparr>hardware := w2\<rparr> = (set_heap h2 d)\<lparr>hardware := w2\<rparr>" by (simp add: d1_def set_heap_def)
  moreover have "demo_destroy t ticks d = Some ((set_heap h2 d1)\<lparr>hardware := w2\<rparr>)"
    using free ne d1 w1(1) w2(1) by (simp add: demo_destroy_def sem_destroy_def mutex_destroy_def flip: d1_def)
  ultimately show ?thesis using w1(3) w2(3) by (auto simp: same_tasks_def)
qed

text \<open>The cleanup of the three devices and the two objects, with ticks in between.\<close>

lemma demo_cleanup_ok:
  assumes inv: "heap_inv (heap_of d)"
    and live: "heap_live (heap_of d) = [cb_buffer (rx_buffer port) \<mapsto> k1, cb_buffer (tx_buffer port) \<mapsto> k2, sensor_sem d \<mapsto> k3, uart_mutex d \<mapsto> k4]"
    and distinct: "distinct [cb_buffer (rx_buffer port), cb_buffer (tx_buffer port), sensor_sem d, uart_mutex d]"
    and port: "uart_instances (uarts (devices d)) 0 = port" "uart_initialized port"
    and quiet: "settled qs (kern_of d)"
  shows "\<exists>d'. demo_cleanup t ticks (Some 0, Some 0, Some 0) d = Some d' \<and> heap_inv (heap_of d') \<and> heap_live (heap_of d') = Map.empty
    \<and> \<not> uart_ready (uarts (devices d')) (Some 0) \<and> \<not> i2c_ready (i2cs (devices d')) (Some 0) \<and> \<not> spi_ready (spis (devices d')) (Some 0)
    \<and> same_tasks qs (kern_of d) (kern_of d') \<and> uart0 d' = uart0 d \<and> i2c0 d' = i2c0 d"
proof -
  obtain h1 h2 h3 h4 where free: "rtos_free (heap_of d) (cb_buffer (rx_buffer port)) = Some h1"
      "rtos_free h1 (cb_buffer (tx_buffer port)) = Some h2" "rtos_free h2 (sensor_sem d) = Some h3" "rtos_free h3 (uart_mutex d) = Some h4"
    and ne: "cb_buffer (rx_buffer port) \<noteq> NULL" "cb_buffer (tx_buffer port) \<noteq> NULL" "sensor_sem d \<noteq> NULL" "uart_mutex d \<noteq> NULL"
    and h4: "heap_inv h4" "heap_live h4 = Map.empty"
    by (rule four_frees [OF inv live distinct])
  from demo_close_ok [OF port free(1,2) ne(1,2) quiet, of t ticks] obtain d1 where
    d1: "demo_close t ticks (Some 0, Some 0, Some 0) d = Some d1" "heap_of d1 = h2"
      "\<not> uart_ready (uarts (devices d1)) (Some 0)" "\<not> i2c_ready (i2cs (devices d1)) (Some 0)" "\<not> spi_ready (spis (devices d1)) (Some 0)"
      "sensor_sem d1 = sensor_sem d" "uart_mutex d1 = uart_mutex d"
      "same_tasks qs (kern_of d) (kern_of d1)" "uart0 d1 = uart0 d" "i2c0 d1 = i2c0 d" by blast
  have quiet1: "settled qs (kern_of d1)" using d1(8) by (simp add: same_tasks_def)
  from demo_destroy_ok [of d1 h3 h4, OF _ _ _ _ quiet1, of t ticks] free(3,4) ne(3,4) d1(2,6,7) obtain w where
    w: "demo_destroy t ticks d1 = Some ((set_heap h4 d1)\<lparr>hardware := w\<rparr>)" "same_tasks qs (kern_of d1) (kern w)" by auto
  define d' where "d' = (set_heap h4 d1)\<lparr>hardware := w\<rparr>"
  have "heap_of d' = h4" "kern_of d' = kern w" "uart0 d' = uart0 d1" "i2c0 d' = i2c0 d1"
    "i2cs (devices d') = i2cs (devices d1)" "spis (devices d') = spis (devices d1)"
    "uart_instances (uarts (devices d')) = uart_instances (uarts (devices d1))"
    by (simp_all add: d'_def set_heap_def heap_of_def kern_of_def)
  moreover have "demo_cleanup t ticks (Some 0, Some 0, Some 0) d = Some d'"
    by (simp add: demo_cleanup_def d1(1) w(1) d'_def)
  ultimately show ?thesis using d1(3-5,9,10) same_tasks_trans [OF d1(8) w(2)] h4
    by (intro exI [of _ d']) (simp add: uart_ready_def)
qed

section \<open>The whole program\<close>

lemma demo_ipc_ok:
  assumes "stacked (heap_of d) used a n" and "112 \<le> n"
  shows "\<exists>h. demo_ipc d = Some ((set_heap h d)\<lparr>sensor_sem := a + 32, uart_mutex := a + 72\<rparr>)
    \<and> stacked h (used @ [(a, 8, False), (a + 40, 8, False)]) (a + 80) (n - 80)
    \<and> sem_ok h (a + 32) \<and> sem_count (mem h) (a + 32) = 1 \<and> sem_max_count (mem h) (a + 32) = 1
    \<and> mutex_ok h (a + 72) \<and> holder h (a + 72) = None"
proof -
  have room: "72 \<le> n - 40" using assms(2) by simp
  obtain h1 where h1: "sem_create (heap_of d) 1 1 = Some (h1, a + 32)" "stacked h1 (used @ [(a, 8, False)]) (a + 40) (n - 40)"
    using sem_create_stacked [OF assms(1), of 1 1] assms(2) by auto
  obtain h2 where h2: "mutex_create h1 = Some (h2, a + 40 + 32)"
    "stacked h2 ((used @ [(a, 8, False)]) @ [(a + 40, 8, False)]) (a + 40 + 40) (n - 40 - 40)"
    using mutex_create_stacked [OF h1(2)] room by blast
  have sem: "sem_ok h1 (a + 32)" "sem_count (mem h1) (a + 32) = 1" "sem_max_count (mem h1) (a + 32) = 1"
    using sem_create_touches [OF h1(1) stacked_inv [OF assms(1)]] by auto
  have mutex: "touches h1 h2 {a + 40 + 32}" "mutex_ok h2 (a + 40 + 32)" "holder h2 (a + 40 + 32) = None"
    using mutex_create_touches [OF h2(1) stacked_inv [OF h1(2)]] by (auto simp: holder_view)
  have "block_same h1 h2 (a + 32)" by (rule touches_same [OF mutex(1)]) simp
  with sem_stable [OF sem(1) touches_inv [OF mutex(1)]] sem h1(1) h2 mutex(2,3) show ?thesis
    by (auto simp: demo_ipc_def add.commute)
qed

text \<open>From the loaded program up to the first task.\<close>

definition loaded :: "demo_state \<Rightarrow> bool" where
  "loaded d \<longleftrightarrow> fresh_heap (heap_of d) \<and> (\<forall>u. uart_instances (uarts (devices d)) u = zero_uart)
     \<and> (\<forall>i. i2cs (devices d) i = zero_i2c) \<and> (\<forall>i. spis (devices d) i = zero_spi)"

lemma demo_init_ok:
  assumes "loaded d"
  shows "stacked (heap_of (demo_init t d)) [] (heap_memory (heap_of d)) 65504"
    and "uart_instances (uarts (devices (demo_init t d))) u = zero_uart"
    and "kern_of (demo_init t d) = kernel_boot (kern_of d)"
    and "uart0 (demo_init t d) = uart0 d" and "i2c0 (demo_init t d) = i2c0 d"
  using assms memory_init_ok [of "heap_of d"]
  by (simp_all add: loaded_def demo_init_def heap_of_def set_heap_def set_kern_def kern_of_def stacked_def HEAP_SIZE_def
    kernel_boot_def hal_init_def Let_def split: target.split)

lemma hal_systick_kern:
  "ticks \<noteq> 0 \<Longrightarrow> \<exists>hw. hal_systick_init t created ticks s = Some hw \<and> kern hw = kern s"
  by (cases t) (simp_all add: hal_systick_init_def systick_reload_def Let_def)

text \<open>The kernel after the setup: three ready tasks, the third the most urgent, and none current.\<close>

definition demo_ready :: "kernel \<Rightarrow> bool" where
  "demo_ready k \<longleftrightarrow> kernel_ok k demo_queues \<and> current_tcb k = None
     \<and> (\<forall>t<3. tstate (core k t) = TASK_STATE_READY \<and> unat (task_id (core k t)) = t + 1)
     \<and> priority (core k 0) = 24 \<and> priority (core k 1) = 16 \<and> priority (core k 2) = 8"

lemma demo_ready_ticks: "demo_ready k \<Longrightarrow> same_tasks demo_queues k k' \<Longrightarrow> demo_ready k'"
  by (simp add: demo_ready_def same_tasks_def settled_def del: core_simps)

lemma demo_started:
  assumes "demo_ready k"
  shows "\<exists>k' qs. scheduler_start k = Some k' \<and> settled qs k'
    \<and> core k' = set_state TASK_STATE_RUNNING 2 (core k) \<and> current_tcb k' = Some 2"
proof -
  let ?qs = "dequeue (core k) 2 demo_queues"
  have ok: "kernel_ok k demo_queues" and idle: "current_tcb k = None"
    and prio: "priority (core k 1) = 16" "priority (core k 2) = 8"
    using assms unfolding demo_ready_def by blast+
  from start_runs [OF ok idle demo_front] obtain k1 where k1: "scheduler_start k = Some k1" "kernel_ok k1 ?qs"
    "core k1 = set_state TASK_STATE_RUNNING 2 (core k)" "current_tcb k1 = Some 2" by blast
  have qs: "?qs = (\<lambda>_. [])(24 := [0], 16 := [1])" unfolding dequeue_def prio(2) by (auto simp: demo_queues_def)
  have front: "front ?qs = Some 1"
    unfolding front_Some qs by (intro exI [of _ 16]) (auto simp: NUM_PRIORITY_LEVELS_def)
  have "priority (core k1 1) = 16" "priority (core k1 2) = 8" unfolding k1(3) set_state_simps using prio by blast+
  then have "settled ?qs k1" using k1(2,4) front by (simp add: settled_def)
  with k1 show ?thesis by blast
qed

text \<open>The state of the kernel at the end, when only ticks have passed since the start.\<close>

lemma demo_finished:
  assumes ready: "demo_ready k" and started: "core k1 = set_state TASK_STATE_RUNNING 2 (core k)" "current_tcb k1 = Some 2"
    and ticks: "same_tasks qs k1 k2"
  shows "kernel_inv k2 \<and> task_get_current_id k2 = 3
    \<and> (\<forall>t<3. tstate (task_pool k2 t) = (if t = 2 then TASK_STATE_RUNNING else TASK_STATE_READY))"
proof -
  have tasks: "\<forall>t<3. tstate (core k t) = TASK_STATE_READY \<and> unat (task_id (core k t)) = t + 1"
    using ready unfolding demo_ready_def by blast
  have ok: "kernel_ok k2 qs" "current_tcb k2 = Some 2" using ticks started(2) by (simp_all add: same_tasks_def settled_def)
  have c: "core k2 t = set_state TASK_STATE_RUNNING 2 (core k) t" for t using ticks started(1) by (simp add: same_tasks_def)
  have "tstate (task_pool k2 t) = (if t = 2 then TASK_STATE_RUNNING else TASK_STATE_READY)" if "t < 3" for t
    unfolding core_simps(1) [of k2, symmetric] c set_state_simps using tasks that by presburger
  moreover have "unat (task_id (core k 2)) = 2 + 1" using tasks by (metis lessI numeral_3_eq_3 numeral_2_eq_2)
  then have "unat (task_id (task_pool k2 2)) = 3"
    unfolding core_simps(3) [of k2, symmetric] c set_state_simps by linarith
  then have "task_id (task_pool k2 2) = 3" by (simp add: word_unat_eq_iff)
  ultimately show ?thesis
    using kernel_invI [OF ok(1)] kernel_okD(3) [OF ok(1)] ok(2) by (auto simp: task_get_current_id_def)
qed

text \<open>The setup: every device open, the objects created, the tasks ready.\<close>

lemma demo_opened_ready:
  fixes h t
  assumes "loaded d" and "uart_initialized port"
  defines "w \<equiv> demo_opened (devices (demo_init t d)) h port"
  shows "uart_ready (uarts w) (Some 0)" and "i2c_ready (i2cs w) (Some 0)" and "spi_ready (spis w) (Some 0)"
    and "device_count w = 3" and "\<forall>j<3. dev_initialized (device_registry w j)"
proof -
  have z: "i2cs (devices (demo_init t d)) 0 = zero_i2c" "spis (devices (demo_init t d)) 0 = zero_spi"
    using assms(1) by (simp_all add: loaded_def demo_init_def set_heap_def set_kern_def Let_def)
  show "uart_ready (uarts w) (Some 0)" using assms(2) by (simp add: w_def demo_opened_def uart_ready_def upd_uart_def)
  show "i2c_ready (i2cs w) (Some 0)" using z
    by (simp add: w_def demo_opened_def i2c_ready_def i2c_init_def MAX_I2C_INSTANCES_def zero_i2c_def)
  show "spi_ready (spis w) (Some 0)" using z
    by (simp add: w_def demo_opened_def spi_ready_def spi_init_def MAX_SPI_INSTANCES_def zero_spi_def)
  show "device_count w = 3" by (simp add: w_def demo_opened_def demo_world_def)
  show "\<forall>j<3. dev_initialized (device_registry w j)"
  proof (intro allI impI)
    fix j :: nat assume "j < 3"
    then consider "j = 0" | "j = 1" | "j = 2" by linarith
    then show "dev_initialized (device_registry w j)" by cases (simp_all add: w_def demo_opened_def opened_dev_def)
  qed
qed

lemma demo_setup_ok:
  assumes load: "loaded d" and funs: "led \<noteq> NULL" "comm \<noteq> NULL" "sensor \<noteq> NULL"
  shows "\<exists>d1 b port. demo_setup t created led comm sensor d = Some (d1, (Some 0, Some 0, Some 0))
    \<and> stacked (heap_of d1) [(b, 256, False), (b + 288, 256, False), (b + 576, 8, False), (b + 616, 8, False)] (b + 656) 64848
    \<and> uart_instances (uarts (devices d1)) 0 = port \<and> uart_initialized port
    \<and> cb_buffer (rx_buffer port) = b + 32 \<and> cb_buffer (tx_buffer port) = b + 320
    \<and> uart_ready (uarts (devices d1)) (Some 0) \<and> i2c_ready (i2cs (devices d1)) (Some 0) \<and> spi_ready (spis (devices d1)) (Some 0)
    \<and> device_count (devices d1) = 3 \<and> (\<forall>j<3. dev_initialized (device_registry (devices d1) j))
    \<and> sensor_sem d1 = b + 608 \<and> uart_mutex d1 = b + 648
    \<and> sem_ok (heap_of d1) (sensor_sem d1) \<and> sem_count (mem (heap_of d1)) (sensor_sem d1) = 1
    \<and> sem_max_count (mem (heap_of d1)) (sensor_sem d1) = 1
    \<and> mutex_ok (heap_of d1) (uart_mutex d1) \<and> holder (heap_of d1) (uart_mutex d1) = None
    \<and> demo_ready (kern_of d1) \<and> uart0 d1 = uart0 d \<and> i2c0 d1 = i2c0 d"
proof -
  define d1 where "d1 = demo_init t d"
  define b where "b = heap_memory (heap_of d)"
  note i = demo_init_ok [OF load, of t, folded d1_def b_def]
  obtain h port where u: "uart_init (uarts (devices d1)) 0 (Some demo_config) =
      Some (upd_uart 0 (\<lambda>_. port) ((uarts (devices d1))\<lparr>uheap := h\<rparr>), Some 0)"
    and h: "stacked h [(b, 256, False), (b + 288, 256, False)] (b + 576) 64928"
    and port: "uart_initialized port" "cb_buffer (rx_buffer port) = b + 32" "cb_buffer (tx_buffer port) = b + 320"
    using demo_uart_opens [of "uarts (devices d1)" b] i(1,2) by (auto simp: heap_of_def zero_uart_def)
  define w where "w = demo_opened (devices d1) h port"
  note opened = demo_opened_ready [OF load port(1), of t h, folded d1_def, folded w_def]
  have hw: "heap_of (d1\<lparr>devices := w\<rparr>) = h" by (simp add: heap_of_def w_def demo_opened_def upd_uart_def)
  from demo_ipc_ok [of "d1\<lparr>devices := w\<rparr>", unfolded hw, OF h] obtain h2 where
    ipc: "demo_ipc (d1\<lparr>devices := w\<rparr>) = Some ((set_heap h2 (d1\<lparr>devices := w\<rparr>))\<lparr>sensor_sem := b + 608, uart_mutex := b + 648\<rparr>)"
    "stacked h2 [(b, 256, False), (b + 288, 256, False), (b + 576, 8, False), (b + 616, 8, False)] (b + 656) 64848"
    "sem_ok h2 (b + 608)" "sem_count (mem h2) (b + 608) = 1" "sem_max_count (mem h2) (b + 608) = 1"
    "mutex_ok h2 (b + 648)" "holder h2 (b + 648) = None"
    by (auto simp: add.commute)
  define d2 where "d2 = (set_heap h2 (d1\<lparr>devices := w\<rparr>))\<lparr>sensor_sem := b + 608, uart_mutex := b + 648\<rparr>"
  have kern2: "kern_of d2 = kernel_boot (kern_of d)" using i(3) by (simp add: d2_def kern_of_def set_heap_def)
  from demo_tasks_created [OF funs, of "kern_of d"] obtain k1 where
    k1: "demo_tasks led comm sensor (kern_of d2) = Some k1" "demo_ready k1" unfolding kern2 demo_ready_def by blast
  obtain hw1 where hw1: "hal_systick_init t created 1000 (hardware (set_kern k1 d2)) = Some hw1" "kern hw1 = k1"
    using hal_systick_kern [of 1000 t created "hardware (set_kern k1 d2)"] by (auto simp: set_kern_def)
  define d3 where "d3 = d2\<lparr>hardware := hw1\<rparr>"
  have "demo_setup t created led comm sensor d = Some (d3, (Some 0, Some 0, Some 0))"
    using demo_devices_open [OF u] ipc(1) k1(1) hw1(1)
    by (simp add: demo_setup_def d1_def [symmetric] w_def [symmetric]
      demo_handles_open [of "devices d1" h port, folded w_def] d2_def [symmetric] d3_def [symmetric] Let_def)
  moreover have "heap_of d3 = h2" "kern_of d3 = k1" "sensor_sem d3 = b + 608" "uart_mutex d3 = b + 648"
    using hw1(2) by (simp_all add: d3_def d2_def heap_of_def kern_of_def set_heap_def)
  moreover have "uart_instances (uarts (devices d3)) 0 = port"
    by (simp add: d3_def d2_def set_heap_def w_def demo_opened_def upd_uart_def)
  moreover have "i2c_ready (i2cs (devices d3)) (Some 0)" "spi_ready (spis (devices d3)) (Some 0)" "device_count (devices d3) = 3"
    "\<forall>j<3. dev_initialized (device_registry (devices d3) j)" "uart_ready (uarts (devices d3)) (Some 0)"
    using opened by (simp_all add: d3_def d2_def set_heap_def uart_ready_def)
  moreover have "uart0 d3 = uart0 d" "i2c0 d3 = i2c0 d" using i(4,5) by (simp_all add: d3_def d2_def set_heap_def)
  ultimately show ?thesis using port ipc(2-7) k1(2) by (intro exI [of _ d3] exI [of _ b] exI [of _ port]) simp
qed

text \<open>From the setup to the end.\<close>

lemma demo_main_runs:
  assumes su: "demo_setup t created led comm sensor d = Some (d1, (Some 0, Some 0, Some 0))"
    and heap1: "stacked (heap_of d1) [(b, 256, False), (b + 288, 256, False), (b + 576, 8, False), (b + 616, 8, False)] (b + 656) 64848"
    and port: "uart_instances (uarts (devices d1)) 0 = port" "uart_initialized port" "cb_buffer (rx_buffer port) = b + 32"
      "cb_buffer (tx_buffer port) = b + 320"
    and objs: "sensor_sem d1 = b + 608" "uart_mutex d1 = b + 648" and ready: "demo_ready (kern_of d1)"
  shows "\<exists>d'. demo_main t created ticks led comm sensor d = Some (d', 0)
    \<and> heap_blocks (heap_of d') = [(heap_memory (heap_of d'), HEAP_SIZE - 32, True)]
    \<and> \<not> uart_ready (uarts (devices d')) (Some 0) \<and> \<not> i2c_ready (i2cs (devices d')) (Some 0) \<and> \<not> spi_ready (spis (devices d')) (Some 0)
    \<and> kernel_inv (kern_of d') \<and> task_get_current_id (kern_of d') = 3
    \<and> (\<forall>t<3. tstate (task_pool (kern_of d') t) = (if t = 2 then TASK_STATE_RUNNING else TASK_STATE_READY))
    \<and> uart0 d' = uart0 d1 \<and> i2c0 d' = i2c0 d1"
proof -
  have "settled demo_queues (kern_of d1)" using ready by (simp add: demo_ready_def settled_def)
  then obtain w0 where w0: "demo_ticks t (ticks 0) d1 = Some (d1\<lparr>hardware := w0\<rparr>)" "same_tasks demo_queues (kern_of d1) (kern w0)"
    by (rule demo_ticks_settled)
  note ready0 = demo_ready_ticks [OF ready w0(2)]
  from demo_started [OF ready0] obtain k qs where
    k: "scheduler_start (kern w0) = Some k" "settled qs k" "core k = set_state TASK_STATE_RUNNING 2 (core (kern w0))"
      "current_tcb k = Some 2" by blast
  define d2 where "d2 = set_kern k (d1\<lparr>hardware := w0\<rparr>)"
  have kern2: "kern_of d2 = k" "kern_of (d1\<lparr>hardware := w0\<rparr>) = kern w0" by (simp_all add: d2_def kern_of_def set_kern_def)
  obtain w1 where w1: "demo_ticks t (ticks 1) d2 = Some (d2\<lparr>hardware := w1\<rparr>)" "same_tasks qs k (kern w1)"
    using demo_ticks_settled [of qs d2 t "ticks 1"] k(2) unfolding kern2(1) by blast
  define d3 where "d3 = d2\<lparr>hardware := w1\<rparr>"
  have same3: "heap_of d3 = heap_of d1" "sensor_sem d3 = sensor_sem d1" "uart_mutex d3 = uart_mutex d1" "devices d3 = devices d1"
    "kern_of d3 = kern w1" "uart0 d3 = uart0 d1" "i2c0 d3 = i2c0 d1"
    by (simp_all add: d3_def d2_def heap_of_def set_kern_def kern_of_def)
  have live: "heap_live (heap_of d3) = [cb_buffer (rx_buffer port) \<mapsto> 256, cb_buffer (tx_buffer port) \<mapsto> 256,
      sensor_sem d3 \<mapsto> 8, uart_mutex d3 \<mapsto> 8]"
    unfolding same3 by (rule map_eqI) (auto simp: stacked_live [OF heap1] port objs)
  have quiet: "settled qs (kern_of d3)" using w1(2) by (simp add: same3 same_tasks_def)
  have inv: "heap_inv (heap_of d3)" using stacked_inv [OF heap1] by (simp add: same3)
  have inst: "uart_instances (uarts (devices d3)) 0 = port" by (simp add: same3 port(1))
  from demo_cleanup_ok [OF inv live _ inst port(2) quiet, of t ticks] obtain d' where
    c: "demo_cleanup t ticks (Some 0, Some 0, Some 0) d3 = Some d'" "heap_inv (heap_of d')" "heap_live (heap_of d') = Map.empty"
      "\<not> uart_ready (uarts (devices d')) (Some 0)" "\<not> i2c_ready (i2cs (devices d')) (Some 0)" "\<not> spi_ready (spis (devices d')) (Some 0)"
      "same_tasks qs (kern_of d3) (kern_of d')" "uart0 d' = uart0 d3" "i2c0 d' = i2c0 d3"
    using port(3,4) objs by (auto simp: same3)
  have "demo_main t created ticks led comm sensor d = Some (d', 0)"
    using su w0(1) k(1) w1(1) c(1)
    by (simp add: demo_main_def bootloader_verify_image_def fw_header_def FIRMWARE_MAGIC_def kern2(2) d2_def [symmetric] d3_def [symmetric])
  moreover have "same_tasks qs k (kern_of d')" using same_tasks_trans [OF w1(2)] c(7) by (simp add: same3)
  note fin = demo_finished [OF ready0 k(3,4) this]
  ultimately show ?thesis using c(4-6,8,9) fin empty_heap [OF c(2,3)] same3 by auto
qed

text \<open>C9: the demo application as a whole, from the state after loading, on both targets and however many
  ticks of the timer fall between its operations. Its setup initialises the three registered devices
  and finds a ready handle for each, and creates a free semaphore of count 1 and an unlocked mutex.
  Then \<^verbatim>\<open>main\<close> runs to its end and returns 0. The devices are closed again, the whole heap is one
  free block, and the kernel is well formed with the most urgent of the three tasks as the current one
  and the others ready. The static handles the tasks use are those of the start: \<^verbatim>\<open>main\<close> assigns
  variables of its own that hide them.\<close>

theorem demo_main_completes:
  assumes "loaded d" and "led \<noteq> NULL" and "comm \<noteq> NULL" and "sensor \<noteq> NULL"
  shows "\<exists>d1 d'. demo_setup t created led comm sensor d = Some (d1, (Some 0, Some 0, Some 0))
    \<and> device_count (devices d1) = 3 \<and> (\<forall>j<3. dev_initialized (device_registry (devices d1) j))
    \<and> uart_ready (uarts (devices d1)) (Some 0) \<and> i2c_ready (i2cs (devices d1)) (Some 0) \<and> spi_ready (spis (devices d1)) (Some 0)
    \<and> sem_ok (heap_of d1) (sensor_sem d1) \<and> sem_count (mem (heap_of d1)) (sensor_sem d1) = 1
    \<and> sem_max_count (mem (heap_of d1)) (sensor_sem d1) = 1
    \<and> mutex_ok (heap_of d1) (uart_mutex d1) \<and> holder (heap_of d1) (uart_mutex d1) = None
    \<and> demo_main t created ticks led comm sensor d = Some (d', 0)
    \<and> heap_blocks (heap_of d') = [(heap_memory (heap_of d'), HEAP_SIZE - 32, True)]
    \<and> \<not> uart_ready (uarts (devices d')) (Some 0) \<and> \<not> i2c_ready (i2cs (devices d')) (Some 0) \<and> \<not> spi_ready (spis (devices d')) (Some 0)
    \<and> kernel_inv (kern_of d') \<and> task_get_current_id (kern_of d') = 3
    \<and> (\<forall>t<3. tstate (task_pool (kern_of d') t) = (if t = 2 then TASK_STATE_RUNNING else TASK_STATE_READY))
    \<and> uart0 d' = uart0 d \<and> i2c0 d' = i2c0 d"
proof -
  obtain d1 b port where su: "demo_setup t created led comm sensor d = Some (d1, (Some 0, Some 0, Some 0))"
    and heap1: "stacked (heap_of d1) [(b, 256, False), (b + 288, 256, False), (b + 576, 8, False), (b + 616, 8, False)] (b + 656) 64848"
    and port: "uart_instances (uarts (devices d1)) 0 = port" "uart_initialized port" "cb_buffer (rx_buffer port) = b + 32"
      "cb_buffer (tx_buffer port) = b + 320"
    and open1: "device_count (devices d1) = 3 \<and> (\<forall>j<3. dev_initialized (device_registry (devices d1) j))
      \<and> uart_ready (uarts (devices d1)) (Some 0) \<and> i2c_ready (i2cs (devices d1)) (Some 0) \<and> spi_ready (spis (devices d1)) (Some 0)
      \<and> sem_ok (heap_of d1) (sensor_sem d1) \<and> sem_count (mem (heap_of d1)) (sensor_sem d1) = 1
      \<and> sem_max_count (mem (heap_of d1)) (sensor_sem d1) = 1
      \<and> mutex_ok (heap_of d1) (uart_mutex d1) \<and> holder (heap_of d1) (uart_mutex d1) = None"
    and objs: "sensor_sem d1 = b + 608" "uart_mutex d1 = b + 648"
    and ready: "demo_ready (kern_of d1)" and statics: "uart0 d1 = uart0 d" "i2c0 d1 = i2c0 d"
    using demo_setup_ok [OF assms, of t created] by blast
  from demo_main_runs [OF su heap1 port objs ready, of ticks] obtain d' where
    "demo_main t created ticks led comm sensor d = Some (d', 0)"
    "heap_blocks (heap_of d') = [(heap_memory (heap_of d'), HEAP_SIZE - 32, True)]"
    "\<not> uart_ready (uarts (devices d')) (Some 0)" "\<not> i2c_ready (i2cs (devices d')) (Some 0)" "\<not> spi_ready (spis (devices d')) (Some 0)"
    "kernel_inv (kern_of d')" "task_get_current_id (kern_of d') = 3"
    "\<forall>t<3. tstate (task_pool (kern_of d') t) = (if t = 2 then TASK_STATE_RUNNING else TASK_STATE_READY)"
    "uart0 d' = uart0 d1" "i2c0 d' = i2c0 d1" by blast
  with su open1 statics show ?thesis by (intro exI [of _ d1] exI [of _ d']) simp
qed

text \<open>The program as loaded: zeroed statics.\<close>

definition demo_loaded :: demo_state where
  "demo_loaded = \<lparr>devices = blank_world\<lparr>uarts := \<lparr>uheap = boot_heap, uart_instances = (\<lambda>_. zero_uart)\<rparr>\<rparr>,
     hardware = idle_hal, uart0 = None, i2c0 = None, sensor_sem = NULL, uart_mutex = NULL\<rparr>"

theorem demo_main_completes_witness:
  "\<exists>d'. demo_main TARGET_WINDOWS True (\<lambda>i. if i = 1 then 10000 else 1) 4096 8192 12288 demo_loaded = Some (d', 0)
     \<and> uart0 d' = None"
proof -
  have "loaded demo_loaded"
    using example_fresh by (simp add: loaded_def demo_loaded_def heap_of_def blank_world_def)
  from demo_main_completes [OF this, of 4096 8192 12288 TARGET_WINDOWS True "\<lambda>i. if i = 1 then 10000 else 1"] show ?thesis
    by (auto simp: demo_loaded_def)
qed

section \<open>The tasks\<close>

text \<open>With the static handles null, which they are, the communication task writes nothing and the sensor task
  opens no transfer, however long they run: they only lock, release and wait.\<close>

lemma rounds_keep:
  assumes "\<And>d d'. P d \<Longrightarrow> f d = Some d' \<Longrightarrow> P d' \<and> g d' = g d"
  shows "P d \<Longrightarrow> rounds f n d = Some d' \<Longrightarrow> g d' = g d"
proof (induction n arbitrary: d)
  case (Suc n)
  from Suc.prems(2) obtain d1 where d1: "f d = Some d1" "rounds f n d1 = Some d'" by (auto split: Option.bind_splits)
  from assms [OF Suc.prems(1) d1(1)] Suc.IH [OF _ d1(2)] show ?case by simp
qed simp

lemma demo_uart_mute:
  assumes "uart0 d = None" and "task_uart_comm call msg n d = Some d'"
  shows "uart_instances (uarts (devices d')) = uart_instances (uarts (devices d))"
proof (rule rounds_keep [of "\<lambda>d. uart0 d = None"])
  show "rounds (task_uart_comm_round call msg) n d = Some d'" using assms(2) by (simp add: task_uart_comm_def)
qed (use assms(1) in \<open>auto simp: task_uart_comm_round_def uart_write_def uart_ready_def set_heap_def set_kern_def Let_def
    split: prod.splits Option.bind_splits\<close>)

lemma demo_sensor_mute:
  assumes "i2c0 d = None" and "task_sensor_read frame buf n d = Some d'"
  shows "i2cs (devices d') = i2cs (devices d)"
proof (rule rounds_keep [of "\<lambda>d. i2c0 d = None"])
  show "rounds (task_sensor_read_round frame buf) n d = Some d'" using assms(2) by (simp add: task_sensor_read_def)
qed (use assms(1) in \<open>auto simp: task_sensor_read_round_def i2c_read_registers_def i2c_master_write_read_def i2c_ready_def set_heap_def
    set_kern_def heap_of_def Let_def split: prod.splits Option.bind_splits\<close>)

end
