(* ===== verification/Tick_Race.thy ===== *)
theory Tick_Race imports Kernel_Props begin

text \<open>
  Why the kernel needs its critical sections. \<open>RTOS_ENTER_CRITICAL\<close> and \<open>RTOS_EXIT_CRITICAL\<close>
  are empty macros (\<^verbatim>\<open>include/rtos_types.h\<close>), so a tick can come between the statements of
  \<^verbatim>\<open>scheduler_add_task\<close>. Here the function is split where its loop has found the tail of the
  queue: \<open>add_begin\<close> is the code before, \<open>add_end\<close> the write after. Run in one piece they are
  \<open>scheduler_add_task\<close>; with \<open>scheduler_tick\<close> between them a task can be lost.
\<close>

section \<open>The two halves\<close>

text \<open>What the interrupted function holds in its registers: nothing left to do, the empty queue to
  start, or the tail to link to.\<close>

datatype add_pc = ADD_DONE | ADD_HEAD nat nat | ADD_TAIL nat nat

definition add_begin :: "kernel \<Rightarrow> tcb_ptr \<Rightarrow> (kernel \<times> add_pc) option" where
  "add_begin k tcb =
     (case tcb of
        None \<Rightarrow> Some (k, ADD_DONE)
      | Some t \<Rightarrow>
          let p = unat (priority (task_pool k t)) in
          if NUM_PRIORITY_LEVELS \<le> p then Some (k, ADD_DONE)
          else let k1 = upd_tcb t (\<lambda>b. b\<lparr>tstate := TASK_STATE_READY, tnext := None\<rparr>) k in
            (case ready_lists k1 p of
               None \<Rightarrow> Some (k1, ADD_HEAD p t)
             | Some h \<Rightarrow> do { tail \<leftarrow> find_tail (task_pool k1) h; Some (k1, ADD_TAIL tail t) }))"

fun add_end :: "kernel \<Rightarrow> add_pc \<Rightarrow> kernel" where
  "add_end k ADD_DONE = k"
| "add_end k (ADD_HEAD p t) = k\<lparr>ready_lists := (ready_lists k)(p := Some t)\<rparr>"
| "add_end k (ADD_TAIL tail t) = upd_tcb tail (\<lambda>b. b\<lparr>tnext := Some t\<rparr>) k"

lemma add_task_halves: "scheduler_add_task k tcb = do { (k1, pc) \<leftarrow> add_begin k tcb; Some (add_end k1 pc) }"
  by (auto simp: scheduler_add_task_def add_begin_def Let_def split: option.splits Option.bind_splits)

section \<open>A tick in between\<close>

lemma enqueue_set_state:
  "enqueue (set_state st v c) u qs = enqueue c u qs" "dequeue (set_state st v c) u qs = dequeue c u qs"
  by (simp_all add: enqueue_def dequeue_def)

lemma front_enqueue:
  assumes "qs p = [x]" and "p < NUM_PRIORITY_LEVELS" and "\<forall>r<p. qs r = []" and "p < prio_of c u"
  shows "front (enqueue c u qs) = Some x"
  unfolding front_Some
  by (rule exI [of _ p]) (use assms in \<open>simp add: enqueue_def\<close>)

text \<open>Yielding to \<open>x\<close>, the only task of its queue and the most urgent one.\<close>

lemma spec_yield_to:
  assumes x: "qs p = [x]" "p < NUM_PRIORITY_LEVELS" "\<forall>r<p. qs r = []" "prio_of c x = p"
    and u: "tstate (c u) = TASK_STATE_RUNNING" "p < prio_of c u" "u \<notin> set (qs (prio_of c u))"
  shows "spec_yield (c, qs, Some u)
    = (set_state TASK_STATE_RUNNING x (set_state TASK_STATE_READY u c), (enqueue c u qs)(p := []), Some x)"
proof -
  let ?c = "set_state TASK_STATE_READY u c"
  have ne: "x \<noteq> u" using x(4) u(2) by auto
  have rot: "spec_rotate ?c (Some u) (enqueue c u qs) = enqueue c u qs"
    using u(3) by (simp add: spec_rotate_def enqueue_set_state) (simp add: enqueue_def dequeue_def remove1_append)
  have "dequeue ?c x (enqueue c u qs) = (enqueue c u qs)(p := [])"
    using x(1,4) u(2) by (simp add: dequeue_def enqueue_def fun_eq_iff)
  then show ?thesis
    using u(1) ne front_enqueue [of qs p x c u, OF x(1-3) u(2)] rot by (simp add: spec_yield_def spec_schedule_def)
qed

lemma linked_queues:
  assumes "linked k qs" and "p < NUM_PRIORITY_LEVELS" and "set (qs p) \<subseteq> {..<MAX_TASKS}"
  shows "queues k p = qs p"
proof -
  note l = linkedD [OF assms(1,2)]
  have "length (qs p) \<le> MAX_TASKS" using card_mono [OF _ assms(3)] distinct_card [OF l(2)] by simp
  with walk_tlist [OF l(1)] show ?thesis by (simp add: queues_def)
qed

lemma in_ready_queue:
  assumes "kernel_inv k" and "t < MAX_TASKS" and "task_id (task_pool k t) \<noteq> 0" and "tstate (task_pool k t) = TASK_STATE_READY"
  shows "t \<in> set (queues k (unat (priority (task_pool k t))))"
proof -
  note ok = kernel_okD(2) [OF assms(1) [unfolded kernel_inv_def]]
  have "unat (priority (task_pool k t)) < NUM_PRIORITY_LEVELS" using tasks_okD(2) [OF ok assms(2)] by (simp add: slot_ok_def)
  from in_queue [OF ok this, of t] assms(2-4) show ?thesis by (simp add: ready_set_def)
qed

text \<open>The state in which the tail has been found, and the tick there.\<close>

lemma add_begin_tail:
  assumes "linked k qs" and "qs p = [x]" and "p < NUM_PRIORITY_LEVELS" and "prio_of (task_pool k) t = p"
    and out: "\<And>q. q < NUM_PRIORITY_LEVELS \<Longrightarrow> t \<notin> set (qs q)"
  obtains k1 where "add_begin k (Some t) = Some (k1, ADD_TAIL x t)" and "linked k1 qs"
    and "core k1 = set_state TASK_STATE_READY t (core k)" and "same_rest k k1"
proof -
  define k1 where "k1 = upd_tcb t (\<lambda>b. b\<lparr>tstate := TASK_STATE_READY, tnext := None\<rparr>) k"
  have lk: "linked k1 qs" unfolding k1_def by (rule linked_unqueued [OF assms(1) out])
  from linkedD(1) [OF lk assms(3)] assms(2) have h: "ready_lists k1 p = Some x" "find_tail (task_pool k1) x = Some x"
    by (auto intro: tlist_find_tail [of _ _ "[]", simplified])
  show thesis
  proof (rule that [OF _ lk])
    show "add_begin k (Some t) = Some (k1, ADD_TAIL x t)" using h assms(3,4) by (simp add: add_begin_def flip: k1_def)
    show "core k1 = set_state TASK_STATE_READY t (core k)" by (auto simp: core_def k1_def set_state_def fun_eq_iff)
    show "same_rest k k1" by (simp add: k1_def)
  qed
qed

lemma tick_preempts:
  assumes lk: "linked k qs" and run: "scheduler_running k" and none: "delayed_list k = None" and u: "current_tcb k = Some u"
    and x: "qs p = [x]" "p < NUM_PRIORITY_LEVELS" "\<forall>r<p. qs r = []"
    and run_u: "tstate (core k u) = TASK_STATE_RUNNING" and prio: "p < prio_of (core k) u" "prio_of (core k) u < NUM_PRIORITY_LEVELS"
    and out: "\<forall>q<NUM_PRIORITY_LEVELS. u \<notin> set (qs q)"
  obtains k' where "scheduler_tick k = Some k'" and "linked k' ((enqueue (core k) u qs)(p := []))"
    and "core k' = set_state TASK_STATE_RUNNING x (set_state TASK_STATE_READY u (core k))" and "current_tcb k' = Some x"
proof -
  define k1 where "k1 = k\<lparr>system_tick_count := system_tick_count k + 1\<rparr>"
  have lk1: "linked k1 qs" by (rule linked_cong [OF lk]) (simp_all add: k1_def)
  have core1: "core k1 = core k" by (simp add: k1_def core_def fun_eq_iff)
  have "process_delayed_tasks k1 = Some k1" using none by (intro process_none) (simp add: k1_def)
  moreover have px: "prio_of (core k) x = p" using linkedD(3) [OF lk x(2), of x] x(1) by simp
  moreover have fr: "front qs = Some x" unfolding front_Some by (rule exI [of _ p]) (use x in simp)
  ultimately have tick: "scheduler_tick k = scheduler_yield k1"
    using highest_front [OF lk1] run u prio(1) by (simp add: scheduler_tick_def flip: k1_def) (simp add: k1_def word_less_nat_alt)
  have "u \<notin> set (qs (prio_of (core k) u))" using out prio(2) by blast
  from spec_yield_to [of qs p x "core k" u, OF x px run_u prio(1) this]
  have sp: "spec_yield (core k1, qs, current_tcb k1)
      = (set_state TASK_STATE_RUNNING x (set_state TASK_STATE_READY u (core k)), (enqueue (core k) u qs)(p := []), Some x)"
    using u core1 by (simp add: k1_def)
  have "\<exists>k'. scheduler_yield k1 = Some k' \<and> refines k1 qs k' (spec_yield (core k1, qs, current_tcb k1))"
    by (rule yield_refines [OF lk1]) (use run u prio(2) out core1 in \<open>auto simp: k1_def\<close>)
  then obtain k' where k': "scheduler_yield k1 = Some k'"
    "refines k1 qs k' (set_state TASK_STATE_RUNNING x (set_state TASK_STATE_READY u (core k)), (enqueue (core k) u qs)(p := []), Some x)"
    unfolding sp by blast
  from refinesD(1-3) [OF k'(2)] k'(1) tick that show thesis by simp
qed

lemma race_outcome:
  assumes ok: "kernel_ok k qs" and run: "scheduler_running k" and u: "current_tcb k = Some u" "tstate (core k u) = TASK_STATE_RUNNING"
    and x: "qs p = [x]" "p < NUM_PRIORITY_LEVELS" "\<forall>r<p. qs r = []" and prio: "p < prio_of (core k) u"
    and t: "t < MAX_TASKS" "tstate (core k t) = TASK_STATE_SUSPENDED" "prio_of (core k) t = p"
  obtains k1 k2 where "add_begin k (Some t) = Some (k1, ADD_TAIL x t)" and "scheduler_tick k1 = Some k2"
    and "core (add_end k2 (ADD_TAIL x t)) = set_state TASK_STATE_RUNNING x (set_state TASK_STATE_READY u (set_state TASK_STATE_READY t (core k)))"
    and "\<forall>q<NUM_PRIORITY_LEVELS. t \<notin> set (queues (add_end k2 (ADD_TAIL x t)) q)" and "current_tcb k2 = Some x"
proof -
  note d = kernel_okD [OF ok]
  have out: "t \<notin> set (qs q)" "set (qs q) \<subseteq> {..<MAX_TASKS}" if "q < NUM_PRIORITY_LEVELS" for q
    using in_queue [OF d(2) that] t(2) by (auto simp: ready_set_def)
  have ne: "t \<noteq> u" using t(2) u(2) by auto
  have pu: "prio_of (core k) u < NUM_PRIORITY_LEVELS" "\<forall>q<NUM_PRIORITY_LEVELS. u \<notin> set (qs q)" and um: "u < MAX_TASKS"
    using ok_current [OF ok u(1)] u(2) tasks_okD(4) [OF d(2) u(1)] by auto
  obtain k1 where k1: "add_begin k (Some t) = Some (k1, ADD_TAIL x t)" "linked k1 qs"
    "core k1 = set_state TASK_STATE_READY t (core k)" "same_rest k k1"
    by (rule add_begin_tail [OF d(1) x(1,2) _ out(1)]) (use t(3) in simp_all)
  obtain k2 where k2: "scheduler_tick k1 = Some k2" "linked k2 ((enqueue (core k1) u qs)(p := []))"
    "core k2 = set_state TASK_STATE_RUNNING x (set_state TASK_STATE_READY u (core k1))" "current_tcb k2 = Some x"
    by (rule tick_preempts [OF k1(2) _ _ _ x, of u]) (use k1(3,4) run d(4) u prio pu ne in simp_all)
  let ?k3 = "add_end k2 (ADD_TAIL x t)" and ?qs = "(enqueue (core k) u qs)(p := [])"
  have lk2: "linked k2 ?qs" using k2(2) k1(3) by (simp add: enqueue_set_state)
  have xout: "x \<notin> set (?qs q)" if q: "q < NUM_PRIORITY_LEVELS" for q
    using linkedD(3) [OF d(1) q, of x] linkedD(3) [OF d(1) x(2), of x] x(1) prio by (auto simp: enqueue_def)
  have lk3: "linked ?k3 ?qs" by (simp, rule linked_unqueued [OF lk2 xout])
  have "queues ?k3 q = ?qs q" if q: "q < NUM_PRIORITY_LEVELS" for q
    by (rule linked_queues [OF lk3 q]) (use out(2) [OF q] um in \<open>auto simp: enqueue_def\<close>)
  then have "\<forall>q<NUM_PRIORITY_LEVELS. t \<notin> set (queues ?k3 q)" using out(1) ne by (auto simp: enqueue_def)
  moreover have "core ?k3 = core k2" by (auto simp: core_def fun_eq_iff)
  ultimately show thesis using that k1(1) k2(1,3,4) k1(3) by simp
qed

text \<open>C11: the critical sections are load-bearing: when a task resumes another one that is as urgent as a
  single waiting task, more urgent than itself, and a tick strikes in \<^verbatim>\<open>scheduler_add_task\<close> between
  finding the tail and linking to it, the resumed task ends up ready but in no queue: the invariant
  of the kernel is broken, the scheduler no longer sees the task, and \<^verbatim>\<open>task_resume\<close> refuses it because it
  is not suspended. Without the tick the same call puts it in its queue.\<close>

theorem tick_in_add_loses_task:
  assumes "kernel_inv k" and "scheduler_running k" and "current_tcb k = Some u" and "tstate (task_pool k u) = TASK_STATE_RUNNING"
    and "queues k p = [x]" and "p < NUM_PRIORITY_LEVELS" and "\<forall>r<p. queues k r = []" and "p < unat (priority (task_pool k u))"
    and "t < MAX_TASKS" and "task_id (task_pool k t) \<noteq> 0" and "tstate (task_pool k t) = TASK_STATE_SUSPENDED"
    and "unat (priority (task_pool k t)) = p"
  shows "\<exists>k1 pc k2. add_begin k (Some t) = Some (k1, pc) \<and> scheduler_tick k1 = Some k2
    \<and> tstate (task_pool (add_end k2 pc) t) = TASK_STATE_READY
    \<and> (\<forall>q<NUM_PRIORITY_LEVELS. t \<notin> set (queues (add_end k2 pc) q)) \<and> \<not> kernel_inv (add_end k2 pc)
    \<and> (\<forall>tid. task_get_tcb (add_end k2 pc) tid = Some t \<longrightarrow>
         task_resume tid (add_end k2 pc) = Some (add_end k2 pc, RTOS_ERROR_INVALID_PARAM))
    \<and> (\<exists>k'. scheduler_add_task k (Some t) = Some k' \<and> queues k' p = [x, t])"
proof -
  note ok = assms(1) [unfolded kernel_inv_def]
  obtain k1 k2 where k: "add_begin k (Some t) = Some (k1, ADD_TAIL x t)" "scheduler_tick k1 = Some k2"
    and c: "core (add_end k2 (ADD_TAIL x t)) = set_state TASK_STATE_RUNNING x (set_state TASK_STATE_READY u (set_state TASK_STATE_READY t (core k)))"
    and q: "\<forall>q<NUM_PRIORITY_LEVELS. t \<notin> set (queues (add_end k2 (ADD_TAIL x t)) q)"
    by (rule race_outcome [OF ok assms(2,3) _ assms(5-7) _ assms(9)]) (use assms in simp_all)
  let ?k = "add_end k2 (ADD_TAIL x t)"
  have ne: "t \<noteq> x" using in_queue [OF kernel_okD(2) [OF ok] assms(6), of x] assms(5,11) by (auto simp: ready_set_def)
  have st: "tstate (core ?k t) = TASK_STATE_READY" "task_id (core ?k t) \<noteq> 0" "prio_of (core ?k) t = p"
    unfolding c using ne assms(10,12) by simp_all
  then have "\<not> kernel_inv ?k" using in_ready_queue [of ?k t] assms(6,9) q by auto
  moreover have "\<exists>k'. scheduler_add_task k (Some t) = Some k' \<and> queues k' p = [x, t]"
  proof -
    have out: "t \<notin> set (queues k r)" if "r < NUM_PRIORITY_LEVELS" for r
      using in_queue [OF kernel_okD(2) [OF ok] that, of t] assms(11) by (simp add: ready_set_def)
    from add_task_append [OF kernel_okD(1) [OF ok] assms(12,6) out] obtain k' where
      k': "scheduler_add_task k (Some t) = Some k'" "linked k' ((queues k)(p := queues k p @ [t]))" by blast
    have "x < MAX_TASKS" using in_queue [OF kernel_okD(2) [OF ok] assms(6), of x] assms(5) by (simp add: ready_set_def)
    with linked_queues [OF k'(2) assms(6)] assms(5,9) k'(1) show ?thesis by simp
  qed
  moreover have ready: "tstate (task_pool ?k t) = TASK_STATE_READY" using st(1) by simp
  then have "\<forall>tid. task_get_tcb ?k tid = Some t \<longrightarrow> task_resume tid ?k = Some (?k, RTOS_ERROR_INVALID_PARAM)"
    by (simp add: task_resume_def)
  ultimately show ?thesis
    using k q ready by - (rule exI [of _ k1], rule exI [of _ "ADD_TAIL x t"], rule exI [of _ k2], intro conjI, assumption+)
qed

text \<open>Task 1 (slot 0, priority 2) runs, task 2 (slot 1, priority 1) is ready and not yet noticed, task
  3 (slot 2, priority 1) is suspended.\<close>

definition race_kernel :: kernel where
  "race_kernel = blank_kernel\<lparr>
     task_pool := (\<lambda>_. zero_tcb)
       (0 := zero_tcb\<lparr>task_id := 1, priority := 2, tstate := TASK_STATE_RUNNING\<rparr>,
        1 := zero_tcb\<lparr>task_id := 2, priority := 1\<rparr>,
        2 := zero_tcb\<lparr>task_id := 3, priority := 1, tstate := TASK_STATE_SUSPENDED\<rparr>),
     next_task_id := 4, current_task := Some 0, current_tcb := Some 0, scheduler_running := True,
     ready_lists := (\<lambda>_. None)(1 := Some 1)\<rparr>"

lemma race_simps [simp]:
  "current_task race_kernel = Some 0" "current_tcb race_kernel = Some 0" "scheduler_running race_kernel"
  "delayed_list race_kernel = None" "next_task_id race_kernel = 4"
  "tstate (task_pool race_kernel t) =
     (if t = 0 then TASK_STATE_RUNNING else if t = 2 then TASK_STATE_SUSPENDED else TASK_STATE_READY)"
  "task_id (task_pool race_kernel t) = (if t = 0 then 1 else if t = 1 then 2 else if t = 2 then 3 else 0)"
  "priority (task_pool race_kernel t) = (if t = 0 then 2 else if t = 1 \<or> t = 2 then 1 else 0)"
  by (auto simp: race_kernel_def zero_tcb_def)

lemma race_ok: "kernel_ok race_kernel ((\<lambda>_. [])(1 := [1]))"
  unfolding kernel_ok_def
proof (intro conjI)
  show "linked race_kernel ((\<lambda>_. [])(1 := [1]))"
    by (auto simp: linked_def) (auto simp: race_kernel_def zero_tcb_def)
  show "tasks_ok (core race_kernel) ((\<lambda>_. [])(1 := [1])) (current_tcb race_kernel) (next_task_id race_kernel)"
  proof (rule tasks_okI)
    show "queue_ok (core race_kernel) ((\<lambda>_. [])(1 := [1])) p" for p
      by (auto simp: queue_ok_def ready_set_def MAX_TASKS_def split: if_splits)
    show "slot_ok (core race_kernel) (current_tcb race_kernel) (next_task_id race_kernel) t" for t
      by (auto simp: slot_ok_def NUM_PRIORITY_LEVELS_def)
    show "ids_distinct (core race_kernel)"
      by (auto simp: ids_distinct_def inj_on_def split: if_splits)
    show "current_ok (core race_kernel) (current_tcb race_kernel)"
      by (simp add: current_ok_def MAX_TASKS_def)
  qed
qed simp_all

theorem tick_in_add_loses_task_witness:
  "\<exists>k1 pc k2. add_begin race_kernel (Some 2) = Some (k1, pc) \<and> scheduler_tick k1 = Some k2
     \<and> \<not> kernel_inv (add_end k2 pc)"
proof -
  have q: "queues race_kernel p = (if p = 1 then [1] else [])" if "p < NUM_PRIORITY_LEVELS" for p
    using kernel_ok_queues [OF race_ok that] by simp
  have l: "(1 :: nat) < NUM_PRIORITY_LEVELS" "(2 :: nat) < MAX_TASKS" by (simp_all add: NUM_PRIORITY_LEVELS_def MAX_TASKS_def)
  have "\<forall>r<1. queues race_kernel r = []" using q l(1) by simp
  from tick_in_add_loses_task [OF kernel_invI [OF race_ok] _ _ _ _ l(1) this _ l(2), of 0 1] q [OF l(1)]
  show ?thesis by auto
qed

end
