(* ===== verification/Ipc_Race.thy ===== *)
theory Ipc_Race imports Ipc_Props begin

text \<open>
  Semaphores, mutexes and queues have no critical section: \<^verbatim>\<open>sem_take\<close>, \<^verbatim>\<open>sem_give\<close>, \<^verbatim>\<open>mutex_lock\<close>,
  \<^verbatim>\<open>mq_send\<close> and \<^verbatim>\<open>mq_receive\<close> test a field and then write it. Here the two halves are separate steps that the clients of one object may interleave.
  The locale \<open>guarded_operation\<close> says what the functions share: run without interruption the
  halves are the function, and when several clients pass the test before one of them writes, all
  succeed.
\<close>

section \<open>Interleaved halves\<close>

datatype phase = BEFORE | TESTED | SUCCEEDED | FAILED

text \<open>The next half of client \<open>i\<close>, whose argument is \<open>args i\<close>.\<close>

definition half_step :: "('a \<Rightarrow> 's \<Rightarrow> bool) \<Rightarrow> ('a \<Rightarrow> 's \<Rightarrow> 's) \<Rightarrow> (nat \<Rightarrow> 'a) \<Rightarrow> nat \<Rightarrow> 's \<times> (nat \<Rightarrow> phase) \<Rightarrow> 's \<times> (nat \<Rightarrow> phase)" where
  "half_step test commit args i = (\<lambda>(s, ph).
     case ph i of
       BEFORE \<Rightarrow> (s, ph(i := if test (args i) s then TESTED else FAILED))
     | TESTED \<Rightarrow> (commit (args i) s, ph(i := SUCCEEDED))
     | _ \<Rightarrow> (s, ph))"

fun interleave :: "('a \<Rightarrow> 's \<Rightarrow> bool) \<Rightarrow> ('a \<Rightarrow> 's \<Rightarrow> 's) \<Rightarrow> (nat \<Rightarrow> 'a) \<Rightarrow> nat list \<Rightarrow> 's \<times> (nat \<Rightarrow> phase) \<Rightarrow> 's \<times> (nat \<Rightarrow> phase)" where
  "interleave test commit args [] x = x"
| "interleave test commit args (i # is) x = interleave test commit args is (half_step test commit args i x)"

lemma interleave_append: "interleave test commit args (is @ js) x = interleave test commit args js (interleave test commit args is x)"
  by (induction "is" arbitrary: x) auto

text \<open>The two schedules: every client finishes before the next begins, and all test before any writes.\<close>

definition one_by_one :: "nat list \<Rightarrow> nat list" where
  "one_by_one is = concat (map (\<lambda>i. [i, i]) is)"

definition all_at_once :: "nat list \<Rightarrow> nat list" where
  "all_at_once is = is @ is"

lemma one_by_one_simps [simp]: "one_by_one [] = []" "one_by_one (i # is) = i # i # one_by_one is"
  by (simp_all add: one_by_one_def)

text \<open>The clients calling the whole function in turn.\<close>

fun calls :: "('a \<Rightarrow> 's \<Rightarrow> 's \<times> rtos_status) \<Rightarrow> (nat \<Rightarrow> 'a) \<Rightarrow> nat list \<Rightarrow> 's \<times> (nat \<Rightarrow> phase) \<Rightarrow> 's \<times> (nat \<Rightarrow> phase)" where
  "calls op args [] x = x"
| "calls op args (i # is) (s, ph) =
     (case op (args i) s of (s', r) \<Rightarrow> calls op args is (s', ph(i := if r = RTOS_OK then SUCCEEDED else FAILED)))"

locale guarded_operation =
  fixes op :: "'a \<Rightarrow> 's \<Rightarrow> 's \<times> rtos_status"
    and test :: "'a \<Rightarrow> 's \<Rightarrow> bool"
    and commit :: "'a \<Rightarrow> 's \<Rightarrow> 's"
  assumes op_pass: "test a s \<Longrightarrow> op a s = (commit a s, RTOS_OK)"
    and op_fail: "\<not> test a s \<Longrightarrow> \<exists>r. op a s = (s, r) \<and> r \<noteq> RTOS_OK"
begin

lemma half_twice:
  "ph i = BEFORE \<Longrightarrow> interleave test commit args (i # i # is) (s, ph) = interleave test commit args is
     (case op (args i) s of (s', r) \<Rightarrow> (s', ph(i := if r = RTOS_OK then SUCCEEDED else FAILED)))"
  using op_pass [of "args i" s] op_fail [of "args i" s] by (cases "test (args i) s") (auto simp: half_step_def)

text \<open>Without interruption the halves are the function.\<close>

lemma one_by_one_calls:
  "distinct is \<Longrightarrow> (\<And>i. i \<in> set is \<Longrightarrow> ph i = BEFORE) \<Longrightarrow>
   interleave test commit args (one_by_one is) (s, ph) = calls op args is (s, ph)"
proof (induction "is" arbitrary: s ph)
  case (Cons i "is")
  obtain s' r where r: "op (args i) s = (s', r)" by (metis prod.exhaust)
  have "interleave test commit args (one_by_one (i # is)) (s, ph)
      = interleave test commit args (one_by_one is) (s', ph(i := if r = RTOS_OK then SUCCEEDED else FAILED))"
    using half_twice [of ph i args "one_by_one is" s] Cons.prems(2) r by simp
  also have "\<dots> = calls op args is (s', ph(i := if r = RTOS_OK then SUCCEEDED else FAILED))"
    by (rule Cons.IH) (use Cons.prems in auto)
  finally show ?case by (simp add: r)
qed simp

text \<open>All clients that pass the test write, whatever the others wrote in between.\<close>

lemma tests_first:
  "distinct is \<Longrightarrow> (\<And>i. i \<in> set is \<Longrightarrow> ph i = BEFORE \<and> test (args i) s) \<Longrightarrow>
   interleave test commit args is (s, ph) = (s, \<lambda>i. if i \<in> set is then TESTED else ph i)"
proof (induction "is" arbitrary: ph)
  case (Cons i "is")
  then have h: "half_step test commit args i (s, ph) = (s, ph(i := TESTED))" by (simp add: half_step_def)
  have "interleave test commit args is (s, ph(i := TESTED)) = (s, \<lambda>j. if j \<in> set is then TESTED else (ph(i := TESTED)) j)"
    by (rule Cons.IH) (use Cons.prems in auto)
  then show ?case by (simp add: h) (auto simp: fun_eq_iff)
qed simp

lemma commits_then:
  "distinct is \<Longrightarrow> (\<And>i. i \<in> set is \<Longrightarrow> ph i = TESTED) \<Longrightarrow>
   interleave test commit args is (s, ph) = (fold (\<lambda>i. commit (args i)) is s, \<lambda>i. if i \<in> set is then SUCCEEDED else ph i)"
proof (induction "is" arbitrary: s ph)
  case (Cons i "is")
  then have h: "half_step test commit args i (s, ph) = (commit (args i) s, ph(i := SUCCEEDED))" by (simp add: half_step_def)
  have "interleave test commit args is (commit (args i) s, ph(i := SUCCEEDED))
      = (fold (\<lambda>i. commit (args i)) is (commit (args i) s), \<lambda>j. if j \<in> set is then SUCCEEDED else (ph(i := SUCCEEDED)) j)"
    by (rule Cons.IH) (use Cons.prems in auto)
  then show ?case by (simp add: h) (auto simp: fun_eq_iff)
qed simp

lemma all_at_once_succeed:
  assumes "distinct is" and "\<And>i. i \<in> set is \<Longrightarrow> test (args i) s"
  shows "interleave test commit args (all_at_once is) (s, \<lambda>_. BEFORE)
    = (fold (\<lambda>i. commit (args i)) is s, \<lambda>i. if i \<in> set is then SUCCEEDED else BEFORE)"
  using tests_first [of "is" "\<lambda>_. BEFORE" args s] assms
    commits_then [of "is" "\<lambda>i. if i \<in> set is then TESTED else BEFORE" args s]
  by (auto simp: all_at_once_def interleave_append fun_eq_iff)

end

section \<open>Taking a semaphore\<close>

definition take_test :: "addr \<Rightarrow> heap_state \<Rightarrow> bool" where
  "take_test sem s \<longleftrightarrow> sem \<noteq> NULL \<and> sem_count (mem s) sem \<noteq> 0"

definition take_commit :: "addr \<Rightarrow> heap_state \<Rightarrow> heap_state" where
  "take_commit sem s = heap_store (\<lambda>m. set_sem_count sem (sem_count m sem - 1) m) s"

interpretation take: guarded_operation "\<lambda>sem s. sem_take s sem t" take_test take_commit for t
  by unfold_locales (auto simp: sem_take_def take_test_def take_commit_def)

lemma fold_take:
  "sem_count (mem (fold (\<lambda>i. take_commit sem) is s)) sem = sem_count (mem s) sem - of_nat (length is)"
  by (induction "is" arbitrary: s) (auto simp: take_commit_def algebra_simps)

lemma calls_take:
  "sem_ok s sem \<Longrightarrow> distinct is \<Longrightarrow>
   calls (\<lambda>sem s. sem_take s sem t) (\<lambda>_. sem) is (s, ph) = (s', ph') \<Longrightarrow>
   card {i \<in> set is. ph' i = SUCCEEDED} = min (length is) (unat (sem_count (mem s) sem))
   \<and> unat (sem_count (mem s') sem) = unat (sem_count (mem s) sem) - length is \<and> (\<forall>i. i \<notin> set is \<longrightarrow> ph' i = ph i)"
proof (induction "is" arbitrary: s ph)
  case (Cons i "is")
  have split: "{j \<in> set (i # is). ph' j = SUCCEEDED} = {j \<in> set is. ph' j = SUCCEEDED} \<union> (if ph' i = SUCCEEDED then {i} else {})"
    by auto
  have i: "i \<notin> set is" "distinct is" using Cons.prems(2) by auto
  show ?case
  proof (cases rule: sem_take_cases [OF Cons.prems(1), of t])
    case 1
    then have run: "calls (\<lambda>sem s. sem_take s sem t) (\<lambda>_. sem) is (s, ph(i := FAILED)) = (s', ph')"
      using Cons.prems(3) by simp
    from Cons.IH [OF Cons.prems(1) i(2) run] i(1) 1(2) show ?thesis unfolding split by auto
  next
    case (2 s1)
    then have run: "calls (\<lambda>sem s. sem_take s sem t) (\<lambda>_. sem) is (s1, ph(i := SUCCEEDED)) = (s', ph')"
      using Cons.prems(3) by simp
    from Cons.IH [OF 2(2) i(2) run] have r:
      "card {j \<in> set is. ph' j = SUCCEEDED} = min (length is) (unat (sem_count (mem s1) sem))"
      "unat (sem_count (mem s') sem) = unat (sem_count (mem s1) sem) - length is" "\<forall>j. j \<notin> set is \<longrightarrow> ph' j = (ph(i := SUCCEEDED)) j" by auto
    then have "ph' i = SUCCEEDED" using i(1) by simp
    with r i(1) 2(4) show ?thesis unfolding split by auto
  qed
qed simp

text \<open>C16: \<^verbatim>\<open>sem_take\<close> is not atomic: when any number of clients test the count before the first of them
  lowers it, all succeed, however small the count was, and it is lowered by their number modulo \<open>2 ^ 32\<close>;
  clients that take one after the other succeed at most as often as there were units.\<close>

theorem sem_take_race:
  assumes "sem_ok s sem" and "sem_count (mem s) sem \<noteq> 0" and "distinct is"
  shows "(\<exists>s' ph. interleave take_test take_commit (\<lambda>_. sem) (all_at_once is) (s, \<lambda>_. BEFORE) = (s', ph)
      \<and> (\<forall>i\<in>set is. ph i = SUCCEEDED) \<and> sem_count (mem s') sem = sem_count (mem s) sem - of_nat (length is))
    \<and> (\<exists>s' ph. interleave take_test take_commit (\<lambda>_. sem) (one_by_one is) (s, \<lambda>_. BEFORE) = (s', ph)
      \<and> card {i \<in> set is. ph i = SUCCEEDED} = min (length is) (unat (sem_count (mem s) sem))
      \<and> unat (sem_count (mem s') sem) = unat (sem_count (mem s) sem) - length is)"
proof
  have "take_test sem s" using assms(2) sem_ok_nonnull [OF assms(1)] by (simp add: take_test_def)
  with take.all_at_once_succeed [OF assms(3), of "\<lambda>_. sem" s] fold_take [of sem "is" s]
  show "\<exists>s' ph. interleave take_test take_commit (\<lambda>_. sem) (all_at_once is) (s, \<lambda>_. BEFORE) = (s', ph)
      \<and> (\<forall>i\<in>set is. ph i = SUCCEEDED) \<and> sem_count (mem s') sem = sem_count (mem s) sem - of_nat (length is)" by auto
  obtain s' ph where r: "calls (\<lambda>sem s. sem_take s sem 0) (\<lambda>_. sem) is (s, \<lambda>_. BEFORE) = (s', ph)" by (metis prod.exhaust)
  with take.one_by_one_calls [OF assms(3), of "\<lambda>_. BEFORE" "\<lambda>_. sem" s] calls_take [OF assms(1,3) r]
  show "\<exists>s' ph. interleave take_test take_commit (\<lambda>_. sem) (one_by_one is) (s, \<lambda>_. BEFORE) = (s', ph)
      \<and> card {i \<in> set is. ph i = SUCCEEDED} = min (length is) (unat (sem_count (mem s) sem))
      \<and> unat (sem_count (mem s') sem) = unat (sem_count (mem s) sem) - length is" by auto
qed

theorem sem_take_race_witness:
  "\<exists>s sem s' ph. sem_count (mem s) sem = 1
     \<and> interleave take_test take_commit (\<lambda>_. sem) [0, 1, 0, 1] (s, \<lambda>_. BEFORE) = (s', ph)
     \<and> ph 0 = SUCCEEDED \<and> ph 1 = SUCCEEDED \<and> sem_count (mem s') sem = 0xFFFFFFFF"
proof -
  obtain s sem where s: "sem_ok s sem" "sem_count (mem s) sem = 1" by (rule example_sem)
  have "sem_count (mem s) sem \<noteq> 0" using s(2) by simp
  from conjunct1 [OF sem_take_race [OF s(1) this, of "[0, 1]"]] s(2) show ?thesis
    by (fastforce simp: all_at_once_def)
qed

section \<open>Giving to a semaphore\<close>

definition give_test :: "addr \<Rightarrow> heap_state \<Rightarrow> bool" where
  "give_test sem s \<longleftrightarrow> sem \<noteq> NULL \<and> sem_count (mem s) sem < sem_max_count (mem s) sem"

definition give_commit :: "addr \<Rightarrow> heap_state \<Rightarrow> heap_state" where
  "give_commit sem s = heap_store (\<lambda>m. set_sem_count sem (sem_count m sem + 1) m) s"

interpretation give: guarded_operation "\<lambda>sem s. sem_give s sem" give_test give_commit
  by unfold_locales (auto simp: sem_give_def give_test_def give_commit_def)

lemma fold_give:
  "sem_count (mem (fold (\<lambda>i. give_commit sem) is s)) sem = sem_count (mem s) sem + of_nat (length is)
   \<and> sem_max_count (mem (fold (\<lambda>i. give_commit sem) is s)) sem = sem_max_count (mem s) sem"
  by (induction "is" arbitrary: s) (auto simp: give_commit_def algebra_simps)

text \<open>Clients that all test before one of them raises the count push it above the maximum.\<close>

lemma sem_give_race:
  assumes "sem \<noteq> NULL" and "sem_count (mem s) sem < sem_max_count (mem s) sem" and "distinct is"
    and "unat (sem_count (mem s) sem) + length is < 2 ^ 32"
    and "unat (sem_max_count (mem s) sem) < unat (sem_count (mem s) sem) + length is"
  obtains s' ph where "interleave give_test give_commit (\<lambda>_. sem) (all_at_once is) (s, \<lambda>_. BEFORE) = (s', ph)"
    "\<forall>i\<in>set is. ph i = SUCCEEDED" "sem_max_count (mem s') sem < sem_count (mem s') sem"
proof -
  let ?s = "fold (\<lambda>i. give_commit sem) is s"
  have "unat (sem_count (mem ?s) sem) = unat (sem_count (mem s) sem) + length is"
    using assms(4) fold_give [of sem "is" s] by (simp add: unat_word_ariths unat_of_nat)
  then have "sem_max_count (mem ?s) sem < sem_count (mem ?s) sem"
    using assms(5) fold_give [of sem "is" s] by (simp add: word_less_nat_alt)
  moreover have "give_test sem s" using assms(1,2) by (simp add: give_test_def)
  ultimately show thesis using that give.all_at_once_succeed [OF assms(3), of "\<lambda>_. sem" s] by auto
qed

section \<open>Locking a mutex\<close>

definition lock_test :: "addr \<Rightarrow> heap_state \<Rightarrow> bool" where
  "lock_test mutex s \<longleftrightarrow> mutex \<noteq> NULL \<and> \<not> mutex_locked (mem s) mutex"

definition lock_commit :: "addr \<Rightarrow> kernel \<Rightarrow> heap_state \<Rightarrow> heap_state" where
  "lock_commit mutex k s = heap_store (set_mutex mutex True (task_get_current_id k)) s"

interpretation lock: guarded_operation "\<lambda>k s. mutex_lock k s mutex t" "\<lambda>k. lock_test mutex" "lock_commit mutex" for mutex t
  by unfold_locales (auto simp: mutex_lock_def lock_test_def lock_commit_def)

lemma fold_lock:
  "mutex_ok s mu \<Longrightarrow> is \<noteq> [] \<Longrightarrow> mutex_ok (fold (\<lambda>i. lock_commit mu (ks i)) is s) mu
     \<and> holder (fold (\<lambda>i. lock_commit mu (ks i)) is s) mu = Some (task_get_current_id (ks (last is)))"
proof (induction "is" rule: rev_induct)
  case (snoc i "is")
  then have "mutex_ok (fold (\<lambda>i. lock_commit mu (ks i)) is s) mu" by (cases "is") auto
  from mutex_store(1) [OF this, of True "task_get_current_id (ks i)"] show ?case
    by (simp add: lock_commit_def [of mu "ks i"])
qed simp

lemma calls_locked:
  "mutex_ok s mu \<Longrightarrow> holder s mu \<noteq> None \<Longrightarrow> calls (\<lambda>k s. mutex_lock k s mu t) ks is (s, ph) = (s, \<lambda>i. if i \<in> set is then FAILED else ph i)"
proof (induction "is" arbitrary: ph)
  case (Cons i "is")
  then have "mutex_lock (ks i) s mu t = (s, RTOS_ERROR_TIMEOUT)" using mutex_holder [of s mu "ks i" t] by auto
  then have "calls (\<lambda>k s. mutex_lock k s mu t) ks (i # is) (s, ph) = (s, \<lambda>j. if j \<in> set is then FAILED else (ph(i := FAILED)) j)"
    by (simp only: calls.simps prod.case Cons.IH [OF Cons.prems]) simp
  then show ?case by (auto simp: fun_eq_iff)
qed simp

text \<open>C18: \<^verbatim>\<open>mutex_lock\<close> is not atomic: when any number of tasks test the flag of a free mutex before the
  first of them sets it, all of them lock it; the last one is recorded as the owner, and the others
  cannot even unlock it again. Tasks that lock one after the other exclude each other: the first one
  gets the mutex and nobody else.\<close>

theorem mutex_lock_race:
  assumes "mutex_ok s mu" and "holder s mu = None" and "distinct is" and "is \<noteq> []"
  shows "(\<exists>s' ph. interleave (\<lambda>k. lock_test mu) (lock_commit mu) ks (all_at_once is) (s, \<lambda>_. BEFORE) = (s', ph)
      \<and> (\<forall>i\<in>set is. ph i = SUCCEEDED) \<and> holder s' mu = Some (task_get_current_id (ks (last is)))
      \<and> (\<forall>k. task_get_current_id k \<noteq> task_get_current_id (ks (last is)) \<longrightarrow> mutex_unlock k s' mu = (s', RTOS_ERROR)))
    \<and> (\<exists>s' ph. interleave (\<lambda>k. lock_test mu) (lock_commit mu) ks (one_by_one is) (s, \<lambda>_. BEFORE) = (s', ph)
      \<and> {i \<in> set is. ph i = SUCCEEDED} = {hd is} \<and> holder s' mu = Some (task_get_current_id (ks (hd is))))"
proof
  have test: "lock_test mu s" using assms(2) mutex_ok_nonnull [OF assms(1)] by (auto simp: lock_test_def holder_def split: if_splits)
  note f = fold_lock [OF assms(1,4), of ks]
  have "\<forall>k. task_get_current_id k \<noteq> task_get_current_id (ks (last is)) \<longrightarrow>
      mutex_unlock k (fold (\<lambda>i. lock_commit mu (ks i)) is s) mu = (fold (\<lambda>i. lock_commit mu (ks i)) is s, RTOS_ERROR)"
    using mutex_holder [OF conjunct1 [OF f]] f by auto
  with lock.all_at_once_succeed [OF assms(3), of mu s ks] test f
  show "\<exists>s' ph. interleave (\<lambda>k. lock_test mu) (lock_commit mu) ks (all_at_once is) (s, \<lambda>_. BEFORE) = (s', ph)
      \<and> (\<forall>i\<in>set is. ph i = SUCCEEDED) \<and> holder s' mu = Some (task_get_current_id (ks (last is)))
      \<and> (\<forall>k. task_get_current_id k \<noteq> task_get_current_id (ks (last is)) \<longrightarrow> mutex_unlock k s' mu = (s', RTOS_ERROR))"
    by auto
  obtain i js where l: "is = i # js" using assms(4) by (cases "is") auto
  from mutex_holder [OF assms(1), of "ks i" 0] assms(2) obtain s1 where
    s1: "mutex_lock (ks i) s mu 0 = (s1, RTOS_OK)" "mutex_ok s1 mu" "holder s1 mu = Some (task_get_current_id (ks i))" by auto
  have "calls (\<lambda>k s. mutex_lock k s mu 0) ks is (s, \<lambda>_. BEFORE) = (s1, \<lambda>j. if j \<in> set js then FAILED else if j = i then SUCCEEDED else BEFORE)"
    using calls_locked [OF s1(2), of 0 ks js "(\<lambda>_. BEFORE)(i := SUCCEEDED)"] s1 l by (auto simp: fun_eq_iff)
  with lock.one_by_one_calls [OF assms(3), of "\<lambda>_. BEFORE" mu ks s 0] s1(3) assms(3) l
  show "\<exists>s' ph. interleave (\<lambda>k. lock_test mu) (lock_commit mu) ks (one_by_one is) (s, \<lambda>_. BEFORE) = (s', ph)
      \<and> {i \<in> set is. ph i = SUCCEEDED} = {hd is} \<and> holder s' mu = Some (task_get_current_id (ks (hd is)))" by auto
qed

theorem mutex_lock_race_witness:
  "\<exists>s mu s' ph. holder s mu = None
     \<and> interleave (\<lambda>k. lock_test mu) (lock_commit mu) (\<lambda>_. demo_kernel) [0, 1, 0, 1] (s, \<lambda>_. BEFORE) = (s', ph)
     \<and> ph 0 = SUCCEEDED \<and> ph 1 = SUCCEEDED"
proof -
  obtain s mu where s: "mutex_ok s mu" "holder s mu = None" by (rule example_mutex)
  from conjunct1 [OF mutex_lock_race [OF s, of "[0, 1]" "\<lambda>_. demo_kernel"]] s(2) show ?thesis
    by (fastforce simp: all_at_once_def)
qed

section \<open>Sending to a queue\<close>

text \<open>The clients' messages; the queue is \<open>mq\<close>.\<close>

definition send_test :: "addr \<Rightarrow> addr \<Rightarrow> heap_state \<Rightarrow> bool" where
  "send_test mq msg s \<longleftrightarrow> mq \<noteq> NULL \<and> msg \<noteq> NULL \<and> mq_count (mem s) mq < mq_max_msgs (mem s) mq"

definition send_commit :: "addr \<Rightarrow> addr \<Rightarrow> heap_state \<Rightarrow> heap_state" where
  "send_commit mq msg s =
     (let m = mem s;
          m1 = memcpy m (mq_buffer m mq + unat (mq_head m mq * mq_msg_size m mq)) msg (unat (mq_msg_size m mq));
          m2 = set_mq_head mq ((mq_head m1 mq + 1) mod mq_max_msgs m1 mq) m1;
          m3 = set_mq_count mq (mq_count m2 mq + 1) m2
      in s\<lparr>mem := m3\<rparr>)"

interpretation send: guarded_operation "\<lambda>msg s. mq_send s mq msg t" "send_test mq" "send_commit mq" for mq t
  by unfold_locales (auto simp: mq_send_def send_test_def send_commit_def Let_def)

lemma send_commit_append: "mq_shape s q \<Longrightarrow> send_commit q msg s = mq_append s q msg"
  unfolding send_commit_def by (rule send_writes)

text \<open>Messages of clients outside the heap.\<close>

definition message_at :: "heap_state \<Rightarrow> addr \<Rightarrow> addr \<Rightarrow> u8 list" where
  "message_at s q a = bytes_at (mem s) a (unat (mq_msg_size (mem s) q))"

definition messages :: "heap_state \<Rightarrow> addr \<Rightarrow> addr set \<Rightarrow> bool" where
  "messages s q A \<longleftrightarrow> (\<forall>a\<in>A. a \<noteq> NULL \<and> outside_heap s a (unat (mq_msg_size (mem s) q)))"

lemma messages_append:
  assumes "mq_shape s q" and "messages s q A"
  shows "messages (mq_append s q msg) q A" and "a \<in> A \<Longrightarrow> message_at (mq_append s q msg) q a = message_at s q a"
  using assms(2) append_effect(4,10,11) [OF assms(1)] by (auto simp: messages_def message_at_def outside_heap_def)

text \<open>Any number of appends, not more than the ring has slots: each message is in a slot of its own,
  counted from the head.\<close>

definition sent_all :: "heap_state \<Rightarrow> addr \<Rightarrow> addr set \<Rightarrow> addr list \<Rightarrow> heap_state \<Rightarrow> bool" where
  "sent_all s q A as s' \<longleftrightarrow> mq_shape s' q \<and> messages s' q A \<and> (\<forall>a\<in>A. message_at s' q a = message_at s q a)
     \<and> mq_buffer (mem s') q = mq_buffer (mem s) q \<and> mq_msg_size (mem s') q = mq_msg_size (mem s) q
     \<and> mq_max_msgs (mem s') q = mq_max_msgs (mem s) q \<and> mq_tail (mem s') q = mq_tail (mem s) q
     \<and> mq_count (mem s') q = mq_count (mem s) q + of_nat (length as)
     \<and> unat (mq_head (mem s') q) = (unat (mq_head (mem s) q) + length as) mod unat (mq_max_msgs (mem s) q)
     \<and> (\<forall>j<length as. message_at s' q (mq_slot (mem s) q ((unat (mq_head (mem s) q) + j) mod unat (mq_max_msgs (mem s) q)))
          = message_at s q (as ! j))"

lemma sent_none: "mq_shape s q \<Longrightarrow> messages s q A \<Longrightarrow> sent_all s q A [] s"
  by (simp add: sent_all_def mq_shape_def)

lemma sent_next:
  assumes all: "sent_all s q A as s1" and a: "a \<in> A" and room: "length as < unat (mq_max_msgs (mem s) q)"
  shows "sent_all s q A (as @ [a]) (mq_append s1 q a)"
proof -
  let ?n = "unat (mq_max_msgs (mem s) q)" and ?h = "unat (mq_head (mem s) q)"
  from all have shape: "mq_shape s1 q" and msgs: "messages s1 q A" "\<forall>a\<in>A. message_at s1 q a = message_at s q a"
    and f: "mq_buffer (mem s1) q = mq_buffer (mem s) q" "mq_msg_size (mem s1) q = mq_msg_size (mem s) q"
      "mq_max_msgs (mem s1) q = mq_max_msgs (mem s) q" "mq_tail (mem s1) q = mq_tail (mem s) q"
      "mq_count (mem s1) q = mq_count (mem s) q + of_nat (length as)" "unat (mq_head (mem s1) q) = (?h + length as) mod ?n"
    and slots: "\<And>j. j < length as \<Longrightarrow> message_at s1 q (mq_slot (mem s) q ((?h + j) mod ?n)) = message_at s q (as ! j)"
    by (simp_all add: sent_all_def)
  note e = append_effect [where msg = a, OF shape] and m = messages_append [where msg = a, OF shape msgs(1)]
  have slot: "message_at (mq_append s1 q a) q (mq_slot (mem s) q ((?h + j) mod ?n))
      = (if j = length as then message_at s q a else message_at s1 q (mq_slot (mem s) q ((?h + j) mod ?n)))"
    if "j \<le> length as" for j
  proof -
    have "(?h + j) mod ?n < ?n" using room by simp
    moreover have "(?h + j) mod ?n \<noteq> (?h + length as) mod ?n" if "j \<noteq> length as"
      by (rule ring_ne [OF _ room]) (use that \<open>j \<le> length as\<close> in simp)
    moreover have "mq_slot (mem s1) q i = mq_slot (mem s) q i" for i by (simp add: mq_slot_def f)
    ultimately show ?thesis using e(9) [of "(?h + j) mod ?n"] e(4) f msgs(2) a by (auto simp: message_at_def)
  qed
  show ?thesis unfolding sent_all_def
  proof (intro conjI)
    show "\<forall>j<length (as @ [a]). message_at (mq_append s1 q a) q (mq_slot (mem s) q ((?h + j) mod ?n))
        = message_at s q ((as @ [a]) ! j)"
      using slot slots by (auto simp: nth_append less_Suc_eq)
    show "unat (mq_head (mem (mq_append s1 q a)) q) = (?h + length (as @ [a])) mod ?n"
      using e(8) f by (simp add: mod_Suc_eq)
  qed (use e f m msgs in simp_all)
qed

lemma fold_send:
  assumes "mq_shape s q" and "messages s q A" and "msgs ` set is \<subseteq> A" and "length is \<le> unat (mq_max_msgs (mem s) q)"
  shows "sent_all s q A (map msgs is) (fold (\<lambda>i. send_commit q (msgs i)) is s)"
proof -
  have "sent_all s q A (map msgs js) (fold (\<lambda>i. send_commit q (msgs i)) js s)"
    if "set js \<subseteq> set is" "length js \<le> unat (mq_max_msgs (mem s) q)" for js
    using that
  proof (induction js rule: rev_induct)
    case Nil
    then show ?case using sent_none [OF assms(1,2)] by simp
  next
    case (snoc j js)
    then have all: "sent_all s q A (map msgs js) (fold (\<lambda>i. send_commit q (msgs i)) js s)" by simp
    then have "mq_shape (fold (\<lambda>i. send_commit q (msgs i)) js s) q" by (simp add: sent_all_def)
    with sent_next [OF all, of "msgs j"] snoc.prems send_commit_append assms(3) show ?case by (simp add: image_subset_iff)
  qed
  then show ?thesis using assms(4) by simp
qed

text \<open>Calls one after the other fill the queue and stop there.\<close>

lemma calls_send:
  "mq_ok s q \<Longrightarrow> messages s q (msgs ` set is) \<Longrightarrow> distinct is \<Longrightarrow>
   calls (\<lambda>msg s. mq_send s q msg t) msgs is (s, ph) = (s', ph') \<Longrightarrow>
   mq_ok s' q
   \<and> mq_items (mem s') q = mq_items (mem s) q
       @ map (\<lambda>i. message_at s q (msgs i)) (take (unat (mq_max_msgs (mem s) q) - length (mq_items (mem s) q)) is)
   \<and> (\<forall>i. ph' i = (if i \<in> set (take (unat (mq_max_msgs (mem s) q) - length (mq_items (mem s) q)) is) then SUCCEEDED
                else if i \<in> set is then FAILED else ph i))"
proof (induction "is" arbitrary: s ph)
  case (Cons i "is")
  let ?n = "unat (mq_max_msgs (mem s) q)" and ?c = "unat (mq_count (mem s) q)"
  note ok = Cons.prems(1) and shape = mq_ok_shape [OF Cons.prems(1)]
  have i: "i \<notin> set is" "distinct is" and msg: "msgs i \<noteq> NULL" using Cons.prems(2,3) by (auto simp: messages_def)
  show ?case
  proof (cases "?c < ?n")
    case True
    define s1 where "s1 = mq_append s q (msgs i)"
    from send_ok [OF ok True msg] send_state [OF ok True msg] have
      s1: "mq_send s q (msgs i) t = (s1, RTOS_OK)" "mq_ok s1 q" "mq_items (mem s1) q = mq_items (mem s) q @ [message_at s q (msgs i)]"
      "mq_max_msgs (mem s1) q = mq_max_msgs (mem s) q" by (auto simp: s1_def message_at_def)
    note m = messages_append [where msg = "msgs i", OF shape Cons.prems(2), folded s1_def]
    have run: "calls (\<lambda>msg s. mq_send s q msg t) msgs is (s1, ph(i := SUCCEEDED)) = (s', ph')"
      using Cons.prems(4) s1(1) by simp
    have "messages s1 q (msgs ` set is)" using m(1) by (simp add: messages_def)
    note r = Cons.IH [OF s1(2) this i(2) run]
    have free: "?n - ?c = Suc (?n - length (mq_items (mem s1) q))" using True s1(3) by simp
    have same: "map (\<lambda>i. message_at s1 q (msgs i)) (take k is) = map (\<lambda>i. message_at s q (msgs i)) (take k is)" for k
      using m(2) by (auto dest: in_set_takeD)
    have notin: "i \<notin> set (take k is)" for k using i(1) by (auto dest: in_set_takeD)
    show ?thesis using r s1(3,4) same notin i(1) by (auto simp: free)
  next
    case False
    then have "mq_send s q (msgs i) t = (s, RTOS_ERROR_BUSY)"
      using msg mq_ok_nonnull [OF ok] by (simp add: mq_send_def word_le_nat_alt)
    then have run: "calls (\<lambda>msg s. mq_send s q msg t) msgs is (s, ph(i := FAILED)) = (s', ph')"
      using Cons.prems(4) by simp
    have "messages s q (msgs ` set is)" using Cons.prems(2) by (simp add: messages_def)
    from Cons.IH [OF ok this i(2) run] False i(1) show ?thesis by auto
  qed
qed simp

text \<open>A queue in a heap of 64 KB has no more slots than that.\<close>

lemma mq_max_small:
  assumes "mq_ok s q"
  shows "unat (mq_max_msgs (mem s) q) \<le> HEAP_SIZE"
proof -
  from mq_layout [OF mq_ok_shape [OF assms]] obtain j where j: "heap_inv s" "heap_live s (mq_buffer (mem s) q) = Some j"
    "unat (mq_msg_size (mem s) q) * unat (mq_max_msgs (mem s) q) \<le> j" by metis
  have "0 < unat (mq_msg_size (mem s) q)" using assms by (simp add: mq_ok_def)
  then have "unat (mq_max_msgs (mem s) q) \<le> j" using j(3) by (cases "unat (mq_msg_size (mem s) q)") auto
  with live_in_heap [OF j(1,2)] show ?thesis by simp
qed

lemma ring_full: "c \<le> n \<Longrightarrow> t < n \<Longrightarrow> ((t + c) mod n + (n - c)) mod n = (t :: nat)"
  using mod_add_left_eq [of "t + c" n "n - c"] by simp

text \<open>All at once, with more clients than free places.\<close>

lemma overfull:
  assumes "mq_ok s q" and "messages s q (msgs ` set is)"
    and "length (mq_items (mem s) q) < unat (mq_max_msgs (mem s) q)"
    and "unat (mq_max_msgs (mem s) q) < length (mq_items (mem s) q) + length is" and "length is \<le> unat (mq_max_msgs (mem s) q)"
    and "messages s q {c}"
  defines "s' \<equiv> fold (\<lambda>i. send_commit q (msgs i)) is s"
  shows "unat (mq_count (mem s') q) = length (mq_items (mem s) q) + length is"
    and "mq_receive s' q c t = (mq_remove s' q c, RTOS_OK)"
    and "bytes_at (mem (mq_remove s' q c)) c (unat (mq_msg_size (mem s) q))
      = message_at s q (msgs (is ! (unat (mq_max_msgs (mem s) q) - length (mq_items (mem s) q))))"
proof -
  let ?n = "unat (mq_max_msgs (mem s) q)" and ?c = "unat (mq_count (mem s) q)" and ?t = "unat (mq_tail (mem s) q)"
  note shape = mq_ok_shape [OF assms(1)]
  have sizes: "?c < ?n" "?n < ?c + length is" using assms(3,4) by simp_all
  have "messages s q (insert c (msgs ` set is))" using assms(2,6) by (simp add: messages_def)
  from fold_send [OF shape this _ assms(5)] have "sent_all s q (insert c (msgs ` set is)) (map msgs is) s'"
    by (auto simp: s'_def)
  note all = this
  then have "messages s' q (insert c (msgs ` set is))" by (simp only: sent_all_def)
  then have c: "messages s' q {c}" by (simp add: messages_def)
  from all have shape': "mq_shape s' q" and f: "mq_buffer (mem s') q = mq_buffer (mem s) q" "mq_msg_size (mem s') q = mq_msg_size (mem s) q"
      "mq_tail (mem s') q = mq_tail (mem s) q" "mq_count (mem s') q = mq_count (mem s) q + of_nat (length is)"
    and slots: "\<And>j. j < length is \<Longrightarrow> message_at s' q (mq_slot (mem s) q ((unat (mq_head (mem s) q) + j) mod ?n)) = message_at s q (msgs (is ! j))"
    by (simp_all add: sent_all_def)
  show "unat (mq_count (mem s') q) = length (mq_items (mem s) q) + length is"
    using mq_max_small [OF assms(1)] sizes assms(5) by (simp add: f unat_word_ariths unat_of_nat HEAP_SIZE_def)
  then have count: "unat (mq_count (mem s') q) = ?c + length is" by simp
  have "unat (mq_head (mem s) q) = (?t + ?c) mod ?n" "?t < ?n" using assms(1) by (simp_all add: mq_ok_def)
  then have "(unat (mq_head (mem s) q) + (?n - ?c)) mod ?n = ?t" using ring_full [of ?c ?n ?t] sizes by simp
  then have oldest: "message_at s' q (mq_slot (mem s) q ?t) = message_at s q (msgs (is ! (?n - ?c)))"
    using slots [of "?n - ?c"] sizes by simp
  have some: "0 < unat (mq_count (mem s') q)" using count sizes by linarith
  have c': "c \<noteq> NULL" "outside_heap s' c (unat (mq_msg_size (mem s') q))" using c by (simp_all add: messages_def)
  show "mq_receive s' q c t = (mq_remove s' q c, RTOS_OK)" by (rule receive_state [OF shape' some c'])
  show "bytes_at (mem (mq_remove s' q c)) c (unat (mq_msg_size (mem s) q))
      = message_at s q (msgs (is ! (?n - length (mq_items (mem s) q))))"
    using remove_effect(10) [OF shape' c'(2)] oldest f by (simp add: message_at_def mq_slot_def)
qed

text \<open>C19: \<^verbatim>\<open>mq_send\<close> is not atomic: when more clients than there are free places test the count before
  the first of them writes, all succeed, the count exceeds the number of slots, and the oldest
  message, which nobody has received, is gone: the next receive delivers in its place the message that
  came first after the queue was full. Clients that send one after the other fill the queue with
  the first messages, in order behind those that wait, and the rest of them fail.\<close>

theorem mq_send_race:
  assumes "mq_ok s q" and "distinct is" and "messages s q (msgs ` set is)"
    and "length (mq_items (mem s) q) < unat (mq_max_msgs (mem s) q)"
    and "unat (mq_max_msgs (mem s) q) < length (mq_items (mem s) q) + length is" and "length is \<le> unat (mq_max_msgs (mem s) q)"
    and "messages s q {c}"
  shows "(\<exists>s' ph s''. interleave (send_test q) (send_commit q) msgs (all_at_once is) (s, \<lambda>_. BEFORE) = (s', ph)
      \<and> (\<forall>i\<in>set is. ph i = SUCCEEDED) \<and> unat (mq_count (mem s') q) = length (mq_items (mem s) q) + length is
      \<and> mq_receive s' q c t = (s'', RTOS_OK)
      \<and> bytes_at (mem s'') c (unat (mq_msg_size (mem s) q))
        = message_at s q (msgs (is ! (unat (mq_max_msgs (mem s) q) - length (mq_items (mem s) q)))))
    \<and> (\<exists>s' ph. interleave (send_test q) (send_commit q) msgs (one_by_one is) (s, \<lambda>_. BEFORE) = (s', ph)
      \<and> {i \<in> set is. ph i = SUCCEEDED} = set (take (unat (mq_max_msgs (mem s) q) - length (mq_items (mem s) q)) is)
      \<and> mq_items (mem s') q = mq_items (mem s) q
          @ map (\<lambda>i. message_at s q (msgs i)) (take (unat (mq_max_msgs (mem s) q) - length (mq_items (mem s) q)) is))"
proof
  have "send_test q (msgs i) s" if "i \<in> set is" for i
    using assms(3) that assms(4) mq_ok_nonnull [OF assms(1)] by (auto simp: send_test_def messages_def word_less_nat_alt)
  from send.all_at_once_succeed [OF assms(2) this] overfull [OF assms(1,3-7)]
  show "\<exists>s' ph s''. interleave (send_test q) (send_commit q) msgs (all_at_once is) (s, \<lambda>_. BEFORE) = (s', ph)
      \<and> (\<forall>i\<in>set is. ph i = SUCCEEDED) \<and> unat (mq_count (mem s') q) = length (mq_items (mem s) q) + length is
      \<and> mq_receive s' q c t = (s'', RTOS_OK)
      \<and> bytes_at (mem s'') c (unat (mq_msg_size (mem s) q)) = message_at s q (msgs (is ! (unat (mq_max_msgs (mem s) q) - length (mq_items (mem s) q))))"
    by auto
next
  let ?free = "unat (mq_max_msgs (mem s) q) - length (mq_items (mem s) q)"
  obtain s' ph where run: "calls (\<lambda>msg s. mq_send s q msg 0) msgs is (s, \<lambda>_. BEFORE) = (s', ph)" by (metis prod.exhaust)
  from calls_send [OF assms(1,3,2) run] have r: "mq_items (mem s') q = mq_items (mem s) q @ map (\<lambda>i. message_at s q (msgs i)) (take ?free is)"
    "\<forall>i. ph i = (if i \<in> set (take ?free is) then SUCCEEDED else if i \<in> set is then FAILED else BEFORE)" by auto
  then have "{i \<in> set is. ph i = SUCCEEDED} = set (take ?free is)" by (auto dest: in_set_takeD split: if_splits)
  with send.one_by_one_calls [OF assms(2), of "\<lambda>_. BEFORE" q msgs s 0] run r(1)
  show "\<exists>s' ph. interleave (send_test q) (send_commit q) msgs (one_by_one is) (s, \<lambda>_. BEFORE) = (s', ph)
      \<and> {i \<in> set is. ph i = SUCCEEDED} = set (take ?free is)
      \<and> mq_items (mem s') q = mq_items (mem s) q @ map (\<lambda>i. message_at s q (msgs i)) (take ?free is)" by auto
qed

text \<open>One message waits in a queue of two, and two clients send the messages at 100 and 104.\<close>

theorem mq_send_race_witness:
  "\<exists>s s' ph s''. length (mq_items (mem s) 4128) = 1 \<and> mq_max_msgs (mem s) 4128 = 2
     \<and> interleave (send_test 4128) (send_commit 4128) (\<lambda>i. 100 + 4 * i) [0, 1, 0, 1] (s, \<lambda>_. BEFORE) = (s', ph)
     \<and> ph 0 = SUCCEEDED \<and> ph 1 = SUCCEEDED \<and> unat (mq_count (mem s') 4128) = 3
     \<and> mq_receive s' 4128 108 0 = (s'', RTOS_OK) \<and> bytes_at (mem s'') 108 4 = bytes_at (mem s) 104 4"
proof -
  obtain s0 where s0: "mq_ok s0 4128" "mq_items (mem s0) 4128 = []" "mq_msg_size (mem s0) 4128 = 4"
    "mq_max_msgs (mem s0) 4128 = 2" "heap_memory s0 = 4096" by (rule example_queue)
  have "unat (mq_count (mem s0) 4128) = 0" using arg_cong [OF s0(2), of length] by simp
  then have room: "unat (mq_count (mem s0) 4128) < unat (mq_max_msgs (mem s0) 4128)" using s0(4) by simp
  obtain s where s: "mq_ok s 4128" "mq_items (mem s) 4128 = [bytes_at (mem s0) 100 4]" "mq_msg_size (mem s) 4128 = 4"
    "mq_max_msgs (mem s) 4128 = 2" "heap_memory s = 4096"
    using send_ok [OF s0(1) room, of 100 0] s0 by auto
  have m: "messages s 4128 A" if "\<forall>a\<in>A. 0 < a \<and> a + 4 \<le> 4096" for A
    using that s by (auto simp: messages_def outside_heap_def)
  have len: "length (mq_items (mem s) 4128) = 1" unfolding s(2) by simp
  have "messages s 4128 ((\<lambda>i. 100 + 4 * i) ` set [0, 1])" "messages s 4128 {108}" by (simp_all add: m)
  note race = mq_send_race [of s 4128 "[0, 1]" "\<lambda>i. 100 + 4 * i" 108 0, OF s(1) _ this(1) _ _ _ this(2)]
  have "(all_at_once [0, 1 :: nat]) = [0, 1, 0, 1]" by (simp add: all_at_once_def)
  with conjunct1 [OF race] len s(3,4) have "\<exists>s' ph s''.
      interleave (send_test 4128) (send_commit 4128) (\<lambda>i. 100 + 4 * i) [0, 1, 0, 1] (s, \<lambda>_. BEFORE) = (s', ph)
      \<and> (\<forall>i\<in>set [0, 1]. ph i = SUCCEEDED) \<and> unat (mq_count (mem s') 4128) = 3
      \<and> mq_receive s' 4128 108 0 = (s'', RTOS_OK) \<and> bytes_at (mem s'') 108 4 = bytes_at (mem s) 104 4"
    by (simp add: message_at_def numeral_3_eq_3 del: interleave.simps)
  then show ?thesis using len s(4) by (auto simp del: interleave.simps)
qed

section \<open>Receiving from a queue\<close>

definition receive_test :: "addr \<Rightarrow> addr \<Rightarrow> heap_state \<Rightarrow> bool" where
  "receive_test mq msg s \<longleftrightarrow> mq \<noteq> NULL \<and> msg \<noteq> NULL \<and> mq_count (mem s) mq \<noteq> 0"

definition receive_commit :: "addr \<Rightarrow> addr \<Rightarrow> heap_state \<Rightarrow> heap_state" where
  "receive_commit mq msg s =
     (let m = mem s;
          m1 = memcpy m msg (mq_buffer m mq + unat (mq_tail m mq * mq_msg_size m mq)) (unat (mq_msg_size m mq));
          m2 = set_mq_tail mq ((mq_tail m1 mq + 1) mod mq_max_msgs m1 mq) m1;
          m3 = set_mq_count mq (mq_count m2 mq - 1) m2
      in s\<lparr>mem := m3\<rparr>)"

interpretation receive: guarded_operation "\<lambda>msg s. mq_receive s mq msg t" "receive_test mq" "receive_commit mq" for mq t
  by unfold_locales (auto simp: mq_receive_def receive_test_def receive_commit_def Let_def)

lemma receive_commit_remove:
  "mq_shape s q \<Longrightarrow> messages s q A \<Longrightarrow> msg \<in> A \<Longrightarrow> receive_commit q msg s = mq_remove s q msg"
  unfolding receive_commit_def by (rule receive_writes) (simp_all add: messages_def)

lemma fold_receive:
  "mq_shape s q \<Longrightarrow> messages s q A \<Longrightarrow> msgs ` set is \<subseteq> A \<Longrightarrow>
   mq_shape (fold (\<lambda>i. receive_commit q (msgs i)) is s) q
   \<and> mq_max_msgs (mem (fold (\<lambda>i. receive_commit q (msgs i)) is s)) q = mq_max_msgs (mem s) q
   \<and> mq_count (mem (fold (\<lambda>i. receive_commit q (msgs i)) is s)) q = mq_count (mem s) q - of_nat (length is)"
proof (induction "is" arbitrary: s)
  case (Cons i "is")
  then have i: "msgs i \<in> A" by simp
  then have "outside_heap s (msgs i) (unat (mq_msg_size (mem s) q))" using Cons.prems(2) by (simp add: messages_def)
  note e = remove_effect [OF Cons.prems(1) this]
  have "messages (mq_remove s q (msgs i)) q A" using Cons.prems(2) e(4,11) by (simp add: messages_def outside_heap_def)
  from Cons.IH [OF e(1) this] Cons.prems(3) receive_commit_remove [OF Cons.prems(1,2) i] e(5,7)
  show ?case by (simp add: algebra_simps)
qed simp

text \<open>More receivers than messages: all succeed, the count wraps, and from then on the queue, which is
  empty, counts as full: no message can be sent.\<close>

lemma mq_receive_race:
  assumes "mq_ok s q" and "distinct is" and "messages s q (msgs ` set is)" and "mq_items (mem s) q \<noteq> []"
    and "length (mq_items (mem s) q) < length is" and "length is \<le> HEAP_SIZE"
  obtains s' ph where "interleave (receive_test q) (receive_commit q) msgs (all_at_once is) (s, \<lambda>_. BEFORE) = (s', ph)"
    and "\<forall>i\<in>set is. ph i = SUCCEEDED"
    and "unat (mq_count (mem s') q) = 2 ^ 64 + length (mq_items (mem s) q) - length is"
    and "\<forall>msg t. msg \<noteq> NULL \<longrightarrow> mq_send s' q msg t = (s', RTOS_ERROR_BUSY)"
proof -
  let ?s' = "fold (\<lambda>i. receive_commit q (msgs i)) is s" and ?c = "mq_count (mem s) q"
  note f = fold_receive [OF mq_ok_shape [OF assms(1)] assms(3) order_refl]
  have c: "0 < unat ?c" "unat ?c < length is" using assms(4,5) by (auto simp flip: length_greater_0_conv)
  have test: "receive_test q (msgs i) s" if "i \<in> set is" for i
    using assms(3) that c(1) mq_ok_nonnull [OF assms(1)] by (auto simp: receive_test_def messages_def)
  have cnt: "unat (mq_count (mem ?s') q) = 2 ^ 64 + unat ?c - length is"
    using f c assms(6) by (simp add: unat_sub_if' unat_of_nat HEAP_SIZE_def)
  have "unat (mq_max_msgs (mem ?s') q) \<le> unat (mq_count (mem ?s') q)"
    using f cnt mq_max_small [OF assms(1)] c assms(6) by (simp add: HEAP_SIZE_def)
  then have "\<forall>msg t. msg \<noteq> NULL \<longrightarrow> mq_send ?s' q msg t = (?s', RTOS_ERROR_BUSY)"
    using mq_ok_nonnull [OF assms(1)] by (simp add: mq_send_def word_le_nat_alt)
  with that receive.all_at_once_succeed [OF assms(2) test] cnt show thesis by simp
qed

end
