(* ===== verification/Uart_System.thy ===== *)
theory Uart_System imports Uart_Props Heap_Population begin

text \<open>
  The UART driver as a component of the system in the sense of \<open>heap_user\<close> (interpretation \<open>ports\<close>):
  its state are the four instances, it owns the buffers of the open ones, and what clients
  observe of a port are its instance and the bytes waiting for transmission.
\<close>

section \<open>The steps\<close>

definition driver :: "heap_state \<Rightarrow> (nat \<Rightarrow> uart_handle) \<Rightarrow> uart_state" where
  "driver h P = \<lparr>uheap = h, uart_instances = P\<rparr>"

lemma driver_simps [simp]: "uheap (driver h P) = h" "uart_instances (driver h P) = P"
  by (simp_all add: driver_def)

lemma driver_eq: "s = driver h P \<longleftrightarrow> uheap s = h \<and> uart_instances s = P"
  by (cases s) (auto simp: driver_def)

text \<open>A handle of port \<open>u\<close>: a client holds a null pointer or what \<^verbatim>\<open>uart_init\<close> returned.\<close>

definition handle_of :: "nat \<Rightarrow> nat option \<Rightarrow> bool" where
  "handle_of u uart \<longleftrightarrow> u < MAX_UART_INSTANCES \<and> (uart = None \<or> uart = Some u)"

inductive port_step ::
    "(addr \<Rightarrow> nat \<Rightarrow> addr \<Rightarrow> uart_state \<Rightarrow> uart_state) \<Rightarrow> heap_state \<times> (nat \<Rightarrow> uart_handle) \<Rightarrow> nat \<Rightarrow>
     heap_state \<times> (nat \<Rightarrow> uart_handle) \<Rightarrow> bool" for call where
  init: "uart_init (driver h P) uid config = Some (driver h' P', r) \<Longrightarrow> port_step call (h, P) (unat uid) (h', P')"
| deinit: "handle_of u uart \<Longrightarrow> uart_deinit (driver h P) uart = Some (driver h' P', r) \<Longrightarrow> port_step call (h, P) u (h', P')"
| send: "handle_of u uart \<Longrightarrow> client_bytes (driver h P) data (unat len) \<Longrightarrow>
    uart_write call (driver h P) uart data len = (driver h' P', r) \<Longrightarrow> port_step call (h, P) u (h', P')"
| read: "handle_of u uart \<Longrightarrow> uart_read (driver h P) uart buf len got = (driver h' P', r) \<Longrightarrow> port_step call (h, P) u (h', P')"
| write_dma: "handle_of u uart \<Longrightarrow> uart_write_dma (driver h P) uart data len = (driver h' P', r) \<Longrightarrow>
    port_step call (h, P) u (h', P')"
| flush: "handle_of u uart \<Longrightarrow> uart_flush (driver h P) uart = (driver h' P', r) \<Longrightarrow> port_step call (h, P) u (h', P')"
| set_callback: "handle_of u uart \<Longrightarrow> uart_set_callback (driver h P) uart cb d = (driver h' P', r) \<Longrightarrow>
    port_step call (h, P) u (h', P')"
| irq: "uart_irq_handler (driver h P) uid = driver h' P' \<Longrightarrow> port_step call (h, P) (unat uid) (h', P')"

inductive_cases port_stepE: "port_step call (h, P) u (h', P')"

lemmas port_step_cases = port_stepE
  [consumes 1, case_names init deinit send read write_dma flush set_callback irq]

section \<open>Their effect\<close>

text \<open>A step on port \<open>u\<close> leaves the other instances alone, and of the heap it touches what a component
  that owns the buffers of \<open>u\<close> may touch.\<close>

definition port_effect :: "heap_state \<Rightarrow> (nat \<Rightarrow> uart_handle) \<Rightarrow> nat \<Rightarrow> heap_state \<Rightarrow> (nat \<Rightarrow> uart_handle) \<Rightarrow> bool" where
  "port_effect h P u h' P' \<longleftrightarrow> h' = h \<and> P' = P \<or> u < MAX_UART_INSTANCES \<and> (\<forall>v. v \<noteq> u \<longrightarrow> P' v = P v)
     \<and> effect h (uart_bufs (P u)) h' (uart_bufs (P' u))"

lemma port_effectI:
  "u < MAX_UART_INSTANCES \<Longrightarrow> s' = upd_uart u f (s\<lparr>uheap := h'\<rparr>) \<Longrightarrow>
   effect (uheap s) (uart_bufs (uart_instances s u)) h' (uart_bufs (f (uart_instances s u))) \<Longrightarrow>
   port_effect (uheap s) (uart_instances s) u (uheap s') (uart_instances s')"
  by (simp add: port_effect_def upd_uart_def)

lemma port_same: "port_effect h P u h P"
  by (simp add: port_effect_def)

lemma init_effect:
  assumes inv: "uart_inv s" and run: "uart_init s uid config = Some (s', r)"
  shows "port_effect (uheap s) (uart_instances s) (unat uid) (uheap s') (uart_instances s')"
proof (cases "config = None \<or> MAX_UART_INSTANCES \<le> unat uid \<or> uart_initialized (uart_instances s (unat uid))")
  case True
  from uart_init_again [OF this] run have "s' = s" by auto
  then show ?thesis by (simp add: port_same)
next
  case False
  then obtain cfg where cfg: "config = Some cfg" and u: "unat uid < MAX_UART_INSTANCES"
    and closed: "\<not> uart_initialized (uart_instances s (unat uid))" by auto
  have hinv: "heap_inv (uheap s)" using inv by (simp add: uart_inv_def)
  have old: "uart_bufs (uart_instances s (unat uid)) = {}" using closed by (simp add: uart_bufs_def)
  show ?thesis
  proof (cases rule: uart_init_cases [OF hinv u closed, of cfg])
    case (1 h hd)
    with run cfg have s': "s' = upd_uart (unat uid) (\<lambda>_. hd) (s\<lparr>uheap := h\<rparr>)" by simp
    show ?thesis
      by (rule port_effectI [OF u s']) (use 1(2) effect_none [OF 1(3), of "{}"] old in \<open>simp add: uart_bufs_def\<close>)
  next
    case (2 h p q i j)
    from run cfg 2(1) obtain hd where s': "s' = upd_uart (unat uid) (\<lambda>_. hd) (s\<lparr>uheap := h\<rparr>)" "uart_bufs hd = {p, q}"
      by (auto simp: uart_bufs_def)
    have "effect (uheap s) {} h ({} \<union> {p, q})" by (rule effect_take [OF 2(2)]) (use 2(3,4,8) in auto)
    then show ?thesis by (intro port_effectI [OF u s'(1)]) (simp add: old s'(2))
  qed
qed

lemma deinit_effect:
  assumes inv: "uart_inv s" and u: "handle_of u uart" and run: "uart_deinit s uart = Some (s', r)"
  shows "port_effect (uheap s) (uart_instances s) u (uheap s') (uart_instances s')"
proof (cases "uart_ready s uart")
  case False
  with run show ?thesis by (simp add: uart_deinit_def port_same)
next
  case True
  with u have v: "u < MAX_UART_INSTANCES" "uart = Some u" "uart_initialized (uart_instances s u)"
    by (auto simp: handle_of_def uart_ready_def)
  from uart_deinit_state [OF inv v(1,3)] run v(2) obtain h hd where
    s': "s' = upd_uart u (\<lambda>_. hd) (s\<lparr>uheap := h\<rparr>)" and h: "\<not> uart_initialized hd" "touches (uheap s) h (uart_bufs (uart_instances s u))"
      "heap_live h = (heap_live (uheap s))(cb_buffer (rx_buffer (uart_instances s u)) := None,
                                    cb_buffer (tx_buffer (uart_instances s u)) := None)" by auto
  have "effect (uheap s) (uart_bufs (uart_instances s u)) h (uart_bufs (uart_instances s u) - uart_bufs (uart_instances s u))"
    by (rule effect_give [OF h(2)]) (use v(3) in \<open>auto simp: h(3) uart_bufs_def\<close>)
  then show ?thesis by (intro port_effectI [OF v(1) s']) (simp add: uart_bufs_def h(1))
qed

lemma send_effect:
  assumes inv: "uart_inv s" and u: "handle_of u uart" and data: "client_bytes s data (unat len)"
    and run: "uart_write call s uart data len = (s', r)"
  shows "port_effect (uheap s) (uart_instances s) u (uheap s') (uart_instances s')"
proof (cases "\<not> uart_ready s uart \<or> data = NULL \<or> len = 0")
  case True
  with run have "s' = s" by (auto simp: uart_write_def)
  then show ?thesis by (simp add: port_same)
next
  case False
  with u have v: "u < MAX_UART_INSTANCES" "uart = Some u" "uart_initialized (uart_instances s u)" "data \<noteq> NULL" "0 < unat len"
    by (auto simp: handle_of_def uart_ready_def unat_gt_0)
  let ?tx = "cb_buffer (tx_buffer (uart_instances s u))"
  from uart_write_state [OF inv v(1,3,4) data v(5), of call] run v(2) have w: "others_kept (uheap s) (uheap s') {?tx}"
    "uart_bufs (uart_instances s' u) = uart_bufs (uart_instances s u)" "\<forall>v. v \<noteq> u \<longrightarrow> uart_instances s' v = uart_instances s v"
    by auto
  have tx: "?tx \<in> uart_bufs (uart_instances s u)" using v(3) by (simp add: uart_bufs_def)
  have "heap_live (uheap s') ?tx \<noteq> None"
    using uart_open_live [OF uart_invD [OF inv v(1,3)] tx] w(1) by (simp add: others_kept_def)
  then have "effect (uheap s) (uart_bufs (uart_instances s u)) (uheap s') (uart_bufs (uart_instances s u))"
    using tx by (intro effect_use [OF others_kept_touches [OF w(1)]]) auto
  with w(2,3) v(1) show ?thesis by (simp add: port_effect_def)
qed

text \<open>Operations that change an instance only, and not its buffers.\<close>

lemma instance_effect:
  assumes "uart_inv s" and "handle_of u uart" and "s' = s \<or> uart = Some u \<and> s' = upd_uart u f s"
    and "uart_bufs (f (uart_instances s u)) = uart_bufs (uart_instances s u)"
  shows "port_effect (uheap s) (uart_instances s) u (uheap s') (uart_instances s')"
proof (cases "s' = s")
  case False
  then have "s' = upd_uart u f (s\<lparr>uheap := uheap s\<rparr>)" using assms(3) by simp
  then show ?thesis
    by (rule port_effectI [rotated]) (use assms in \<open>simp_all add: handle_of_def uart_inv_def effect_refl\<close>)
qed (simp add: port_same)

lemma flush_effect:
  assumes "uart_inv s" and "handle_of u uart" and "uart_flush s uart = (s', r)"
  shows "port_effect (uheap s) (uart_instances s) u (uheap s') (uart_instances s')"
  by (rule instance_effect [OF assms(1,2), where f = "\<lambda>h. h\<lparr>rx_buffer := circ_buf_flush (rx_buffer h),
        tx_buffer := circ_buf_flush (tx_buffer h)\<rparr>"])
    (use assms(2,3) in \<open>auto simp: uart_flush_def handle_of_def uart_ready_def uart_bufs_def circ_buf_flush_def split: if_splits\<close>)

lemma callback_effect:
  assumes "uart_inv s" and "handle_of u uart" and "uart_set_callback s uart cb d = (s', r)"
  shows "port_effect (uheap s) (uart_instances s) u (uheap s') (uart_instances s')"
  by (rule instance_effect [OF assms(1,2), where f = "\<lambda>h. h\<lparr>rx_callback := cb, rx_callback_data := d\<rparr>"])
    (use assms(2,3) in \<open>auto simp: uart_set_callback_def handle_of_def uart_ready_def uart_bufs_def split: if_splits\<close>)

lemma handle_index: "handle_of u uart \<Longrightarrow> uart = Some v \<Longrightarrow> v < MAX_UART_INSTANCES"
  by (auto simp: handle_of_def)

lemma port_step_ok:
  assumes st: "port_step call (h, P) u (h', P')" and inv: "uart_inv (driver h P)"
  shows "uart_inv (driver h' P') \<and> port_effect h P u h' P'"
  using st
proof (cases rule: port_step_cases)
  case (init uid config r)
  with uart_init_step [OF inv init(2)] init_effect [OF inv init(2)] show ?thesis by simp
next
  case (deinit uart r)
  with uart_deinit_step [OF inv handle_index [OF deinit(1)] deinit(2)] deinit_effect [OF inv deinit] show ?thesis by simp
next
  case (send uart data len r)
  with uart_send_step [OF inv handle_index [OF send(1)] send(2,3)] send_effect [OF inv send] show ?thesis by simp
next
  case (read uart buf len got r)
  from uart_read_same [OF inv handle_index [OF read(1)] read(2)] inv show ?thesis by (simp add: driver_eq port_same)
next
  case (write_dma uart data len r)
  from uart_write_dma_state [of "driver h P" uart data len, OF inv handle_index [OF write_dma(1)]] write_dma(2) inv
  show ?thesis by (simp add: driver_eq port_same)
next
  case (flush uart r)
  with uart_flush_step [OF inv handle_index [OF flush(1)] flush(2)] flush_effect [OF inv flush] show ?thesis by simp
next
  case (set_callback uart cb d r)
  with uart_callback_step [OF inv handle_index [OF set_callback(1)] set_callback(2)] callback_effect [OF inv set_callback]
  show ?thesis by simp
next
  case (irq uid)
  with inv show ?thesis by (simp add: driver_eq port_same)
qed

section \<open>The driver as a component\<close>

definition port_view :: "heap_state \<Rightarrow> (nat \<Rightarrow> uart_handle) \<Rightarrow> nat \<Rightarrow> (uart_handle \<times> u8 list) option" where
  "port_view h P u =
     (if u < MAX_UART_INSTANCES \<and> uart_initialized (P u) then Some (P u, tx_items (driver h P) u) else None)"

definition ports_inv :: "heap_state \<Rightarrow> (nat \<Rightarrow> uart_handle) \<Rightarrow> bool" where
  "ports_inv h P \<longleftrightarrow> uart_inv (driver h P)"

definition ports_owned :: "heap_state \<Rightarrow> (nat \<Rightarrow> uart_handle) \<Rightarrow> addr set" where
  "ports_owned h P = uart_owns (driver h P)"

definition ports_closed :: "(nat \<Rightarrow> uart_handle) \<Rightarrow> bool" where
  "ports_closed P \<longleftrightarrow> (\<forall>u<MAX_UART_INSTANCES. \<not> uart_initialized (P u))"

definition other_bufs :: "(nat \<Rightarrow> uart_handle) \<Rightarrow> nat \<Rightarrow> addr set" where
  "other_bufs P u = (\<Union>v\<in>{..<MAX_UART_INSTANCES} - {u}. uart_bufs (P v))"

lemma owned_union: "u < MAX_UART_INSTANCES \<Longrightarrow> ports_owned h P = uart_bufs (P u) \<union> other_bufs P u"
  by (auto simp: ports_owned_def uart_owns_def other_bufs_def)

lemma owned_split:
  assumes "ports_inv h P" and "u < MAX_UART_INSTANCES"
  shows "ports_owned h P = uart_bufs (P u) \<union> other_bufs P u" and "uart_bufs (P u) \<inter> other_bufs P u = {}"
proof -
  show "ports_owned h P = uart_bufs (P u) \<union> other_bufs P u"
    by (rule owned_union [OF assms(2)])
  have "uart_bufs (P u) \<inter> uart_bufs (P v) = {}" if "v < MAX_UART_INSTANCES" "v \<noteq> u" for v
    using assms that by (auto simp: ports_inv_def uart_inv_def)
  then show "uart_bufs (P u) \<inter> other_bufs P u = {}" by (auto simp: other_bufs_def)
qed

lemma ports_owned_live: "ports_inv h P \<Longrightarrow> ports_owned h P \<subseteq> dom (heap_live h)"
  using uart_owns_live [of "driver h P"] by (auto simp: ports_inv_def ports_owned_def)

lemma port_view_kept:
  assumes "ports_inv h P" and "touches h h' W" and "port_view h P v = Some x" and "W \<inter> uart_bufs (P v) = {}" and "P' v = P v"
  shows "port_view h' P' v = Some x"
proof -
  have v: "v < MAX_UART_INSTANCES" "uart_initialized (P v)" "x = (P v, tx_items (driver h P) v)"
    using assms(3) by (auto simp: port_view_def split: if_splits)
  have "cb_items (mem h') (tx_buffer (P v)) = tx_items (driver h P) v"
    using tx_items_kept [of "driver h P" v h' W] assms(1,2,4) v by (simp add: ports_inv_def)
  with v assms(5) show ?thesis by (simp add: port_view_def tx_items_def)
qed

lemma port_effect_owned:
  assumes "ports_inv h P" and "port_effect h P u h' P'"
  shows "effect h (ports_owned h P) h' (ports_owned h' P')"
    and "port_view h P v = Some x \<Longrightarrow> v \<noteq> u \<Longrightarrow> port_view h' P' v = Some x"
proof -
  have "effect h (ports_owned h P) h' (ports_owned h' P')
    \<and> (port_view h P v = Some x \<longrightarrow> v \<noteq> u \<longrightarrow> port_view h' P' v = Some x)"
  proof (cases "h' = h \<and> P' = P")
    case True
    with assms(1) show ?thesis by (auto simp: ports_inv_def uart_inv_def intro: effect_refl)
  next
    case False
    with assms(2) have e: "u < MAX_UART_INSTANCES" "\<forall>v. v \<noteq> u \<longrightarrow> P' v = P v"
      "effect h (uart_bufs (P u)) h' (uart_bufs (P' u))" by (auto simp: port_effect_def)
    note sp = owned_split [OF assms(1) e(1)]
    have live: "other_bufs P u \<subseteq> dom (heap_live h)" using ports_owned_live [OF assms(1)] sp(1) by blast
    have "other_bufs P' u = other_bufs P u" using e(2) by (simp add: other_bufs_def)
    then have "ports_owned h' P' = uart_bufs (P' u) \<union> other_bufs P u" using owned_union [OF e(1)] by simp
    then have own: "effect h (ports_owned h P) h' (ports_owned h' P')"
      using effect_frame(1) [OF e(3) live sp(2)] sp(1) by simp
    obtain W where W: "touches h h' W" "W \<inter> other_bufs P u = {}" by (rule effect_touches [OF e(3) live sp(2)])
    have "port_view h' P' v = Some x" if "port_view h P v = Some x" "v \<noteq> u"
    proof (rule port_view_kept [OF assms(1) W(1) that(1)])
      show "W \<inter> uart_bufs (P v) = {}" using W(2) that by (auto simp: other_bufs_def port_view_def split: if_splits)
    qed (use e(2) that in simp)
    with own show ?thesis by blast
  qed
  then show "effect h (ports_owned h P) h' (ports_owned h' P')"
    "port_view h P v = Some x \<Longrightarrow> v \<noteq> u \<Longrightarrow> port_view h' P' v = Some x" by blast+
qed

lemma ports_stable:
  assumes inv: "ports_inv h P" and t: "touches h h' W" and apart: "W \<inter> ports_owned h P = {}"
  shows "ports_inv h' P \<and> ports_owned h' P = ports_owned h P \<and> port_view h' P = port_view h P"
proof (intro conjI ext)
  have "(driver h P)\<lparr>uheap := h'\<rparr> = driver h' P" by (simp add: driver_def)
  with uart_heap_step [of "driver h P" h' W] assms show "ports_inv h' P" by (simp add: ports_inv_def ports_owned_def)
  show "ports_owned h' P = ports_owned h P" by (simp add: ports_owned_def uart_owns_def)
  show "port_view h' P u = port_view h P u" for u
  proof (cases "port_view h P u")
    case None
    then show ?thesis by (auto simp: port_view_def split: if_splits)
  next
    case (Some x)
    then have "u < MAX_UART_INSTANCES" by (auto simp: port_view_def split: if_splits)
    then have "W \<inter> uart_bufs (P u) = {}" using apart owned_split(1) [OF inv] by blast
    from port_view_kept [where P' = P, OF inv t Some this refl] Some show ?thesis by simp
  qed
qed

lemma port_close:
  fixes call :: "addr \<Rightarrow> nat \<Rightarrow> addr \<Rightarrow> uart_state \<Rightarrow> uart_state"
  assumes inv: "ports_inv h P" and u: "u < MAX_UART_INSTANCES" "uart_initialized (P u)"
  obtains h' P' where "port_step call (h, P) u (h', P')" and "ports_inv h' P'" and "\<not> uart_initialized (P' u)"
    and "\<forall>v. v \<noteq> u \<longrightarrow> P' v = P v"
proof -
  have "uart_inv (driver h P)" using inv by (simp add: ports_inv_def)
  from uart_deinit_state [OF this, of u] u obtain h' hd where
    d: "uart_deinit (driver h P) (Some u) = Some (upd_uart u (\<lambda>_. hd) ((driver h P)\<lparr>uheap := h'\<rparr>), RTOS_OK)"
    and hd: "\<not> uart_initialized hd" by auto
  have eq: "upd_uart u (\<lambda>_. hd) ((driver h P)\<lparr>uheap := h'\<rparr>) = driver h' (P(u := hd))"
    by (simp add: upd_uart_def driver_def)
  have st: "port_step call (h, P) u (h', P(u := hd))"
    by (rule port_step.deinit [of u "Some u"]) (use u d in \<open>simp_all add: handle_of_def eq\<close>)
  from that [OF st] port_step_ok [OF st] inv hd show thesis by (simp add: ports_inv_def)
qed

definition port_part :: "heap_state \<Rightarrow> (nat \<Rightarrow> uart_handle) \<Rightarrow> nat \<Rightarrow> addr set" where
  "port_part h P u = (if u < MAX_UART_INSTANCES then uart_bufs (P u) else {})"

interpretation ports: heap_user ports_inv ports_owned port_part port_view "port_step call" ports_closed for call
proof
  fix h h' :: heap_state and P P' :: "nat \<Rightarrow> uart_handle" and u v W x p
  show "ports_inv h P \<Longrightarrow> heap_inv h" by (simp add: ports_inv_def uart_inv_def)
  show "ports_inv h P \<Longrightarrow> ports_owned h P \<subseteq> dom (heap_live h)" by (rule ports_owned_live)
  show "ports_owned h P = (\<Union>u. port_part h P u)" by (auto simp: ports_owned_def uart_owns_def port_part_def split: if_splits)
  show "ports_inv h P \<Longrightarrow> p \<in> port_part h P u \<Longrightarrow> p \<in> port_part h P v \<Longrightarrow> u = v"
    by (auto simp: ports_inv_def uart_inv_def port_part_def split: if_splits)
  show "ports_inv h P \<Longrightarrow> touches h h' W \<Longrightarrow> W \<inter> ports_owned h P = {} \<Longrightarrow>
      ports_inv h' P \<and> ports_owned h' P = ports_owned h P \<and> port_view h' P = port_view h P" by (rule ports_stable)
  show "port_step call (h, P) u (h', P') \<Longrightarrow> ports_inv h P \<Longrightarrow> ports_inv h' P'"
    and "port_step call (h, P) u (h', P') \<Longrightarrow> ports_inv h P \<Longrightarrow> effect h (ports_owned h P) h' (ports_owned h' P')"
    and "port_step call (h, P) u (h', P') \<Longrightarrow> ports_inv h P \<Longrightarrow> port_view h P v = Some x \<Longrightarrow> v \<noteq> u \<Longrightarrow>
      port_view h' P' v = Some x"
    using port_step_ok [of call h P u h' P'] port_effect_owned [of h P u h' P'] by (auto simp: ports_inv_def)
  show "ports_closed P \<Longrightarrow> heap_inv h \<Longrightarrow> ports_inv h P \<and> ports_owned h P = {}"
    by (auto simp: ports_closed_def ports_inv_def ports_owned_def uart_inv_def uart_owns_def uart_bufs_def)
  show "\<exists>h' P'. (\<lambda>s t. \<exists>u. port_step call s u t)\<^sup>*\<^sup>* (h, P) (h', P') \<and> ports_closed P'" if "ports_inv h P"
  proof (rule drain_by [where load = "\<lambda>P. card {u. u < MAX_UART_INSTANCES \<and> uart_initialized (P u)}" and good = ports_inv, OF _ that])
    fix h :: heap_state and P :: "nat \<Rightarrow> uart_handle"
    assume inv: "ports_inv h P" and "\<not> ports_closed P"
    then obtain u where u: "u < MAX_UART_INSTANCES" "uart_initialized (P u)" by (auto simp: ports_closed_def)
    obtain h' P' where st: "port_step call (h, P) u (h', P')" "ports_inv h' P'" "\<not> uart_initialized (P' u)" "\<forall>v. v \<noteq> u \<longrightarrow> P' v = P v"
      by (rule port_close [where call = call, OF inv u])
    have sub: "{v. v < MAX_UART_INSTANCES \<and> uart_initialized (P' v)} \<subseteq> {v. v < MAX_UART_INSTANCES \<and> uart_initialized (P v)}"
      using st(3,4) by (metis (mono_tags, lifting) Collect_mono_iff)
    have "card {v. v < MAX_UART_INSTANCES \<and> uart_initialized (P' v)} < card {v. v < MAX_UART_INSTANCES \<and> uart_initialized (P v)}"
      by (rule psubset_card_mono) (use sub u st(3) in auto)
    with st show "\<exists>n h' P'. port_step call (h, P) n (h', P') \<and> ports_inv h' P'
      \<and> card {v. v < MAX_UART_INSTANCES \<and> uart_initialized (P' v)} < card {v. v < MAX_UART_INSTANCES \<and> uart_initialized (P v)}" by blast
  qed
qed

end
