(* ===== verification/Pool_System.thy ===== *)
theory Pool_System imports Pool_Props Heap_Population begin

text \<open>
  The memory pools as a component of the system in the sense of \<open>heap_user\<close> (interpretation
  \<open>pools\<close>). A pool structure is a variable of the program, named by its address; a pool owns the
  region of its blocks and its bitmap, and what clients observe is its structure, which of its
  blocks are free, and the bytes of the blocks.
\<close>

section \<open>Pools as objects\<close>

fun pool_member_ok :: "heap_state \<Rightarrow> addr \<times> memory_pool \<Rightarrow> bool" where
  "pool_member_ok h (a, p) = pool_ok h p"

fun pool_owns :: "memory \<Rightarrow> addr \<times> memory_pool \<Rightarrow> addr set" where
  "pool_owns m (a, p) = {pool_start p, free_list_bitmap p}"

definition pool_bytes :: "memory \<Rightarrow> memory_pool \<Rightarrow> u8 list" where
  "pool_bytes m p = bytes_at m (pool_start p) (unat (block_size p) * unat (num_blocks p))"

fun pool_state :: "memory \<Rightarrow> addr \<times> memory_pool \<Rightarrow> memory_pool \<times> nat set \<times> u8 list" where
  "pool_state m (a, p) = (p, pool_free_set m p, pool_bytes m p)"

lemma pool_same:
  assumes ok: "pool_ok h p" and inv: "heap_inv h'" and same: "block_same h h' (pool_start p)" "block_same h h' (free_list_bitmap p)"
  shows "pool_ok h' p \<and> pool_free_set (mem h') p = pool_free_set (mem h) p \<and> pool_bytes (mem h') p = pool_bytes (mem h) p"
proof -
  from ok obtain l where l: "heap_live h (free_list_bitmap p) = Some l" "unat (num_blocks p) \<le> 8 * l" by (auto simp: pool_ok_def)
  have "pool_test (mem h') (free_list_bitmap p) i = pool_test (mem h) (free_list_bitmap p) i" if "i < unat (num_blocks p)" for i
  proof (rule pool_test_cong)
    have "i div 8 < l" using that l(2) by linarith
    then show "mem h' (free_list_bitmap p + i div 8) = mem h (free_list_bitmap p + i div 8)"
      using block_same_bytes [OF same(2) l(1)] by simp
  qed
  then have free: "pool_free_set (mem h') p = pool_free_set (mem h) p" by (auto simp: pool_free_set_def)
  from ok obtain k where k: "heap_live h (pool_start p) = Some k" "unat (block_size p) * unat (num_blocks p) \<le> k"
    by (auto simp: pool_ok_def)
  have "mem h' (pool_start p + i) = mem h (pool_start p + i)" if "i < unat (block_size p) * unat (num_blocks p)" for i
    using block_same_bytes [OF same(1) k(1)] that k(2) by simp
  then have "pool_bytes (mem h') p = pool_bytes (mem h) p" by (simp add: pool_bytes_def bytes_at_eq_iff)
  with free ok inv same show ?thesis by (simp add: pool_ok_def block_same_def)
qed

interpretation pool: heap_object pool_member_ok pool_owns pool_state
proof
  fix h h' :: heap_state and x p
  show "pool_member_ok h x \<Longrightarrow> p \<in> pool_owns (mem h) x \<Longrightarrow> heap_live h p \<noteq> None"
    by (cases x) (auto simp: pool_ok_def)
  show "pool_member_ok h x \<Longrightarrow> heap_inv h' \<Longrightarrow> \<forall>p\<in>pool_owns (mem h) x. block_same h h' p \<Longrightarrow>
      pool_member_ok h' x \<and> pool_owns (mem h') x = pool_owns (mem h) x \<and> pool_state (mem h') x = pool_state (mem h) x"
    using pool_same [of h _ h'] by (cases x) auto
qed

section \<open>What the operations touch\<close>

lemma pair_touches:
  assumes inv: "heap_inv h" and run: "heap.alloc_pair h n k = Some (h', r)"
  shows "case r of None \<Rightarrow> touches h h' {}
    | Some (p, q) \<Rightarrow> touches h h' {p, q} \<and> heap_live h p = None \<and> heap_live h q = None"
proof (cases rule: heap.malloc_cases [OF inv, of n])
  case 1
  with run inv show ?thesis by (auto simp: heap.alloc_pair_def touches_refl)
next
  case first: (2 s1 p i)
  note t1 = malloc_touches [OF first(1) inv]
  show ?thesis
  proof (cases rule: heap.malloc_cases [OF first(6), of k])
    case 1
    have "heap_live s1 p = Some i" using first(4) by simp
    from heap.free_live [OF first(6) this] obtain s3 where s3: "rtos_free s1 p = Some s3" by blast
    note f = free_touches [OF s3 first(6) \<open>heap_live s1 p = Some i\<close>]
    have "touches h s3 {}"
      using touches_trans [OF t1 f(1)] by (rule touches_back) (use first(3) f(2) in auto)
    with run first(1,2) 1 s3 show ?thesis by (auto simp: heap.alloc_pair_def)
  next
    case (2 s2 q j)
    have "heap_live h q = None" using 2(3) first(4) by (auto split: if_splits)
    with run first(1-3) 2(1,2) touches_trans [OF t1 malloc_touches [OF 2(1) first(6)]] show ?thesis
      by (auto simp: heap.alloc_pair_def insert_commute)
  qed
qed

text \<open>No overflow in the size of the region and of the bitmap.\<close>

definition pool_fits :: "size_t \<Rightarrow> size_t \<Rightarrow> bool" where
  "pool_fits bs n \<longleftrightarrow> unat bs \<le> 2 ^ 64 - 4 \<and> unat n \<le> 2 ^ 64 - 8 \<and> (unat bs + 3) div 4 * 4 * unat n \<le> 2 ^ 64 - 4"

lemma pool_create_touches:
  assumes inv: "heap_inv h" and fits: "pool_fits bs n"
    and run: "memory_pool_create h (Some p0) bs n = Some (h', Some p', r)"
  shows "if r = RTOS_OK
    then pool_ok h' p' \<and> touches h h' {pool_start p', free_list_bitmap p'} \<and> heap_live h (pool_start p') = None
      \<and> heap_live h (free_list_bitmap p') = None
    else touches h h' {}"
proof (cases "bs = 0 \<or> n = 0")
  case True
  with run inv show ?thesis by (auto simp: memory_pool_create_def touches_refl)
next
  case False
  then have nz: "bs \<noteq> 0" "n \<noteq> 0" "0 < unat bs" "0 < unat n" by (auto simp: unat_gt_0)
  have size: "unat bs \<le> 2 ^ 64 - 4" "unat n \<le> 2 ^ 64 - 8" "(unat bs + 3) div 4 * 4 * unat n \<le> 2 ^ 64 - 4"
    using fits unfolding pool_fits_def by blast+
  from create_outcome [OF inv nz(3) size(1) nz(4) size(2,3), of p0] run
  have out: "if r = RTOS_OK then pool_ok h' p' else r = RTOS_ERROR_NO_MEMORY" by (auto split: if_splits)
  show ?thesis
  proof (cases rule: heap.alloc_pair_cases [OF inv, of "align_size bs * n" "(n + 7) div 8"])
    case (1 s')
    with pair_touches [OF inv 1(1)] pool_create_none [OF nz(1,2) 1(1), of p0] run show ?thesis by auto
  next
    case (2 s1 a b i j)
    let ?f = "\<lambda>m. memset m b 0xFF (unat ((n + 7) div 8))"
    have h': "h' = heap_store ?f s1" "pool_start p' = a" "free_list_bitmap p' = b" "r = RTOS_OK"
      using pool_create_some [OF nz(1,2) 2(1), of p0] run by auto
    have "inside b j ?f" using 2(10) bitmap_size(2) [OF size(2)] by (auto simp: inside_def frames)
    moreover have "heap_live s1 b = Some j" using 2(6) by simp
    ultimately have "others_kept s1 (heap_store ?f s1) {b}" by (intro block_store [OF 2(2)]) auto
    with pair_touches [OF inv 2(1)] have "touches h h' {a, b}" "heap_live h a = None" "heap_live h b = None"
      using touches_trans [of h s1 "{a, b}" h' "{b}"] others_kept_touches by (auto simp: h'(1) insert_commute)
    with out h' show ?thesis by simp
  qed
qed

text \<open>An operation on a pool keeps its blocks where they are and touches nothing else.\<close>

definition pool_used :: "heap_state \<Rightarrow> memory_pool \<Rightarrow> heap_state \<Rightarrow> memory_pool \<Rightarrow> bool" where
  "pool_used h p h' p' \<longleftrightarrow> pool_ok h' p' \<and> touches h h' {pool_start p, free_list_bitmap p}
     \<and> pool_start p' = pool_start p \<and> free_list_bitmap p' = free_list_bitmap p"

lemma pool_unused: "pool_ok h p \<Longrightarrow> pool_used h p h p"
  by (simp add: pool_used_def pool_ok_def touches_refl)

lemma bitmap_touches:
  assumes "pool_ok h' p'" and "heap_live h' = heap_live h"
    and "\<forall>q k. heap_live h q = Some k \<longrightarrow> q \<noteq> free_list_bitmap p \<longrightarrow> bytes_at (mem h') q k = bytes_at (mem h) q k"
  shows "touches h h' {pool_start p, free_list_bitmap p}"
  using assms others_kept_touches [of h h' "{pool_start p, free_list_bitmap p}"]
  by (auto simp: others_kept_def pool_ok_def)

lemma alloc_fields:
  "memory_pool_alloc h (Some p) = (h', Some p', b) \<Longrightarrow> pool_start p' = pool_start p \<and> free_list_bitmap p' = free_list_bitmap p"
  by (auto simp: memory_pool_alloc_def split: if_splits option.splits)

lemma alloc_used:
  assumes ok: "pool_ok h p" and run: "memory_pool_alloc h (Some p) = (h', Some p', b)"
  shows "pool_used h p h' p'"
proof (cases "pool_free_set (mem h) p = {}")
  case True
  with memory_pool_full [OF ok True] run pool_unused [OF ok] show ?thesis by simp
next
  case False
  from alloc_step [OF ok False] run have "pool_ok h' p'" "heap_live h' = heap_live h"
    "\<forall>q k. heap_live h q = Some k \<longrightarrow> q \<noteq> free_list_bitmap p \<longrightarrow> bytes_at (mem h') q k = bytes_at (mem h) q k" by auto
  with bitmap_touches [OF this] alloc_fields [OF run] show ?thesis by (simp add: pool_used_def)
qed

lemma free_fields:
  "memory_pool_free h (Some p) ptr = Some (h', Some p', r) \<Longrightarrow> pool_start p' = pool_start p \<and> free_list_bitmap p' = free_list_bitmap p"
  by (auto simp: memory_pool_free_def Let_def split: if_splits)

lemma free_used_by:
  assumes ok: "pool_ok h p" and ptr: "ptr < 2 ^ 64" and run: "memory_pool_free h (Some p) ptr = Some (h', Some p', r)"
  shows "pool_used h p h' p'"
proof (cases "\<exists>i<unat (num_blocks p). i \<notin> pool_free_set (mem h) p \<and> ptr = block_addr p i \<and> ptr \<noteq> NULL")
  case True
  then obtain i where i: "i < unat (num_blocks p)" "i \<notin> pool_free_set (mem h) p" "ptr = block_addr p i" "0 < ptr" by auto
  from free_used [OF ok i ptr] run have "pool_ok h' p'" "heap_live h' = heap_live h"
    "\<forall>q k. heap_live h q = Some k \<longrightarrow> q \<noteq> free_list_bitmap p \<longrightarrow> bytes_at (mem h') q k = bytes_at (mem h) q k" by auto
  with bitmap_touches [OF this] free_fields [OF run] show ?thesis by (simp add: pool_used_def)
next
  case False
  show ?thesis
  proof (cases "ptr = NULL")
    case True
    with run pool_unused [OF ok] show ?thesis by (simp add: memory_pool_free_def)
  next
    case nz: False
    then have "\<not> (\<exists>i<unat (num_blocks p). i \<notin> pool_free_set (mem h) p \<and> ptr = block_addr p i)" "0 < ptr" using False by auto
    from free_refused [OF ok this(2) ptr this(1)] run pool_unused [OF ok] show ?thesis by simp
  qed
qed

lemma store_used:
  assumes ok: "pool_ok h p" and i: "i < unat (num_blocks p)" and f: "inside (block_addr p i) (unat (block_size p)) f"
  shows "pool_used h p (heap_store f h) p"
proof -
  from ok obtain k l where k: "heap_inv h" "heap_live h (pool_start p) = Some k" "unat (block_size p) * unat (num_blocks p) \<le> k"
    and l: "heap_live h (free_list_bitmap p) = Some l" "unat (num_blocks p) \<le> 8 * l" "pool_start p \<noteq> free_list_bitmap p"
    by (auto simp: pool_ok_def)
  have ins: "inside (pool_start p) k f"
    by (rule inside_mono [OF f]) (use block_offset(2) [OF ok i] k(3) in \<open>auto simp: block_addr_def\<close>)
  from block_store [OF k(1,2) ins, of "{pool_start p}"] have o: "others_kept h (heap_store f h) {pool_start p}" by simp
  then have bm: "block_same h (heap_store f h) (free_list_bitmap p)" using l(3) by (simp add: others_kept_same)
  have "mem (heap_store f h) (free_list_bitmap p + i div 8) = mem h (free_list_bitmap p + i div 8)"
    if "i < unat (num_blocks p)" for i
    by (rule block_same_bytes [OF bm l(1)]) (use that l(2) in linarith)+
  then have "pool_free_set (mem (heap_store f h)) p = pool_free_set (mem h) p"
    using pool_test_cong [of "mem (heap_store f h)" "free_list_bitmap p" _ "mem h"] by (auto simp: pool_free_set_def)
  then have "pool_ok (heap_store f h) p" using ok o by (auto simp: pool_ok_def others_kept_def)
  moreover have "touches h (heap_store f h) {pool_start p, free_list_bitmap p}"
    using others_kept_touches [OF o] by (simp add: touches_def)
  ultimately show ?thesis by (simp add: pool_used_def)
qed

lemma pool_destroy_touches:
  assumes ok: "pool_ok h p"
  obtains h' where "memory_pool_destroy h (Some p) = Some (h', Some no_pool)" and "touches h h' {pool_start p, free_list_bitmap p}"
    and "heap_live h' (pool_start p) = None" and "heap_live h' (free_list_bitmap p) = None"
proof -
  from ok obtain k l where live: "heap_live h (pool_start p) = Some k" "heap_live h (free_list_bitmap p) = Some l"
    and ne: "pool_start p \<noteq> free_list_bitmap p" and inv: "heap_inv h" by (auto simp: pool_ok_def)
  from heap.free_live [OF inv live(1)] obtain s1 where s1: "rtos_free h (pool_start p) = Some s1" by blast
  note f1 = free_touches [OF s1 inv live(1)]
  have l1: "heap_live s1 (free_list_bitmap p) = Some l" using live(2) ne by (simp add: f1(2))
  from heap.free_live [OF touches_inv [OF f1(1)] l1] obtain s2 where s2: "rtos_free s1 (free_list_bitmap p) = Some s2" by blast
  note f2 = free_touches [OF s2 touches_inv [OF f1(1)] l1]
  have "pool_start p \<noteq> NULL" "free_list_bitmap p \<noteq> NULL" using heap.live_range [OF inv live(1)] heap.live_range [OF inv live(2)] by auto
  then have "memory_pool_destroy h (Some p) = Some (s2, Some no_pool)" using s1 s2 by (simp add: memory_pool_destroy_def no_pool_def)
  moreover have "touches h s2 {pool_start p, free_list_bitmap p}" using touches_trans [OF f1(1) f2(1)] by (simp add: insert_commute)
  ultimately show thesis by (rule that) (simp_all add: f1(2) f2(2))
qed

section \<open>The pools as a component\<close>

text \<open>The label is the address of the pool structure. Clients create a pool in a structure that holds
  none, pass pointers of 64 bits, and write only to blocks they have been given.\<close>

inductive pool_step :: "heap_state \<times> (addr \<rightharpoonup> memory_pool) \<Rightarrow> addr \<Rightarrow> heap_state \<times> (addr \<rightharpoonup> memory_pool) \<Rightarrow> bool" where
  pool_created: "ps a = None \<Longrightarrow> pool_fits bs n \<Longrightarrow> memory_pool_create h (Some p0) bs n = Some (h', Some p', r) \<Longrightarrow>
    pool_step (h, ps) a (h', if r = RTOS_OK then ps(a \<mapsto> p') else ps)"
| block_taken: "ps a = Some p \<Longrightarrow> memory_pool_alloc h (Some p) = (h', Some p', b) \<Longrightarrow> pool_step (h, ps) a (h', ps(a \<mapsto> p'))"
| block_freed: "ps a = Some p \<Longrightarrow> ptr < 2 ^ 64 \<Longrightarrow> memory_pool_free h (Some p) ptr = Some (h', Some p', r) \<Longrightarrow>
    pool_step (h, ps) a (h', ps(a \<mapsto> p'))"
| block_written: "ps a = Some p \<Longrightarrow> i < unat (num_blocks p) \<Longrightarrow> i \<notin> pool_free_set (mem h) p \<Longrightarrow>
    inside (block_addr p i) (unat (block_size p)) f \<Longrightarrow> pool_step (h, ps) a (heap_store f h, ps)"
| pool_destroyed: "ps a = Some p \<Longrightarrow> memory_pool_destroy h (Some p) = Some (h', p') \<Longrightarrow> pool_step (h, ps) a (h', ps(a := None))"

inductive_cases pool_stepE: "pool_step (h, ps) a (h', ps')"

lemmas pool_step_cases = pool_stepE [consumes 1, case_names pool_created block_taken block_freed block_written pool_destroyed]

definition pools_inv :: "heap_state \<Rightarrow> (addr \<rightharpoonup> memory_pool) \<Rightarrow> bool" where
  "pools_inv h ps \<longleftrightarrow> members pool_member_ok pool_owns h (Map.graph ps)"

definition pools_owned :: "heap_state \<Rightarrow> (addr \<rightharpoonup> memory_pool) \<Rightarrow> addr set" where
  "pools_owned h ps = blocks_of pool_owns h (Map.graph ps)"

definition pool_view :: "heap_state \<Rightarrow> (addr \<rightharpoonup> memory_pool) \<Rightarrow> addr \<Rightarrow> (memory_pool \<times> nat set \<times> u8 list) option" where
  "pool_view h ps a = map_option (\<lambda>p. pool_state (mem h) (a, p)) (ps a)"

definition pool_effect :: "heap_state \<Rightarrow> (addr \<rightharpoonup> memory_pool) \<Rightarrow> addr \<Rightarrow> heap_state \<Rightarrow> (addr \<rightharpoonup> memory_pool) \<Rightarrow> bool" where
  "pool_effect h ps a h' ps' \<longleftrightarrow> pools_inv h' ps' \<and> effect h (pools_owned h ps) h' (pools_owned h' ps')
     \<and> (\<forall>b. b \<noteq> a \<longrightarrow> ps' b = ps b) \<and> (\<forall>b p. b \<noteq> a \<longrightarrow> ps b = Some p \<longrightarrow> pool_state (mem h') (b, p) = pool_state (mem h) (b, p))"

lemma graph_gone: "ps a = Some p \<Longrightarrow> Map.graph (ps(a := None)) = Map.graph ps - {(a, p)}"
  by (auto simp: Map.graph_def split: if_splits)

lemma in_graph: "(a, p) \<in> Map.graph ps \<longleftrightarrow> ps a = Some p"
  by (simp add: Map.graph_def)

lemma pools_inv_ok: "pools_inv h ps \<Longrightarrow> ps a = Some p \<Longrightarrow> pool_ok h p"
  using members_ok [of pool_member_ok pool_owns h "Map.graph ps" "(a, p)"] by (simp add: pools_inv_def in_graph)

lemma pools_inv_heap: "pools_inv h ps \<Longrightarrow> heap_inv h"
  unfolding pools_inv_def by (rule members_heap)

lemma pool_used_effect:
  assumes inv: "pools_inv h ps" and a: "ps a = Some p" and used: "pool_used h p h' p'"
  shows "pool_effect h ps a h' (ps(a \<mapsto> p'))"
proof -
  have "(a, p) \<in> Map.graph ps" using a by (simp add: in_graph)
  from pool.members_replace [OF inv [unfolded pools_inv_def] this, of h' "(a, p')"] used
  show ?thesis by (auto simp: pool_effect_def pools_inv_def pools_owned_def graph_gone [where ps = ps, OF a] pool_used_def in_graph Ball_def)
qed

lemma pool_created_effect:
  assumes inv: "pools_inv h ps" and a: "ps a = None" and ok: "pool_ok h' p'"
    and t: "touches h h' {pool_start p', free_list_bitmap p'}"
    and new: "heap_live h (pool_start p') = None" "heap_live h (free_list_bitmap p') = None"
  shows "pool_effect h ps a h' (ps(a \<mapsto> p'))"
  using pool.members_insert [OF inv [unfolded pools_inv_def], of h' "(a, p')"] ok t new
  by (auto simp: pool_effect_def pools_inv_def pools_owned_def fun_upd_idem [where f = ps, OF a] in_graph Ball_def)

lemma pools_stable:
  assumes inv: "pools_inv h ps" and t: "touches h h' W" and apart: "W \<inter> pools_owned h ps = {}"
  shows "pools_inv h' ps" and "pools_owned h' ps = pools_owned h ps" and "pool_view h' ps = pool_view h ps"
proof -
  note st = pool.members_stable [OF inv [unfolded pools_inv_def] t apart [unfolded pools_owned_def]]
  show "pools_inv h' ps" "pools_owned h' ps = pools_owned h ps" using st(1,2) by (simp_all add: pools_inv_def pools_owned_def)
  have "map_option (\<lambda>p. pool_state (mem h') (a, p)) (ps a) = map_option (\<lambda>p. pool_state (mem h) (a, p)) (ps a)" for a
    using st(3) by (cases "ps a") (auto simp: in_graph Ball_def)
  then show "pool_view h' ps = pool_view h ps" by (simp add: pool_view_def fun_eq_iff)
qed

lemma pool_unchanged_effect:
  assumes "pools_inv h ps" and "touches h h' {}"
  shows "pool_effect h ps a h' ps"
proof -
  note st = pools_stable [OF assms]
  have "pool_state (mem h') (b, p) = pool_state (mem h) (b, p)" if "ps b = Some p" for b p
    using fun_cong [OF st(3), of b] that by (simp add: pool_view_def)
  with st effect_none [OF assms(2)] show ?thesis by (simp add: pool_effect_def)
qed

lemma pool_destroyed_effect:
  assumes inv: "pools_inv h ps" and a: "ps a = Some p" and run: "memory_pool_destroy h (Some p) = Some (h', p')"
  shows "pool_effect h ps a h' (ps(a := None))"
proof -
  obtain h1 where h1: "memory_pool_destroy h (Some p) = Some (h1, Some no_pool)" "touches h h1 {pool_start p, free_list_bitmap p}"
    "heap_live h1 (pool_start p) = None" "heap_live h1 (free_list_bitmap p) = None"
    by (rule pool_destroy_touches [OF pools_inv_ok [OF inv a]])
  have "(a, p) \<in> Map.graph ps" using a by (simp add: in_graph)
  from pool.members_remove [OF inv [unfolded pools_inv_def] this, of h1] h1 run show ?thesis
    by (auto simp: pool_effect_def pools_inv_def pools_owned_def graph_gone [where ps = ps, OF a] in_graph Ball_def)
qed

lemma pool_step_ok:
  assumes st: "pool_step (h, ps) a (h', ps')" and inv: "pools_inv h ps"
  shows "pool_effect h ps a h' ps'"
  using st
proof (cases rule: pool_step_cases)
  case (pool_created bs n p0 p' r)
  from pool_create_touches [OF pools_inv_heap [OF inv] pool_created(3,4)] pool_created_effect [OF inv pool_created(2), of h' p']
    pool_unchanged_effect [OF inv, of h' a] pool_created(1) show ?thesis by (auto split: if_splits)
next
  case (block_taken p p' b)
  with pool_used_effect [OF inv block_taken(2) alloc_used [OF pools_inv_ok [OF inv block_taken(2)] block_taken(3)]]
  show ?thesis by simp
next
  case (block_freed p ptr p' r)
  have "ptr < 2 ^ 64" using block_freed(3) by simp
  with block_freed(1) pool_used_effect [OF inv block_freed(2) free_used_by [OF pools_inv_ok [OF inv block_freed(2)] _ block_freed(4)]]
  show ?thesis by simp
next
  case (block_written p i f)
  then have eq: "ps' = ps" by simp
  have "ps a = Some p" using block_written(3) unfolding eq .
  then have a: "ps a = Some p" "ps(a \<mapsto> p) = ps" by (simp_all add: fun_upd_idem)
  have "pool_effect h ps a (heap_store f h) (ps(a \<mapsto> p))"
    by (rule pool_used_effect [OF inv a(1) store_used [OF pools_inv_ok [OF inv a(1)] block_written(4,6)]])
  then show ?thesis unfolding a(2) eq block_written(2) .
next
  case (pool_destroyed p p')
  with pool_destroyed_effect [OF inv pool_destroyed(2,3)] show ?thesis by simp
qed

lemma pool_effect_view:
  assumes "pool_effect h ps a h' ps'" and "pool_view h ps b = Some v" and "b \<noteq> a"
  shows "pool_view h' ps' b = Some v"
proof -
  obtain p where p: "ps b = Some p" "v = pool_state (mem h) (b, p)" using assms(2) by (auto simp: pool_view_def)
  then have "ps' b = Some p" "pool_state (mem h') (b, p) = pool_state (mem h) (b, p)"
    using assms(1,3) unfolding pool_effect_def by metis+
  then show ?thesis by (simp add: pool_view_def p(2))
qed

definition pool_part :: "heap_state \<Rightarrow> (addr \<rightharpoonup> memory_pool) \<Rightarrow> addr \<Rightarrow> addr set" where
  "pool_part h ps a = (case ps a of None \<Rightarrow> {} | Some p \<Rightarrow> pool_owns (mem h) (a, p))"

interpretation pools: heap_user pools_inv pools_owned pool_part pool_view pool_step "\<lambda>ps. ps = Map.empty"
proof
  fix h h' :: heap_state and ps ps' :: "addr \<rightharpoonup> memory_pool" and a b W v q
  show "pools_inv h ps \<Longrightarrow> heap_inv h" by (rule pools_inv_heap)
  show "pools_inv h ps \<Longrightarrow> pools_owned h ps \<subseteq> dom (heap_live h)"
    unfolding pools_inv_def pools_owned_def by (rule pool.members_owned)
  have "q \<in> pool_part h ps a \<longleftrightarrow> (\<exists>p. (a, p) \<in> Map.graph ps \<and> q \<in> pool_owns (mem h) (a, p))" for q a
    by (simp add: pool_part_def in_graph split: option.split)
  note part = this
  show "pools_owned h ps = (\<Union>a. pool_part h ps a)"
    by (rule set_eqI) (simp add: pools_owned_def blocks_of_def part Bex_def del: pool_owns.simps)
  show "pools_inv h ps \<Longrightarrow> q \<in> pool_part h ps a \<Longrightarrow> q \<in> pool_part h ps b \<Longrightarrow> a = b"
    unfolding part pools_inv_def by (blast dest: members_unique)
  show "pools_inv h ps \<Longrightarrow> touches h h' W \<Longrightarrow> W \<inter> pools_owned h ps = {} \<Longrightarrow>
      pools_inv h' ps \<and> pools_owned h' ps = pools_owned h ps \<and> pool_view h' ps = pool_view h ps"
    by (intro conjI; rule pools_stable)
  show "pool_step (h, ps) a (h', ps') \<Longrightarrow> pools_inv h ps \<Longrightarrow> pools_inv h' ps'"
    using pool_step_ok [of h ps a h' ps'] unfolding pool_effect_def by blast
  show "pool_step (h, ps) a (h', ps') \<Longrightarrow> pools_inv h ps \<Longrightarrow> effect h (pools_owned h ps) h' (pools_owned h' ps')"
    using pool_step_ok [of h ps a h' ps'] unfolding pool_effect_def by blast
  show "pool_step (h, ps) a (h', ps') \<Longrightarrow> pools_inv h ps \<Longrightarrow> pool_view h ps b = Some v \<Longrightarrow> b \<noteq> a \<Longrightarrow> pool_view h' ps' b = Some v"
    by (rule pool_effect_view [OF pool_step_ok])
  show "ps = Map.empty \<Longrightarrow> heap_inv h \<Longrightarrow> pools_inv h ps \<and> pools_owned h ps = {}"
    by (simp add: pools_inv_def pools_owned_def)
  show "\<exists>h' ps'. (\<lambda>s t. \<exists>a. pool_step s a t)\<^sup>*\<^sup>* (h, ps) (h', ps') \<and> ps' = Map.empty" if "pools_inv h ps"
  proof (rule drain_by [where load = "\<lambda>ps. card (dom ps)" and good = pools_inv, OF _ that])
    fix h :: heap_state and ps :: "addr \<rightharpoonup> memory_pool"
    assume inv: "pools_inv h ps" and "ps \<noteq> Map.empty"
    then obtain a p where a: "ps a = Some p" by (meson not_None_eq ext)
    obtain h' where d: "memory_pool_destroy h (Some p) = Some (h', Some no_pool)"
      by (rule pool_destroy_touches [OF pools_inv_ok [OF inv a]])
    have "finite (dom ps)" using inv by (simp add: pools_inv_def members_def finite_graph_iff_finite_dom)
    then have "card (dom (ps(a := None))) < card (dom ps)" using a by (intro psubset_card_mono) auto
    with pool_step.pool_destroyed [of ps a, OF a d] pool_destroyed_effect [OF inv a d]
    show "\<exists>n h' ps'. pool_step (h, ps) n (h', ps') \<and> pools_inv h' ps' \<and> card (dom ps') < card (dom ps)"
      unfolding pool_effect_def by blast
  qed
qed

end
