(* ===== verification/Client_Blocks.thy ===== *)
theory Client_Blocks imports Heap_Props Heap_Population begin

text \<open>
  The blocks that tasks allocate for themselves, as a component of the system in the sense of
  \<open>heap_user\<close> (interpretation \<open>clients\<close>): allocated, cleared, resized, written and released through
  the interface of the heap. What a task observes of a block are its bytes.
\<close>

section \<open>The steps\<close>

text \<open>A store outside the heap, to a global or a stack, is made on no block: its label is the null
  pointer.\<close>

inductive block_step :: "heap_state \<times> addr set \<Rightarrow> addr \<Rightarrow> heap_state \<times> addr set \<Rightarrow> bool" where
  allocated: "rtos_malloc h n = Some (h', p) \<Longrightarrow> block_step (h, B) p (h', if p = NULL then B else insert p B)"
| cleared: "rtos_calloc h num sz = Some (h', p) \<Longrightarrow> unat num * unat sz \<le> 2 ^ 64 - 4 \<Longrightarrow>
    block_step (h, B) p (h', if p = NULL then B else insert p B)"
| resized: "p \<in> B \<Longrightarrow> rtos_realloc h p n = Some (h', q) \<Longrightarrow> 0 < unat n \<Longrightarrow> unat n \<le> 2 ^ 64 - 4 \<Longrightarrow>
    block_step (h, B) p (h', if q = NULL then B else insert q (B - {p}))"
| resized_to_nothing: "p \<in> B \<Longrightarrow> rtos_realloc h p 0 = Some (h', q) \<Longrightarrow> block_step (h, B) p (h', B - {p})"
| released: "p \<in> B \<Longrightarrow> rtos_free h p = Some h' \<Longrightarrow> block_step (h, B) p (h', B - {p})"
| written: "p \<in> B \<Longrightarrow> heap_live h p = Some k \<Longrightarrow> inside p k f \<Longrightarrow> block_step (h, B) p (heap_store f h, B)"
| written_outside: "outside_heap h q k \<Longrightarrow> inside q k f \<Longrightarrow> block_step (h, B) NULL (heap_store f h, B)"

inductive_cases block_stepE: "block_step (h, B) p (h', B')"

lemmas block_step_cases = block_stepE
  [consumes 1, case_names allocated cleared resized resized_to_nothing released written written_outside]

section \<open>What they touch\<close>

lemma calloc_touches:
  assumes run: "rtos_calloc h num sz = Some (h', p)" and inv: "heap_inv h" and size: "unat num * unat sz \<le> 2 ^ 64 - 4"
  shows "touches h h' {p}" and "p \<noteq> NULL \<Longrightarrow> heap_live h p = None" and "p \<noteq> NULL \<Longrightarrow> heap_live h' p \<noteq> None"
    and "p = NULL \<Longrightarrow> h' = h"
proof -
  have t: "unat (num * sz) = unat num * unat sz" using size by (simp add: unat_word_ariths)
  have "touches h h' {p} \<and> (p \<noteq> NULL \<longrightarrow> heap_live h p = None \<and> heap_live h' p \<noteq> None) \<and> (p = NULL \<longrightarrow> h' = h)"
  proof (cases rule: heap.malloc_cases [OF inv, of "num * sz"])
    case 1
    with run inv show ?thesis by (simp add: rtos_calloc_def Let_def touches_refl)
  next
    case (2 s1 q k)
    let ?f = "\<lambda>m. memset m q 0 (unat (num * sz))"
    have h': "h' = heap_store ?f s1" "p = q" using run 2(1,2) by (auto simp: rtos_calloc_def Let_def heap_store_def)
    have "inside q (unat (num * sz)) ?f" by (auto simp: inside_def frames)
    from malloc_store [OF 2(1) inv 2(2) _ this] size t obtain j where
      "touches h (heap_store ?f s1) {q}" "heap_live (heap_store ?f s1) = (heap_live h)(q \<mapsto> j)" "heap_live h q = None" by auto
    with h' 2(2) show ?thesis by simp
  qed
  then show "touches h h' {p}" "p \<noteq> NULL \<Longrightarrow> heap_live h p = None" "p \<noteq> NULL \<Longrightarrow> heap_live h' p \<noteq> None" "p = NULL \<Longrightarrow> h' = h"
    by blast+
qed

lemma realloc_touches:
  assumes run: "rtos_realloc h p n = Some (h', q)" and inv: "heap_inv h" and p: "heap_live h p = Some k"
    and n: "0 < unat n" "unat n \<le> 2 ^ 64 - 4"
  shows "touches h h' {p, q} \<and> (q = p \<or> heap_live h q = None)"
proof -
  have p0: "p \<noteq> NULL" "n \<noteq> 0" using heap.live_range [OF inv p] n by auto
  show ?thesis
  proof (cases "n \<le> blk_size (mem h) (p - 32)")
    case True
    with run p0 inv show ?thesis by (simp add: rtos_realloc_def sizeof_block_def Let_def touches_refl)
  next
    case False
    show ?thesis
    proof (cases rule: heap.malloc_cases [OF inv, of n])
      case 1
      with run p0 False inv show ?thesis by (simp add: rtos_realloc_def sizeof_block_def Let_def touches_refl)
    next
      case (2 s1 b j)
      let ?l = "unat (blk_size (mem s1) (p - 32))"
      let ?f = "\<lambda>m. memcpy m b p ?l"
      have pb: "p \<noteq> b" using p 2(3) by auto
      have live: "heap_live s1 p = Some k" "heap_live s1 b = Some j" using p pb 2(4) by auto
      have len: "?l = k" "unat (blk_size (mem h) (p - 32)) = k"
        using heap_live_size(2) [OF 2(6) live(1)] heap_live_size(2) [OF inv p] by simp_all
      have "k < unat n" using False len(2) by (simp add: word_le_nat_alt)
      then have "inside b j ?f" using 2(5) n(2) len(1) by (auto simp: inside_def frames)
      from block_store [OF 2(6) live(2) this, of "{b}"] have o: "others_kept s1 (heap_store ?f s1) {b}" by simp
      then have l2: "heap_inv (heap_store ?f s1)" "heap_live (heap_store ?f s1) p = Some k" using live(1) by (simp_all add: others_kept_def)
      from heap.free_live [OF l2] obtain s3 where s3: "rtos_free (heap_store ?f s1) p = Some s3" by blast
      have "h' = s3" "q = b" using run p0 False 2(1,2) s3
        by (auto simp: rtos_realloc_def sizeof_block_def Let_def heap_store_def)
      with 2(3) touches_trans [OF touches_trans [OF malloc_touches [OF 2(1) inv] others_kept_touches [OF o]] free_touches(1) [OF s3 l2]]
      show ?thesis by (simp add: insert_commute)
    qed
  qed
qed

section \<open>The component\<close>

definition clients_inv :: "heap_state \<Rightarrow> addr set \<Rightarrow> bool" where
  "clients_inv h B \<longleftrightarrow> heap_inv h \<and> finite B \<and> B \<subseteq> dom (heap_live h)"

definition clients_owned :: "heap_state \<Rightarrow> addr set \<Rightarrow> addr set" where
  "clients_owned h B = B"

definition block_view :: "heap_state \<Rightarrow> addr set \<Rightarrow> addr \<Rightarrow> u8 list option" where
  "block_view h B p = (if p \<in> B then map_option (bytes_at (mem h) p) (heap_live h p) else None)"

lemma clients_inv_live: "clients_inv h B \<Longrightarrow> p \<in> B \<Longrightarrow> \<exists>k. heap_live h p = Some k"
  by (auto simp: clients_inv_def)

lemma block_view_same: "block_same h h' p \<Longrightarrow> p \<in> B \<Longrightarrow> p \<in> B' \<Longrightarrow> block_view h' B' p = block_view h B p"
  by (cases "heap_live h p") (auto simp: block_view_def block_same_def)

text \<open>The effect of a step on the blocks \<open>B\<close> of the clients, of which it may use \<open>p\<close> only.\<close>

definition block_effect :: "heap_state \<Rightarrow> addr set \<Rightarrow> addr \<Rightarrow> heap_state \<Rightarrow> addr set \<Rightarrow> bool" where
  "block_effect h B p h' B' \<longleftrightarrow> finite B' \<and> (\<exists>W. touches h h' W \<and> (\<forall>r\<in>W. r = p \<and> p \<in> B \<or> heap_live h r = None)
     \<and> B' - W = B - W \<and> (\<forall>r\<in>W. r \<in> B' \<longleftrightarrow> heap_live h' r \<noteq> None))"

lemma block_effectI:
  "touches h h' W \<Longrightarrow> (\<And>r. r \<in> W \<Longrightarrow> r = p \<and> p \<in> B \<or> heap_live h r = None) \<Longrightarrow> B' - W = B - W \<Longrightarrow>
   (\<And>r. r \<in> W \<Longrightarrow> r \<in> B' \<longleftrightarrow> heap_live h' r \<noteq> None) \<Longrightarrow> finite B' \<Longrightarrow> block_effect h B p h' B'"
  unfolding block_effect_def by (intro conjI exI [of _ W]) auto

lemma clients_inv_null: "clients_inv h B \<Longrightarrow> NULL \<notin> B"
  using clients_inv_live [of h B NULL] by (auto simp: clients_inv_def)

lemma new_block_effect:
  assumes inv: "clients_inv h B" and t: "touches h h' {p}"
    and new: "p \<noteq> NULL \<Longrightarrow> heap_live h p = None \<and> heap_live h' p \<noteq> None"
  shows "block_effect h B p h' (if p = NULL then B else insert p B)"
proof (cases "p = NULL")
  case True
  with inv t clients_inv_null [OF inv] touches_inv [OF t] show ?thesis
    by (intro block_effectI [OF t]) (auto simp: clients_inv_def)
next
  case False
  with inv new show ?thesis by (intro block_effectI [OF t]) (auto simp: clients_inv_def)
qed

lemma resized_effect:
  assumes inv: "clients_inv h B" and p: "p \<in> B" and run: "rtos_realloc h p n = Some (h', q)"
    and n: "0 < unat n" "unat n \<le> 2 ^ 64 - 4"
  shows "block_effect h B p h' (if q = NULL then B else insert q (B - {p}))"
proof -
  have hinv: "heap_inv h" and fin: "finite B" using inv by (simp_all add: clients_inv_def)
  obtain k where k: "heap_live h p = Some k" using clients_inv_live [OF inv p] by blast
  from realloc_touches [OF run hinv k n] have t: "touches h h' {p, q}" and fresh: "q = p \<or> heap_live h q = None" by auto
  from realloc_contents [OF hinv k n] run have c:
    "if q = NULL then h' = h else \<exists>k'. heap_live h' = (heap_live h)(p := None, q \<mapsto> k')" by auto
  show ?thesis
  proof (cases "q = NULL")
    case True
    with c fin hinv show ?thesis by (intro block_effectI [where W = "{}"]) (auto simp: touches_refl)
  next
    case False
    with c obtain k' where live: "heap_live h' = (heap_live h)(p := None, q \<mapsto> k')" by auto
    with fresh False p fin show ?thesis by (intro block_effectI [OF t]) auto
  qed
qed

lemma released_effect:
  assumes inv: "clients_inv h B" and p: "p \<in> B" and run: "rtos_free h p = Some h'"
  shows "block_effect h B p h' (B - {p})"
proof -
  obtain k where k: "heap_live h p = Some k" using clients_inv_live [OF inv p] by blast
  have hinv: "heap_inv h" using inv by (simp add: clients_inv_def)
  from free_touches [OF run hinv k] p inv show ?thesis
    by (intro block_effectI [where W = "{p}"]) (auto simp: clients_inv_def)
qed

lemma stored_effect:
  assumes inv: "clients_inv h B" and kept: "others_kept h h' W" and W: "W \<subseteq> {p} \<inter> B"
  shows "block_effect h B p h' B"
proof -
  have "heap_live h' = heap_live h" using kept by (simp add: others_kept_def)
  with inv W clients_inv_live [OF inv] show ?thesis
    by (intro block_effectI [OF others_kept_touches [OF kept]]) (auto simp: clients_inv_def)
qed

lemma block_step_ok:
  assumes st: "block_step (h, B) p (h', B')" and inv: "clients_inv h B"
  shows "block_effect h B p h' B'"
proof -
  have hinv: "heap_inv h" using inv by (simp add: clients_inv_def)
  from st show ?thesis
  proof (cases rule: block_step_cases)
    case (allocated n)
    with new_block_effect [OF inv malloc_touches [OF allocated(2) hinv]] heap.malloc_live [OF allocated(2) hinv]
    show ?thesis by auto
  next
    case (cleared num sz)
    have "unat num * unat sz \<le> 2 ^ 64 - 4" using cleared(3) by simp
    note t = calloc_touches [OF cleared(2) hinv this]
    with cleared(1) new_block_effect [OF inv t(1)] show ?thesis by simp
  next
    case (resized n q)
    have "0 < unat n" "unat n \<le> 2 ^ 64 - 4" using resized(4,5) by simp_all
    with resized(1) resized_effect [OF inv resized(2,3)] show ?thesis by simp
  next
    case (resized_to_nothing q)
    have "p \<noteq> NULL" using resized_to_nothing(2) clients_inv_null [OF inv] by metis
    then have "rtos_free h p = Some h'" using resized_to_nothing(3) by (simp add: rtos_realloc_def split: Option.bind_splits)
    with released_effect [OF inv resized_to_nothing(2)] resized_to_nothing(1) show ?thesis by simp
  next
    case released
    with released_effect [OF inv released(2)] show ?thesis by simp
  next
    case (written k f)
    then have w: "heap_live h p = Some k" "p \<in> B" "inside p k f" "B' = B" "h' = heap_store f h" by simp_all
    have "others_kept h (heap_store f h) {p}" by (rule block_store [OF hinv w(1,3)]) simp
    with stored_effect [OF inv this] w show ?thesis by simp
  next
    case (written_outside q k f)
    then have w: "outside_heap h q k" "inside q k f" "B' = B" "h' = heap_store f h" by simp_all
    from stored_effect [OF inv outside_store [OF hinv w(1,2), of "{}"]] w(3,4) show ?thesis by simp
  qed
qed

lemma block_step_laws:
  assumes st: "block_step (h, B) p (h', B')" and inv: "clients_inv h B"
  shows "clients_inv h' B'" and "effect h B h' B'" and "block_view h B r = Some v \<Longrightarrow> r \<noteq> p \<Longrightarrow> block_view h' B' r = Some v"
proof -
  from block_step_ok [OF assms] obtain W where W: "touches h h' W" "\<forall>r\<in>W. r = p \<and> p \<in> B \<or> heap_live h r = None"
    "B' - W = B - W" "\<forall>r\<in>W. r \<in> B' \<longleftrightarrow> heap_live h' r \<noteq> None" and fin: "finite B'" by (auto simp: block_effect_def)
  show e: "effect h B h' B'"
  proof (rule effectI [OF W(1) _ W(3)])
    show "r \<in> B \<or> heap_live h r = None" if "r \<in> W" for r using bspec [OF W(2) that] by auto
    show "r \<in> B' \<longleftrightarrow> heap_live h' r \<noteq> None" if "r \<in> W" for r by (rule bspec [OF W(4) that])
  qed
  show "clients_inv h' B'"
    using effect_live [OF e] inv fin touches_inv [OF W(1)] by (simp add: clients_inv_def)
  show "block_view h' B' r = Some v" if "block_view h B r = Some v" "r \<noteq> p"
  proof -
    have r: "r \<in> B" using that(1) by (simp add: block_view_def split: if_splits)
    then have "r \<notin> W" using W(2) clients_inv_live [OF inv r] that(2) by auto
    with W(3) r have "r \<in> B'" by blast
    with block_view_same [OF touches_same [OF W(1) \<open>r \<notin> W\<close>] r] that(1) show ?thesis by simp
  qed
qed

definition block_part :: "heap_state \<Rightarrow> addr set \<Rightarrow> addr \<Rightarrow> addr set" where
  "block_part h B p = (if p \<in> B then {p} else {})"

interpretation clients: heap_user clients_inv clients_owned block_part block_view block_step "\<lambda>B. B = {}"
proof
  fix h h' :: heap_state and B B' :: "addr set" and p r W v q
  show "clients_inv h B \<Longrightarrow> heap_inv h" "clients_inv h B \<Longrightarrow> clients_owned h B \<subseteq> dom (heap_live h)"
    by (simp_all add: clients_inv_def clients_owned_def)
  show "clients_owned h B = (\<Union>p. block_part h B p)" by (auto simp: clients_owned_def block_part_def split: if_splits)
  show "clients_inv h B \<Longrightarrow> q \<in> block_part h B p \<Longrightarrow> q \<in> block_part h B r \<Longrightarrow> p = r"
    by (auto simp: block_part_def split: if_splits)
  show "clients_inv h' B \<and> clients_owned h' B = clients_owned h B \<and> block_view h' B = block_view h B"
    if "clients_inv h B" "touches h h' W" "W \<inter> clients_owned h B = {}"
  proof -
    have apart: "r \<notin> W" if "r \<in> B" for r using \<open>W \<inter> clients_owned h B = {}\<close> that by (auto simp: clients_owned_def)
    have "block_view h' B r = block_view h B r" for r
      using block_view_same [OF touches_same [OF that(2) apart]] by (cases "r \<in> B") (auto simp: block_view_def)
    moreover have "r \<in> dom (heap_live h')" if "r \<in> B" for r
      using touches_live [OF \<open>touches h h' W\<close> apart [OF that]] clients_inv_live [OF \<open>clients_inv h B\<close> that] by auto
    ultimately show ?thesis using that(1) touches_inv [OF that(2)] by (auto simp: clients_inv_def clients_owned_def)
  qed
  show "block_step (h, B) p (h', B') \<Longrightarrow> clients_inv h B \<Longrightarrow> clients_inv h' B'" by (rule block_step_laws)
  show "block_step (h, B) p (h', B') \<Longrightarrow> clients_inv h B \<Longrightarrow> effect h (clients_owned h B) h' (clients_owned h' B')"
    unfolding clients_owned_def by (rule block_step_laws)
  show "block_step (h, B) p (h', B') \<Longrightarrow> clients_inv h B \<Longrightarrow> block_view h B r = Some v \<Longrightarrow> r \<noteq> p \<Longrightarrow> block_view h' B' r = Some v"
    by (rule block_step_laws)
  show "B = {} \<Longrightarrow> heap_inv h \<Longrightarrow> clients_inv h B \<and> clients_owned h B = {}"
    by (simp add: clients_inv_def clients_owned_def)
  show "\<exists>h' B'. (\<lambda>s t. \<exists>p. block_step s p t)\<^sup>*\<^sup>* (h, B) (h', B') \<and> B' = {}" if "clients_inv h B"
  proof (rule drain_by [where load = card and good = clients_inv, OF _ that])
    fix h :: heap_state and B :: "addr set"
    assume inv: "clients_inv h B" and "B \<noteq> {}"
    then obtain p where p: "p \<in> B" by blast
    then obtain k where k: "heap_live h p = Some k" using clients_inv_live [OF inv] by blast
    have hinv: "heap_inv h" using inv by (simp add: clients_inv_def)
    from heap.free_live [OF hinv k] obtain h' where "rtos_free h p = Some h'" by blast
    from block_step.released [OF p this] have st: "block_step (h, B) p (h', B - {p})" .
    have "card (B - {p}) < card B" using p inv by (intro card_Diff1_less) (auto simp: clients_inv_def)
    with st block_step_laws(1) [OF st inv]
    show "\<exists>n h' B'. block_step (h, B) n (h', B') \<and> clients_inv h' B' \<and> card B' < card B" by blast
  qed
qed

end
