(* ===== verification/Heap_System.thy ===== *)
theory Heap_System imports Ipc_System Uart_System Pool_System Client_Blocks begin

text \<open>
  Everything that uses the heap, together: semaphores, mutexes and message queues, the UART
  driver, the memory pools, and the blocks tasks allocate for themselves, in any interleaving of
  their operations. The contract \<open>heap_user\<close> composes: each of the four components keeps it, hence
  so does the system, and isolation and the absence of leaks are facts of the contract.
\<close>

section \<open>The system\<close>

interpretation storage: heap_users pools_inv pools_owned pool_part pool_view pool_step "\<lambda>ps. ps = Map.empty"
    clients_inv clients_owned block_part block_view block_step "\<lambda>B. B = {}" ..

interpretation devices: heap_users ports_inv ports_owned port_part port_view "port_step call" ports_closed
    "pair_inv pools_inv pools_owned clients_inv clients_owned" "pair_owned pools_owned clients_owned"
    "pair_part pool_part block_part" "pair_view pool_view block_view" "pair_step pool_step block_step"
    "pair_idle (\<lambda>ps. ps = Map.empty) (\<lambda>B. B = {})" for call ..

interpretation system: heap_users "members obj_ok obj_owns" "blocks_of obj_owns" object_part object_view object_step "\<lambda>X. X = {}"
    "pair_inv ports_inv ports_owned (pair_inv pools_inv pools_owned clients_inv clients_owned) (pair_owned pools_owned clients_owned)"
    "pair_owned ports_owned (pair_owned pools_owned clients_owned)"
    "pair_part port_part (pair_part pool_part block_part)"
    "pair_view port_view (pair_view pool_view block_view)"
    "pair_step (port_step call) (pair_step pool_step block_step)"
    "pair_idle ports_closed (pair_idle (\<lambda>ps. ps = Map.empty) (\<lambda>B. B = {}))" for call ..

text \<open>The state: the heap, the objects, the UART instances, the pool structures and the clients' blocks.\<close>

type_synonym users = "ipc_object set \<times> (nat \<Rightarrow> uart_handle) \<times> (addr \<rightharpoonup> memory_pool) \<times> addr set"

type_synonym system = "heap_state \<times> users"

text \<open>What a step is made on.\<close>

type_synonym part = "ipc_object + (nat + (addr + addr))"

abbreviation OBJECT :: "ipc_object \<Rightarrow> part" where "OBJECT x \<equiv> Inl x"
abbreviation PORT :: "nat \<Rightarrow> part" where "PORT u \<equiv> Inr (Inl u)"
abbreviation POOL :: "addr \<Rightarrow> part" where "POOL a \<equiv> Inr (Inr (Inl a))"
abbreviation BLOCK :: "addr \<Rightarrow> part" where "BLOCK p \<equiv> Inr (Inr (Inr p))"

definition system_step ::
    "(addr \<Rightarrow> nat \<Rightarrow> addr \<Rightarrow> uart_state \<Rightarrow> uart_state) \<Rightarrow> system \<Rightarrow> part \<Rightarrow> system \<Rightarrow> bool" where
  "system_step call = pair_step object_step (pair_step (port_step call) (pair_step pool_step block_step))"

definition system_run :: "(addr \<Rightarrow> nat \<Rightarrow> addr \<Rightarrow> uart_state \<Rightarrow> uart_state) \<Rightarrow> system \<Rightarrow> system \<Rightarrow> bool" where
  "system_run call = (\<lambda>S S'. \<exists>x. system_step call S x S')\<^sup>*\<^sup>*"

text \<open>The system after \<^verbatim>\<open>memory_init\<close>, with nothing created and no port open.\<close>

definition system_boot :: "system \<Rightarrow> bool" where
  "system_boot = (\<lambda>(h, X, P, ps, B). (\<exists>h0. fresh_heap h0 \<and> h = memory_init h0) \<and> X = {} \<and> ports_closed P
     \<and> ps = Map.empty \<and> B = {})"

definition system_reachable :: "(addr \<Rightarrow> nat \<Rightarrow> addr \<Rightarrow> uart_state \<Rightarrow> uart_state) \<Rightarrow> system \<Rightarrow> bool" where
  "system_reachable call S \<longleftrightarrow> (\<exists>S0. system_boot S0 \<and> system_run call S0 S)"

text \<open>The invariant, and the blocks in use.\<close>

definition system_inv :: "heap_state \<Rightarrow> users \<Rightarrow> bool" where
  "system_inv = pair_inv (members obj_ok obj_owns) (blocks_of obj_owns)
     (pair_inv ports_inv ports_owned (pair_inv pools_inv pools_owned clients_inv clients_owned) (pair_owned pools_owned clients_owned))
     (pair_owned ports_owned (pair_owned pools_owned clients_owned))"

definition system_owned :: "heap_state \<Rightarrow> users \<Rightarrow> addr set" where
  "system_owned = pair_owned (blocks_of obj_owns) (pair_owned ports_owned (pair_owned pools_owned clients_owned))"

lemma system_inv_iff:
  "system_inv h (X, P, ps, B) \<longleftrightarrow> members obj_ok obj_owns h X \<and> ports_inv h P \<and> pools_inv h ps \<and> clients_inv h B
     \<and> blocks_of obj_owns h X \<inter> ports_owned h P = {} \<and> blocks_of obj_owns h X \<inter> pools_owned h ps = {}
     \<and> blocks_of obj_owns h X \<inter> B = {} \<and> ports_owned h P \<inter> pools_owned h ps = {} \<and> ports_owned h P \<inter> B = {}
     \<and> pools_owned h ps \<inter> B = {}"
  by (auto simp: system_inv_def pair_simps clients_owned_def)

lemma system_owned_eq:
  "system_owned h (X, P, ps, B) = blocks_of obj_owns h X \<union> ports_owned h P \<union> pools_owned h ps \<union> B"
  by (auto simp: system_owned_def pair_simps clients_owned_def)

text \<open>Every allocated block is in use, and the invariant holds, in every state of a run.\<close>

definition system_exact :: "system \<Rightarrow> bool" where
  "system_exact = (\<lambda>(h, c). system_inv h c \<and> dom (heap_live h) = system_owned h c)"

interpretation runs: invariant_system system_boot "\<lambda>S S'. \<exists>x. system_step call S x S'" system_exact for call
proof
  show "system_exact S" if "system_boot S" for S
  proof -
    obtain h X P ps B where S: "S = (h, X, P, ps, B)" by (metis prod.exhaust)
    with that obtain h0 where h: "fresh_heap h0" "h = memory_init h0" and e: "X = {}" "ports_closed P" "ps = Map.empty" "B = {}"
      by (auto simp: system_boot_def)
    note ok = memory_init_ok [OF h(1)]
    have live: "heap_live h = Map.empty" unfolding h(2) by (rule heap_live_eqI [OF ok]) simp
    have inv: "heap_inv h" using heap_ok_inv [OF ok] h(2) by simp
    from ports.idle_inv [OF e(2) inv] pools.idle_inv [OF refl inv] clients.idle_inv [OF refl inv] inv live e
    show ?thesis by (simp add: S system_exact_def system_inv_iff system_owned_eq)
  qed
  show "system_exact S'" if "\<exists>x. system_step call S x S'" "system_exact S" for S S'
  proof -
    obtain h c h' c' where S: "S = (h, c)" "S' = (h', c')" by (metis prod.exhaust)
    from that(1) obtain x where st: "pair_step object_step (pair_step (port_step call) (pair_step pool_step block_step)) (h, c) x (h', c')"
      by (auto simp: S system_step_def)
    have i: "system_inv h c" "dom (heap_live h) = system_owned h c" using that(2) by (simp_all add: S system_exact_def)
    have "system_inv h' c'" using system.pair.step_inv [OF st] i(1) by (simp add: system_inv_def)
    moreover have "effect h (system_owned h c) h' (system_owned h' c')"
      using system.pair.step_effect [OF st] i(1) by (simp add: system_inv_def system_owned_def)
    then have "dom (heap_live h') = system_owned h' c'" using i(2) by (rule effect_exact)
    ultimately show ?thesis by (simp add: S system_exact_def)
  qed
qed

lemma reachable_exact: "system_reachable call S \<Longrightarrow> system_exact S"
  unfolding system_reachable_def system_run_def using runs.reachable_inv by blast

section \<open>Ownership\<close>

text \<open>The blocks of a part.\<close>

definition system_part :: "heap_state \<Rightarrow> users \<Rightarrow> part \<Rightarrow> addr set" where
  "system_part = pair_part object_part (pair_part port_part (pair_part pool_part block_part))"

lemma system_part_simps:
  "system_part h (X, P, ps, B) (OBJECT x) = (if x \<in> X then obj_owns (mem h) x else {})"
  "system_part h (X, P, ps, B) (PORT u) = (if u < MAX_UART_INSTANCES then uart_bufs (P u) else {})"
  "system_part h (X, P, ps, B) (POOL a) = (case ps a of None \<Rightarrow> {} | Some p \<Rightarrow> {pool_start p, free_list_bitmap p})"
  "system_part h (X, P, ps, B) (BLOCK p) = (if p \<in> B then {p} else {})"
  by (simp_all add: system_part_def pair_simps object_part_def port_part_def pool_part_def block_part_def split: option.split)

lemma system_owner: "system_inv h c \<Longrightarrow> p \<in> system_owned h c \<longleftrightarrow> (\<exists>!y. p \<in> system_part h c y)"
  unfolding system_inv_def system_owned_def system_part_def by (rule system.pair.owner)

lemma exact_live:
  assumes "system_exact (h, c)"
  shows "heap_live h q \<noteq> None \<longleftrightarrow> (\<exists>!y. q \<in> system_part h c y)"
proof -
  from assms have "system_inv h c" "dom (heap_live h) = system_owned h c" by (simp_all add: system_exact_def)
  with system_owner [of h c q] show ?thesis by (auto simp: domIff)
qed

lemma exact_drain:
  assumes "system_exact (h, X, P, ps, B)"
  obtains h' P' where "system_run call (h, X, P, ps, B) (h', {}, P', Map.empty, {})" and "ports_closed P'"
    and "heap_blocks h' = [(heap_memory h', HEAP_SIZE - 32, True)]"
proof -
  have i: "system_inv h (X, P, ps, B)" "dom (heap_live h) = system_owned h (X, P, ps, B)"
    using assms by (simp_all add: system_exact_def)
  obtain h' c' where r: "system_run call (h, X, P, ps, B) (h', c')" "system_inv h' c'" "heap_live h' = Map.empty"
    and idle: "pair_idle (\<lambda>X. X = {}) (pair_idle ports_closed (pair_idle (\<lambda>ps. ps = Map.empty) (\<lambda>B. B = {}))) c'"
    by (rule system.pair.all_returned [OF i [unfolded system_inv_def system_owned_def], where call = call])
      (auto simp: system_inv_def system_run_def system_step_def)
  obtain X' P' ps' B' where c': "c' = (X', P', ps', B')" by (metis prod.exhaust)
  have "heap_inv h'" using r(2) by (simp add: c' system_inv_iff members_def)
  from empty_heap [OF this r(3)] r(1) idle that show thesis by (simp add: c' pair_simps)
qed

section \<open>Isolation\<close>

text \<open>What clients observe of a part.\<close>

definition system_view ::
    "heap_state \<Rightarrow> users \<Rightarrow> part \<Rightarrow>
     (ipc_view + ((uart_handle \<times> u8 list) + ((memory_pool \<times> nat set \<times> u8 list) + u8 list))) option" where
  "system_view = pair_view object_view (pair_view port_view (pair_view pool_view block_view))"

lemma system_view_simps:
  "system_view h (X, P, ps, B) (OBJECT x) = map_option Inl (object_view h X x)"
  "system_view h (X, P, ps, B) (PORT u) = map_option (Inr \<circ> Inl) (port_view h P u)"
  "system_view h (X, P, ps, B) (POOL a) = map_option (Inr \<circ> Inr \<circ> Inl) (pool_view h ps a)"
  "system_view h (X, P, ps, B) (BLOCK p) = map_option (Inr \<circ> Inr \<circ> Inr) (block_view h B p)"
  by (simp_all add: system_view_def pair_simps option.map_comp comp_assoc)

lemma system_step_view:
  assumes "system_reachable call (h, c)" and "system_step call (h, c) y (h', c')" and "z \<noteq> y" and "system_view h c z \<noteq> None"
  shows "system_view h' c' z = system_view h c z"
proof -
  from assms(4) obtain v where v: "system_view h c z = Some v" by blast
  have "system_inv h c" using reachable_exact [OF assms(1)] by (simp add: system_exact_def)
  from system.pair.step_view [OF assms(2) [unfolded system_step_def] this [unfolded system_inv_def] v [unfolded system_view_def] assms(3)]
  show ?thesis using v by (simp add: system_view_def)
qed

lemma reachable_step_inv:
  assumes "system_reachable call (h, c)" and "system_step call (h, c) y (h', c')"
  shows "system_inv h' c'"
proof -
  have "system_exact (h', c')" using runs.step_inv [where call = call, of "(h, c)" "(h', c')"] reachable_exact [OF assms(1)] assms(2) by blast
  then show ?thesis by (simp add: system_exact_def)
qed

text \<open>The same, read component by component.\<close>

lemma object_kept:
  assumes "system_reachable call (h, X, P, ps, B)" and "system_step call (h, X, P, ps, B) y (h', X', P', ps', B')"
    and "x \<in> X" and "y \<noteq> OBJECT x"
  shows "x \<in> X' \<and> obj_ok h' x \<and> obj_view (mem h') x = obj_view (mem h) x"
proof -
  have "x \<in> X' \<and> obj_view (mem h') x = obj_view (mem h) x"
    using system_step_view [OF assms(1,2), of "OBJECT x"] assms(3,4)
    by (auto simp: system_view_simps object_view_def split: if_splits)
  with reachable_step_inv [OF assms(1,2)] members_ok show ?thesis by (auto simp: system_inv_iff)
qed

lemma port_kept:
  assumes "system_reachable call (h, X, P, ps, B)" and "system_step call (h, X, P, ps, B) y (h', X', P', ps', B')"
    and "u < MAX_UART_INSTANCES" and "uart_initialized (P u)" and "y \<noteq> PORT u"
  shows "P' u = P u \<and> uart_open_ok h' (P u) \<and> tx_items (driver h' P') u = tx_items (driver h P) u"
proof -
  have "P' u = P u \<and> tx_items (driver h' P') u = tx_items (driver h P) u"
    using system_step_view [OF assms(1,2), of "PORT u"] assms(3-5)
    by (auto simp: system_view_simps port_view_def split: if_splits)
  with reachable_step_inv [OF assms(1,2)] assms(3,4) show ?thesis
    by (auto simp: system_inv_iff ports_inv_def uart_inv_def)
qed

lemma pool_kept:
  assumes "system_reachable call (h, X, P, ps, B)" and "system_step call (h, X, P, ps, B) y (h', X', P', ps', B')"
    and "ps a = Some p" and "y \<noteq> POOL a"
  shows "ps' a = Some p \<and> pool_ok h' p \<and> pool_free_set (mem h') p = pool_free_set (mem h) p
     \<and> pool_bytes (mem h') p = pool_bytes (mem h) p"
proof -
  have "ps' a = Some p \<and> pool_free_set (mem h') p = pool_free_set (mem h) p \<and> pool_bytes (mem h') p = pool_bytes (mem h) p"
    using system_step_view [OF assms(1,2), of "POOL a"] assms(3,4)
    by (auto simp: system_view_simps pool_view_def)
  with reachable_step_inv [OF assms(1,2)] pools_inv_ok show ?thesis by (auto simp: system_inv_iff)
qed

lemma block_kept:
  assumes "system_reachable call (h, X, P, ps, B)" and "system_step call (h, X, P, ps, B) y (h', X', P', ps', B')"
    and "p \<in> B" and "y \<noteq> BLOCK p"
  shows "p \<in> B' \<and> block_same h h' p"
proof -
  have "clients_inv h B" using reachable_exact [OF assms(1)] by (simp add: system_exact_def system_inv_iff)
  from clients_inv_live [OF this assms(3)] obtain k where k: "heap_live h p = Some k" ..
  have "block_view h' B' p = Some (bytes_at (mem h) p k)"
    using system_step_view [OF assms(1,2), of "BLOCK p"] assms(3,4) k
    by (auto simp: system_view_simps block_view_def split: if_splits)
  then obtain j where j: "p \<in> B'" "heap_live h' p = Some j" "bytes_at (mem h') p j = bytes_at (mem h) p k"
    by (auto simp: block_view_def split: if_splits)
  from arg_cong [OF j(3), of length] have "j = k" by simp
  with j k show ?thesis by (simp add: block_same_def)
qed

text \<open>C4: isolation: whatever the tasks have done through the interfaces, an operation on one object,
  port, pool or allocated block leaves every other one as it was: every other semaphore, mutex and
  queue is well formed with the same count, holder or messages, every other open port keeps its
  instance and the bytes it has to send, every other pool its free blocks and the bytes of its
  blocks, and every other allocated block its size and its bytes.\<close>

theorem system_isolated:
  assumes "system_reachable call (h, X, P, ps, B)" and "system_step call (h, X, P, ps, B) y (h', X', P', ps', B')"
  shows "(\<forall>x\<in>X. y \<noteq> OBJECT x \<longrightarrow> x \<in> X' \<and> obj_ok h' x \<and> obj_view (mem h') x = obj_view (mem h) x)
    \<and> (\<forall>u<MAX_UART_INSTANCES. uart_initialized (P u) \<longrightarrow> y \<noteq> PORT u \<longrightarrow>
         P' u = P u \<and> uart_open_ok h' (P u) \<and> tx_items (driver h' P') u = tx_items (driver h P) u)
    \<and> (\<forall>a p. ps a = Some p \<longrightarrow> y \<noteq> POOL a \<longrightarrow> ps' a = Some p \<and> pool_ok h' p
         \<and> pool_free_set (mem h') p = pool_free_set (mem h) p \<and> pool_bytes (mem h') p = pool_bytes (mem h) p)
    \<and> (\<forall>p\<in>B. y \<noteq> BLOCK p \<longrightarrow> p \<in> B' \<and> block_same h h' p)"
  by (intro conjI ballI allI impI object_kept [OF assms] port_kept [OF assms] pool_kept [OF assms] block_kept [OF assms]) assumption+

text \<open>C5: no leak: in every reachable state each allocated block of the heap belongs to exactly one
  object, open port, pool or task, and what belongs to one of them is allocated; and from there
  everything can be destroyed, closed and released, which leaves the heap one single free block.\<close>

theorem system_no_leak:
  assumes "system_reachable call (h, X, P, ps, B)"
  shows "(\<forall>q. heap_live h q \<noteq> None \<longleftrightarrow> (\<exists>!y. q \<in> system_part h (X, P, ps, B) y))
    \<and> (\<exists>h' P'. system_run call (h, X, P, ps, B) (h', {}, P', Map.empty, {}) \<and> ports_closed P'
         \<and> heap_blocks h' = [(heap_memory h', HEAP_SIZE - 32, True)])"
proof -
  note e = reachable_exact [OF assms]
  obtain h' P' where "system_run call (h, X, P, ps, B) (h', {}, P', Map.empty, {})" "ports_closed P'"
    "heap_blocks h' = [(heap_memory h', HEAP_SIZE - 32, True)]" by (rule exact_drain [OF e, where call = call])
  with exact_live [OF e] show ?thesis by blast
qed

text \<open>A run: the first port is opened.\<close>

lemma example_port:
  obtains h P where "system_reachable call (h, {}, P, Map.empty, {})" and "uart_initialized (P 0)"
    and "tx_items (driver h P) 0 = []" and "uart_bufs (P 0) \<noteq> {}"
proof -
  obtain s where s: "uart_step call boot_uart s" "uart_inv s" "uart_initialized (uart_instances s 0)" "tx_items s 0 = []"
    "unat (cb_size (tx_buffer (uart_instances s 0))) = 16" "heap_memory (uheap s) = 4096"
    "uart_init boot_uart 0 (Some small_config) = Some (s, Some 0)" by (rule example_uart [where call = call])
  have boot: "system_boot (example_heap, {}, \<lambda>_. zero_uart, Map.empty, {})"
    using example_fresh by (auto simp: system_boot_def example_heap_def ports_closed_def zero_uart_def)
  have eq: "driver (uheap s) (uart_instances s) = s" "driver example_heap (\<lambda>_. zero_uart) = boot_uart"
    by (simp_all add: driver_def boot_uart_def)
  have "port_step call (example_heap, \<lambda>_. zero_uart) (unat (0 :: u8)) (uheap s, uart_instances s)"
    by (rule port_step.init) (unfold eq, rule s(7))
  then have "system_step call (example_heap, {}, \<lambda>_. zero_uart, Map.empty, {}) (PORT 0)
      (uheap s, {}, uart_instances s, Map.empty, {})"
    by (auto simp: system_step_def intro!: pair_step.second pair_step.first)
  then have "system_reachable call (uheap s, {}, uart_instances s, Map.empty, {})"
    using boot unfolding system_reachable_def system_run_def by blast
  then show thesis by (rule that) (use s(3,4) in \<open>simp_all add: eq uart_bufs_def\<close>)
qed

text \<open>Then a semaphore is created, which the open port does not notice.\<close>

theorem system_isolated_witness:
  "\<exists>h X P ps B y h' X' P' ps' B'. system_reachable (\<lambda>_ _ _ s. s) (h, X, P, ps, B) \<and> system_step (\<lambda>_ _ _ s. s) (h, X, P, ps, B) y (h', X', P', ps', B')
     \<and> uart_initialized (P 0) \<and> uart_open_ok h' (P' 0) \<and> tx_items (driver h' P') 0 = []"
proof -
  obtain h P where r: "system_reachable (\<lambda>_ _ _ s. s) (h, {}, P, Map.empty, {})" and p: "uart_initialized (P 0)" "tx_items (driver h P) 0 = []"
    by (rule example_port)
  have "heap_inv h" using reachable_exact [OF r] by (simp add: system_exact_def system_inv_iff)
  from heap.malloc_total [OF this, of sizeof_semaphore] obtain h' a where "sem_create h 1 2 = Some (h', a)"
    by (fastforce simp: sem_create_def)
  from object_step.sem_created [OF this, of "{}"] obtain X' where
    st: "system_step (\<lambda>_ _ _ s. s) (h, {}, P, Map.empty, {}) (OBJECT (SEMAPHORE a)) (h', X', P, Map.empty, {})"
    by (auto simp: system_step_def intro: pair_step.first)
  have "uart_open_ok h' (P 0) \<and> tx_items (driver h' P) 0 = []"
    using system_isolated [OF r st] p by (simp add: MAX_UART_INSTANCES_def)
  with r st p(1) show ?thesis by blast
qed

text \<open>The buffers of the open port have one owner.\<close>

theorem system_no_leak_witness:
  "\<exists>h P q. system_reachable (\<lambda>_ _ _ s. s) (h, {}, P, Map.empty, {}) \<and> heap_live h q \<noteq> None
     \<and> (\<exists>!y. q \<in> system_part h ({}, P, Map.empty, {}) y)"
proof -
  obtain h P where r: "system_reachable (\<lambda>_ _ _ s. s) (h, {}, P, Map.empty, {})" and p: "uart_initialized (P 0)" "uart_bufs (P 0) \<noteq> {}"
    by (rule example_port)
  from p(2) obtain q where q: "q \<in> uart_bufs (P 0)" by blast
  have "ports_inv h P" using reachable_exact [OF r] by (simp add: system_exact_def system_inv_iff)
  then have "heap_live h q \<noteq> None"
    using ports_owned_live [of h P] q owned_union [of 0 h P] by (auto simp: MAX_UART_INSTANCES_def subset_iff domIff)
  with system_no_leak [OF r] r show ?thesis by blast
qed

end
