(* ===== verification/Reports.thy ===== *)
theory Reports imports Heap_Props Irq Framework_Props begin

text \<open>
  The reporting functions: \<^verbatim>\<open>memory_print_stats\<close> (\<^verbatim>\<open>src/kernel/memory.c\<close>),
  \<^verbatim>\<open>device_print_registry\<close> (\<^verbatim>\<open>src/driver_framework.c\<close>) and \<^verbatim>\<open>irq_print_handlers\<close>
  (\<^verbatim>\<open>src/hal/interrupt_dispatcher.c\<close>). What is modelled of a report is the values it prints, in
  order; their layout on the terminal is not.
\<close>

section \<open>The heap\<close>

text \<open>The lines of the report. \<open>stats\<close> is the indeterminate content of the local variable, which
  \<^verbatim>\<open>memory_get_stats\<close> leaves as it is before the heap has been initialised.\<close>

definition stats_lines :: "memory_stats \<Rightarrow> (string \<times> nat) list" where
  "stats_lines st =
     [(''Total Heap Size'', unat (total_heap_size st)), (''Used Heap'', unat (used_heap_size st)),
      (''Free Heap'', unat (free_heap_size st)), (''Largest Free Block'', unat (largest_free_block st)),
      (''Total Allocations'', unat (num_allocations st)), (''Total Frees'', unat (num_frees st)),
      (''Fragmentation'', unat (fragmentation_percent st))]"

definition memory_print_stats ::
    "(size_t \<Rightarrow> size_t \<Rightarrow> u32) \<Rightarrow> memory_stats \<Rightarrow> heap_state \<Rightarrow> (string \<times> nat) list option" where
  "memory_print_stats percent stats s =
     do { out \<leftarrow> memory_get_stats percent s (Some stats); map_option stats_lines out }"

text \<open>On a well-formed heap the figures are those of the blocks, whatever was in the variable. The header
  of the first block counts as used from the start, so that the free figure is a header short and
  wraps when no block is free.\<close>

lemma free_total_min: "free_total bs = 0 \<or> 32 \<le> free_total bs"
  by (induction bs) auto

lemma memory_get_stats_fields:
  assumes "memory_get_stats percent s (Some out) = Some (Some st)" and "memory_initialized s"
  shows "total_heap_size st = total_heap_size (global_stats s)" "used_heap_size st = used_heap_size (global_stats s)"
    "free_heap_size st = free_heap_size (global_stats s)" "num_allocations st = num_allocations (global_stats s)"
    "num_frees st = num_frees (global_stats s)"
  using assms by (auto simp: memory_get_stats_def calculate_fragmentation_def split: Option.bind_splits)

lemma memory_print_stats_exact:
  assumes "heap_inv s"
  shows "\<exists>frag. memory_print_stats percent stats s = Some
    [(''Total Heap Size'', HEAP_SIZE), (''Used Heap'', 32 + alloc_total (heap_blocks s)),
     (''Free Heap'', if free_total (heap_blocks s) = 0 then 2 ^ 64 - 32 else free_total (heap_blocks s) - 32),
     (''Largest Free Block'', Max (insert 0 (set (free_sizes (heap_blocks s))))),
     (''Total Allocations'', unat (num_allocations (global_stats s))), (''Total Frees'', unat (num_frees (global_stats s))),
     (''Fragmentation'', frag)]"
proof -
  have ok: "heap_ok s (heap_blocks s)" using assms by (simp add: heap_inv_ok)
  obtain st where st: "memory_get_stats percent s (Some stats) = Some (Some st)"
    "unat (largest_free_block st) = Max (insert 0 (set (free_sizes (heap_blocks s))))"
    using memory_get_stats_exact [OF assms] by blast
  note f = memory_get_stats_fields [OF st(1)]
  let ?a = "alloc_total (heap_blocks s)" and ?f = "free_total (heap_blocks s)"
  have tot: "?a + ?f = 65536" using heap_total [OF ok] by (simp add: HEAP_SIZE_def)
  have size: "of_nat HEAP_SIZE = (65536 :: size_t)" by (simp add: HEAP_SIZE_def)
  have stats: "used_heap_size (global_stats s) = of_nat (32 + ?a)" "total_heap_size (global_stats s) = 65536"
    and sum: "used_heap_size (global_stats s) + free_heap_size (global_stats s) = 65536"
    using heap_ok_stats [OF ok] unfolding stats_ok_def size by blast+
  from sum have free: "free_heap_size (global_stats s) = 65536 - of_nat (32 + ?a)"
    unfolding stats(1) by (metis add_diff_cancel_left')
  have "unat (free_heap_size (global_stats s)) = (if ?f = 0 then 2 ^ 64 - 32 else ?f - 32)"
  proof (cases "?f = 0")
    case True
    with tot have "?a = 65536" by simp
    with True free show ?thesis by simp
  next
    case False
    with free_total_min [of "heap_blocks s"] tot have "65536 = (32 + ?a) + (?f - 32)" by simp
    then have "(65536 :: size_t) = of_nat ((32 + ?a) + (?f - 32))" by (metis of_nat_numeral)
    with free have "free_heap_size (global_stats s) = of_nat (?f - 32)" by (metis add_diff_cancel_left' of_nat_add)
    moreover have "?f - 32 < 2 ^ 64" using tot by simp
    ultimately show ?thesis using False by (simp add: unat_of_nat_small)
  qed
  moreover have "unat (used_heap_size (global_stats s)) = 32 + ?a"
    unfolding stats(1) by (rule unat_of_nat_small) (use tot in simp)
  moreover have "memory_initialized s" using ok by (simp add: heap_ok_def)
  ultimately show ?thesis using st f stats(2) by (simp add: memory_print_stats_def stats_lines_def HEAP_SIZE_def)
qed

text \<open>Before \<^verbatim>\<open>memory_init\<close> the report prints whatever the variable held.\<close>

lemma memory_print_stats_indeterminate:
  "\<not> memory_initialized s \<Longrightarrow> memory_print_stats percent stats s = Some (stats_lines stats)"
  by (simp add: memory_print_stats_def memory_get_stats_def)

section \<open>The devices\<close>

record device_line =
  line_index :: nat
  line_name :: "string option"
  line_driver :: "string option"
  line_id :: u8
  line_status :: string

definition device_print_registry :: "world \<Rightarrow> u32 \<times> device_line list" where
  "device_print_registry w =
     (device_count w,
      map (\<lambda>i. let d = device_registry w i in
             \<lparr>line_index = i, line_name = dev_name d, line_driver = dev_driver_name d, line_id = dev_id d,
              line_status = (if dev_initialized d then ''INIT'' else ''UNINIT'')\<rparr>)
        [0..<unat (device_count w)])"

section \<open>The interrupt handlers\<close>

record handler_line =
  line_irq :: nat
  line_handler :: fn_ptr
  line_context :: nat

text \<open>The total, the lines, and whether \<open>(none)\<close> is printed.\<close>

definition irq_print_handlers :: "'w irq_state_scheme \<Rightarrow> u32 \<times> handler_line list \<times> bool" where
  "irq_print_handlers s =
     (let xs = map (\<lambda>i. \<lparr>line_irq = i, line_handler = irq_handler (irq_handlers s i), line_context = irq_context (irq_handlers s i)\<rparr>)
                 (filter (\<lambda>i. irq_registered (irq_handlers s i)) [0..<MAX_IRQ_HANDLERS])
      in (handler_count s, xs, xs = []))"

lemma irq_map_num: "i < MAX_IRQ_HANDLERS \<Longrightarrow> unat (of_nat i :: u8) = i"
  by (rule unat_of_nat_small) (simp add: MAX_IRQ_HANDLERS_def)

text \<open>The report lists exactly the handlers registered by the preceding calls, in the order of their
  numbers; but the total it announces is the negated number of removals, modulo \<open>2 ^ 32\<close>, because
  the counter is never raised.\<close>

lemma irq_report_outcome:
  fixes s :: "'w irq_state_scheme" and ops :: "irq_op list"
  defines "r \<equiv> irq_print_handlers (irq_run ops (irq_dispatcher_init s))"
  shows "{(n :: u8, h, c). map_run ops (\<lambda>_. None) n = Some (h, c)}
      = set (map (\<lambda>l. (of_nat (line_irq l), line_handler l, line_context l)) (fst (snd r)))
    \<and> sorted_wrt (<) (map line_irq (fst (snd r))) \<and> (snd (snd r) \<longleftrightarrow> map_run ops (\<lambda>_. None) = Map.empty)
    \<and> fst r = - of_nat (removals ops (\<lambda>_. None))"
proof -
  define t where "t = irq_run ops (irq_dispatcher_init s)"
  have m: "map_run ops (\<lambda>_. None) = irq_map t"
    using irq_run_map [of ops "irq_dispatcher_init s"] by (simp add: t_def irq_map_init)
  have xs: "fst (snd r) = map (\<lambda>i. \<lparr>line_irq = i, line_handler = irq_handler (irq_handlers t i), line_context = irq_context (irq_handlers t i)\<rparr>)
      (filter (\<lambda>i. irq_registered (irq_handlers t i)) [0..<MAX_IRQ_HANDLERS])"
    by (simp add: r_def irq_print_handlers_def Let_def flip: t_def)
  have "(n, h, c) \<in> set (map (\<lambda>l. (of_nat (line_irq l), line_handler l, line_context l)) (fst (snd r)))
      \<longleftrightarrow> irq_map t n = Some (h, c)" for n :: u8 and h c
  proof
    assume "(n, h, c) \<in> set (map (\<lambda>l. (of_nat (line_irq l), line_handler l, line_context l)) (fst (snd r)))"
    then obtain i where i: "i < MAX_IRQ_HANDLERS" "irq_registered (irq_handlers t i)" "n = of_nat i"
      "h = irq_handler (irq_handlers t i)" "c = irq_context (irq_handlers t i)" by (auto simp: xs)
    with irq_map_num [OF i(1)] show "irq_map t n = Some (h, c)" by (simp add: irq_map_def)
  next
    assume "irq_map t n = Some (h, c)"
    then have "irq_registered (irq_handlers t (unat n))" "h = irq_handler (irq_handlers t (unat n))"
      "c = irq_context (irq_handlers t (unat n))" by (auto simp: irq_map_def split: if_splits)
    then show "(n, h, c) \<in> set (map (\<lambda>l. (of_nat (line_irq l), line_handler l, line_context l)) (fst (snd r)))"
      unfolding xs by (auto intro!: image_eqI [of _ _ "unat n"])
  qed
  then have lines: "{(n :: u8, h, c). irq_map t n = Some (h, c)}
      = set (map (\<lambda>l. (of_nat (line_irq l), line_handler l, line_context l)) (fst (snd r)))" by auto
  have "map line_irq (fst (snd r)) = filter (\<lambda>i. irq_registered (irq_handlers t i)) [0..<MAX_IRQ_HANDLERS]"
    by (simp add: xs comp_def)
  then have sorted: "sorted_wrt (<) (map line_irq (fst (snd r)))" by (simp add: sorted_wrt_filter)
  have "snd (snd r) \<longleftrightarrow> fst (snd r) = []" by (simp add: r_def irq_print_handlers_def Let_def)
  also have "\<dots> \<longleftrightarrow> {(n :: u8, h, c). irq_map t n = Some (h, c)} = {}" unfolding lines by simp
  also have "\<dots> \<longleftrightarrow> irq_map t = Map.empty" by (auto simp: fun_eq_iff) (metis not_None_eq surj_pair)
  finally have none: "snd (snd r) \<longleftrightarrow> irq_map t = Map.empty" .
  have "fst r = - of_nat (removals ops (\<lambda>_. None))"
    using irq_handler_count_wrong [of ops s] by (simp add: r_def irq_print_handlers_def irq_get_handler_count_def Let_def)
  with lines sorted none show ?thesis unfolding m by blast
qed

end
