(* ===== verification/Test_Main.thy ===== *)
theory Test_Main imports Heap_Stacked Uart_Props Ipc_System Reports begin

text \<open>
  The test program (\<^verbatim>\<open>tests/test_main.c\<close>): three tests over the heap, the UART driver and a
  semaphore, each a sequence of calls with assertions between them. A failed assertion aborts the
  program, and is \<open>None\<close> like a call that does not return. The theorem is that the program passes
  from every loaded state, and what it leaves behind.
\<close>

section \<open>The program\<close>

definition assertion :: "bool \<Rightarrow> unit option" where
  "assertion b = (if b then Some () else None)"

text \<open>\<open>percent\<close> and \<open>stats\<close> are the parameters of the report, see \<open>memory_print_stats\<close>.\<close>

definition test_memory ::
    "(size_t \<Rightarrow> size_t \<Rightarrow> u32) \<Rightarrow> memory_stats \<Rightarrow> heap_state \<Rightarrow> heap_state option" where
  "test_memory percent stats s =
     do { (s1, ptr1) \<leftarrow> rtos_malloc (memory_init s) 100;
          assertion (ptr1 \<noteq> NULL);
          (s2, ptr2) \<leftarrow> rtos_malloc s1 200;
          assertion (ptr2 \<noteq> NULL);
          s3 \<leftarrow> rtos_free s2 ptr1;
          (s4, ptr3) \<leftarrow> rtos_malloc s3 50;
          assertion (ptr3 \<noteq> NULL);
          s5 \<leftarrow> rtos_free s4 ptr2;
          s6 \<leftarrow> rtos_free s5 ptr3;
          memory_print_stats percent stats s6;
          Some s6 }"

definition test_config :: uart_config where
  "test_config = \<lparr>baud_rate = UART_BAUD_115200, parity = UART_PARITY_NONE, stop_bits = UART_STOPBITS_1,
     data_bits = UART_DATABITS_8, enable_dma = False, enable_interrupts = True, rx_buffer_size = 128, tx_buffer_size = 128\<rparr>"

text \<open>\<open>data\<close> is the address of the local array, which the initialiser fills with the text and its
  terminating zero.\<close>

definition test_data :: "u8 list" where
  "test_data = map of_char ''Test'' @ [0]"

definition test_uart ::
    "(addr \<Rightarrow> nat \<Rightarrow> addr \<Rightarrow> uart_state \<Rightarrow> uart_state) \<Rightarrow> addr \<Rightarrow> uart_state \<Rightarrow> uart_state option" where
  "test_uart call data s =
     do { (s1, uart) \<leftarrow> uart_init s 0 (Some test_config);
          assertion (uart \<noteq> None);
          let s2 = s1\<lparr>uheap := heap_store (poke data test_data) (uheap s1)\<rparr>;
          let (s3, status) = uart_write call s2 uart data 4;
          assertion (status = RTOS_OK);
          (s4, _) \<leftarrow> uart_deinit s3 uart;
          Some s4 }"

definition test_semaphore :: "heap_state \<Rightarrow> heap_state option" where
  "test_semaphore s =
     do { (s1, sem) \<leftarrow> sem_create (memory_init s) 1 1;
          assertion (sem \<noteq> NULL);
          let (s2, status) = sem_take s1 sem 0;
          assertion (status = RTOS_OK);
          let (s3, status) = sem_give s2 sem;
          assertion (status = RTOS_OK);
          sem_destroy s3 sem }"

definition test_main ::
    "(size_t \<Rightarrow> size_t \<Rightarrow> u32) \<Rightarrow> memory_stats \<Rightarrow> (addr \<Rightarrow> nat \<Rightarrow> addr \<Rightarrow> uart_state \<Rightarrow> uart_state) \<Rightarrow> addr \<Rightarrow>
     uart_state \<Rightarrow> (uart_state \<times> int) option" where
  "test_main percent stats call data s =
     do { h1 \<leftarrow> test_memory percent stats (uheap s);
          s2 \<leftarrow> test_uart call data (s\<lparr>uheap := h1\<rparr>);
          h3 \<leftarrow> test_semaphore (uheap s2);
          Some (s2\<lparr>uheap := h3\<rparr>, 0) }"

section \<open>The tests pass\<close>

lemma assertion_simps [simp]: "assertion True = Some ()" "assertion False = None"
  by (simp_all add: assertion_def)

text \<open>The heap without allocations, which the tests start from and return to.\<close>

definition all_free :: "heap_state \<Rightarrow> addr \<Rightarrow> bool" where
  "all_free s b \<longleftrightarrow> heap_inv s \<and> heap_blocks s = [(b, HEAP_SIZE - 32, True)] \<and> heap_memory s = b"

lemma heap_memory_head: "heap_inv s \<Longrightarrow> heap_blocks s = (b, n, f) # bs \<Longrightarrow> heap_memory s = b"
  using heap_ok_chain [of s "heap_blocks s"] by (simp add: heap_inv_ok)

lemma all_freeI: "heap_inv s \<Longrightarrow> heap_live s = Map.empty \<Longrightarrow> heap_memory s = b \<Longrightarrow> all_free s b"
  by (simp add: all_free_def empty_heap)

lemma all_free_stacked: "all_free s b \<Longrightarrow> stacked s [] b 65504"
  unfolding all_free_def stacked_def heap_inv_ok by clarsimp (simp add: HEAP_SIZE_def)

lemma all_free_again: "all_free s b \<Longrightarrow> memory_init s = s"
  by (rule memory_init_again) (simp add: all_free_def heap_inv_ok heap_ok_def)

lemma fresh_all_free: "fresh_heap s \<Longrightarrow> all_free (memory_init s) (heap_memory s)"
  using heap_ok_inv [OF memory_init_ok] heap_memory_head [of "memory_init s"] by (auto simp: all_free_def)

lemma stacked_memory: "stacked s ((b, l, f) # used) a n \<Longrightarrow> heap_memory s = b"
  using heap_ok_chain [of s "(b, l, f) # used @ [(a, n, True)]"] by (auto simp: stacked_def)

lemma free_heap_memory: "rtos_free s p = Some s' \<Longrightarrow> heap_memory s' = heap_memory s"
  by (auto simp: rtos_free_def Let_def split: if_splits Option.bind_splits)

text \<open>The freed block of 100 bytes is the best fit for 50 and taken whole: the third pointer is the
  first one again.\<close>

text \<open>The allocations: the third takes the place of the first, which has been freed.\<close>

lemma test_memory_allocations:
  assumes "all_free s b"
  obtains s1 s2 s3 s4 where "rtos_malloc s 100 = Some (s1, b + 32)" "rtos_malloc s1 200 = Some (s2, b + 164)"
    "rtos_free s2 (b + 32) = Some s3" "rtos_malloc s3 50 = Some (s4, b + 32)"
    "heap_inv s4" "heap_memory s4 = b" "dom (heap_live s4) = {b + 32, b + 164}"
proof -
  have "\<exists>s1. rtos_malloc s 100 = Some (s1, b + 32) \<and> stacked s1 ([] @ [(b, 100, False)]) (b + 32 + 100) (65504 - 100 - 32)"
    by (rule malloc_stacked [OF all_free_stacked [OF assms]]) simp_all
  then obtain s1 where s1: "rtos_malloc s 100 = Some (s1, b + 32)" "stacked s1 [(b, 100, False)] (b + 132) 65372"
    by (auto simp: add.commute)
  have "\<exists>s2. rtos_malloc s1 200 = Some (s2, b + 132 + 32)
      \<and> stacked s2 ([(b, 100, False)] @ [(b + 132, 200, False)]) (b + 132 + 32 + 200) (65372 - 200 - 32)"
    by (rule malloc_stacked [OF s1(2)]) simp_all
  then obtain s2 where s2: "rtos_malloc s1 200 = Some (s2, b + 164)"
    "stacked s2 [(b, 100, False), (b + 132, 200, False)] (b + 364) 65140" by (auto simp: add.commute)
  have inv2: "heap_inv s2" and bs2: "heap_blocks s2 = [(b, 100, False), (b + 132, 200, False), (b + 364, 65140, True)]"
    using s2(2) heap_ok_inv by (auto simp: stacked_def)
  have l2: "heap_live s2 (b + 32) = Some 100" by (simp add: stacked_live [OF s2(2)])
  from free_merges [OF inv2 l2] obtain s3 where s3: "rtos_free s2 (b + 32) = Some s3" "heap_inv s3"
    "heap_blocks s3 = [(b, 100, True), (b + 132, 200, False), (b + 364, 65140, True)]" "heap_live s3 = (heap_live s2)(b + 32 := None)"
    by (auto simp: bs2 set_free_def)
  have fit: "best_fit 52 (heap_blocks s3) c k \<longleftrightarrow> c = b \<and> k = 100" for c k
    by (auto simp: s3(3) best_fit_def)
  have al: "unat (align_size 50) = 52" using unat_align_size [of 50] by simp
  have "\<not> no_fit 52 (heap_blocks s3)" by (simp add: s3(3) no_fit_def)
  with malloc_blocks [OF s3(2), of 50, unfolded al] obtain s4 c m where
    "rtos_malloc s3 50 = Some (s4, c + 32)" "heap_inv s4" "best_fit 52 (heap_blocks s3) c m" by auto
  then have s4: "rtos_malloc s3 50 = Some (s4, b + 32)" "heap_inv s4" using fit by simp_all
  from heap.malloc_live [OF s4(1) s3(2)] obtain k where k: "heap_live s4 = (heap_live s3)(b + 32 \<mapsto> k)" by auto
  have "heap_live s2 p \<noteq> None \<longleftrightarrow> p = b + 32 \<or> p = b + 164" for p
    unfolding not_None_eq stacked_live [OF s2(2)] by auto
  with k s3(4) have "dom (heap_live s4) = {b + 32, b + 164}" by (auto simp: domIff)
  moreover have "heap_memory s4 = b" using malloc_heap_memory [OF s4(1)] heap_memory_head [OF s3(2,3)] by simp
  ultimately show thesis using that s1(1) s2(1) s3(1) s4 by blast
qed

lemma test_memory_passes:
  assumes "all_free (memory_init s) b"
  obtains s' where "test_memory percent stats s = Some s'" and "all_free s' b"
proof -
  from test_memory_allocations [OF assms] obtain s1 s2 s3 s4 where s1: "rtos_malloc (memory_init s) 100 = Some (s1, b + 32)"
    and s2: "rtos_malloc s1 200 = Some (s2, b + 164)" and s3: "rtos_free s2 (b + 32) = Some s3"
    and s4: "rtos_malloc s3 50 = Some (s4, b + 32)" "heap_inv s4" "heap_memory s4 = b"
    and dom4: "dom (heap_live s4) = {b + 32, b + 164}" by blast
  then have "heap_live s4 (b + 164) \<noteq> None" by auto
  then obtain k where "heap_live s4 (b + 164) = Some k" by blast
  from free_merges [OF s4(2) this] obtain s5 where s5: "rtos_free s4 (b + 164) = Some s5" "heap_inv s5"
    "heap_live s5 = (heap_live s4)(b + 164 := None)" by auto
  then have "heap_live s5 (b + 32) \<noteq> None" using dom4 by (auto simp: domIff)
  then obtain j where "heap_live s5 (b + 32) = Some j" by blast
  from free_merges [OF s5(2) this] obtain s6 where s6: "rtos_free s5 (b + 32) = Some s6" "heap_inv s6"
    "heap_live s6 = (heap_live s5)(b + 32 := None)" by auto
  have "dom (heap_live s6) = {}" unfolding s6(3) s5(3) using dom4 by auto
  moreover have "heap_memory s6 = b"
    using free_heap_memory [OF s6(1)] free_heap_memory [OF s5(1)] s4(3) by simp
  ultimately have free: "all_free s6 b" using s6(2) by (intro all_freeI) auto
  obtain xs where "memory_print_stats percent stats s6 = Some xs" using memory_print_stats_exact [OF s6(2)] by blast
  then have "test_memory percent stats s = Some s6"
    using s1 s2 s3 s4(1) s5(1) s6(1) by (simp add: test_memory_def)
  with free that show thesis by blast
qed

lemma uart_inv_poke:
  assumes "uart_inv s" and "outside_heap (uheap s) p (length xs)"
  shows "uart_inv (s\<lparr>uheap := heap_store (poke p xs) (uheap s)\<rparr>)"
proof -
  have "inside p (length xs) (poke p xs)" by (auto simp: inside_def poke_def)
  from outside_store [OF _ assms(2) this, of "{}"] assms(1) show ?thesis
    by (intro uart_inv_heap) (auto simp: uart_inv_def others_kept_def)
qed

lemma uart_deinit_memory: "uart_deinit s u = Some (s', r) \<Longrightarrow> heap_memory (uheap s') = heap_memory (uheap s)"
  by (auto simp: uart_deinit_def circ_buf_deinit_def upd_uart_def Let_def dest!: free_heap_memory
      split: if_splits Option.bind_splits)

lemma outside_client:
  assumes "uart_inv s" and "outside_heap (uheap s) p n"
  shows "client_bytes s p n"
  unfolding client_bytes_def
proof (intro ballI allI impI)
  fix q k assume "heap_live (uheap s) q = Some k"
  with live_in_heap [of "uheap s" q k] assms show "p + n \<le> q \<or> q + k \<le> p"
    by (auto simp: uart_inv_def outside_heap_def)
qed

lemma test_uart_opens:
  assumes free: "all_free (uheap s) b" and closed: "\<And>u. uart_instances s u = zero_uart"
  obtains s1 port where "uart_init s 0 (Some test_config) = Some (s1, Some 0)" "uart_inv s1"
    "uart_instances s1 = (uart_instances s)(0 := port)" "heap_memory (uheap s1) = b" "dom (heap_live (uheap s1)) = {b + 32, b + 192}"
    "uart_initialized port" "cb_buffer (rx_buffer port) = b + 32" "cb_buffer (tx_buffer port) = b + 192"
    "unat (cb_size (tx_buffer port)) = 128" "cb_count (tx_buffer port) = 0"
proof -
  have "uart_boot s" using free closed by (simp add: uart_boot_def all_free_def)
  then have inv: "uart_inv s" by (rule uart_boot_inv)
  have "\<exists>h port. uart_init s 0 (Some test_config) = Some (upd_uart 0 (\<lambda>_. port) (s\<lparr>uheap := h\<rparr>), Some 0)
    \<and> stacked h [(b, 128, False), (b + 32 + 128, 128, False)] (b + 64 + 2 * 128) (65504 - 64 - 2 * 128)
    \<and> uart_initialized port \<and> cb_buffer (rx_buffer port) = b + 32 \<and> cb_buffer (tx_buffer port) = b + 64 + 128
    \<and> unat (cb_size (tx_buffer port)) = 128 \<and> cb_count (tx_buffer port) = 0"
    by (rule uart_opens_stacked [OF all_free_stacked [OF free], where w = "128 :: u16"])
      (simp_all add: closed test_config_def, simp add: zero_uart_def)
  then obtain h port where op: "uart_init s 0 (Some test_config) = Some (upd_uart 0 (\<lambda>_. port) (s\<lparr>uheap := h\<rparr>), Some 0)"
    "stacked h [(b, 128, False), (b + 160, 128, False)] (b + 320) 65184" "uart_initialized port"
    "cb_buffer (rx_buffer port) = b + 32" "cb_buffer (tx_buffer port) = b + 192" "unat (cb_size (tx_buffer port)) = 128"
    "cb_count (tx_buffer port) = 0"
    by (auto simp: add.commute)
  define s1 where "s1 = upd_uart 0 (\<lambda>_. port) (s\<lparr>uheap := h\<rparr>)"
  have inst: "uart_instances s1 = (uart_instances s)(0 := port)" "uheap s1 = h"
    by (auto simp: s1_def upd_uart_def fun_eq_iff)
  have r1: "uart_init s 0 (Some test_config) = Some (s1, Some 0)" using op(1) by (simp add: s1_def)
  have inv1: "uart_inv s1" using uart_init_step [OF inv r1] by simp
  have mem1: "heap_memory h = b" using stacked_memory op(2) by blast
  have "heap_live h p \<noteq> None \<longleftrightarrow> p = b + 32 \<or> p = b + 192" for p
    unfolding not_None_eq stacked_live [OF op(2)] by auto
  then have "dom (heap_live h) = {b + 32, b + 192}" by (auto simp: domIff)
  with that r1 inv1 inst mem1 op(3-7) show thesis by simp
qed

lemma test_uart_passes:
  assumes free: "all_free (uheap s) b" and closed: "\<And>u. uart_instances s u = zero_uart"
    and data: "data \<noteq> NULL" "outside_heap (uheap s) data 5"
  obtains s' where "test_uart call data s = Some s'" and "all_free (uheap s') b"
    and "\<And>u. \<not> uart_initialized (uart_instances s' u)"
proof -
  from test_uart_opens [OF free closed] obtain s1 port where r1: "uart_init s 0 (Some test_config) = Some (s1, Some 0)"
    and inv1: "uart_inv s1" and inst: "uart_instances s1 = (uart_instances s)(0 := port)"
    and mem1: "heap_memory (uheap s1) = b" and dom1: "dom (heap_live (uheap s1)) = {b + 32, b + 192}"
    and port: "uart_initialized port" "cb_buffer (rx_buffer port) = b + 32" "cb_buffer (tx_buffer port) = b + 192"
      "unat (cb_size (tx_buffer port)) = 128" "cb_count (tx_buffer port) = 0" by blast
  have hm: "heap_memory (uheap s) = b" using free by (simp add: all_free_def)
  define s2 where "s2 = s1\<lparr>uheap := heap_store (poke data test_data) (uheap s1)\<rparr>"
  have out: "outside_heap (uheap s1) data (length test_data)"
    using data(2) hm mem1 by (simp add: outside_heap_def test_data_def numeral_eq_Suc)
  have inv2: "uart_inv s2" unfolding s2_def by (rule uart_inv_poke [OF inv1 out])
  have inst2: "uart_instances s2 = uart_instances s1" "heap_memory (uheap s2) = b" using mem1 by (simp_all add: s2_def heap_store_def)
  have "others_kept (uheap s1) (uheap s2) {}" unfolding s2_def
    by (simp, rule outside_store [OF _ out]) (use inv1 in \<open>auto simp: uart_inv_def inside_def poke_def\<close>)
  then have live2: "heap_live (uheap s2) = heap_live (uheap s1)" by (simp add: others_kept_def)
  have empty: "tx_items s2 0 = []" using port(5) by (simp add: tx_items_def cb_items_def inst2(1) inst)
  have "outside_heap (uheap s2) data (unat (4 :: size_t))" using data(2) hm inst2(2) by (auto simp: outside_heap_def)
  from uart_write_state [OF inv2 _ _ data(1) outside_client [OF inv2 this], of 0 call] obtain s3 where
    w: "uart_write call s2 (Some 0) data 4 = (s3, RTOS_OK)" "uart_inv s3"
      "others_kept (uheap s2) (uheap s3) {cb_buffer (tx_buffer port)}"
      "\<And>v. uart_initialized (uart_instances s3 v) = uart_initialized (uart_instances s2 v)"
      "\<And>v. uart_bufs (uart_instances s3 v) = uart_bufs (uart_instances s2 v)" "heap_memory (uheap s3) = b"
    using port(1,4) empty by (auto simp: inst2 inst MAX_UART_INSTANCES_def)
  have op3: "uart_initialized (uart_instances s3 0)" using w(4) [of 0] port(1) by (simp add: inst2 inst)
  from uart_deinit_state [OF w(2) _ op3] obtain h4 hd where
    d: "uart_deinit s3 (Some 0) = Some (upd_uart 0 (\<lambda>_. hd) (s3\<lparr>uheap := h4\<rparr>), RTOS_OK)" "\<not> uart_initialized hd" "touches (uheap s3) h4 (uart_bufs (uart_instances s3 0))"
      "heap_live h4 = (heap_live (uheap s3))(cb_buffer (rx_buffer (uart_instances s3 0)) := None,
                                    cb_buffer (tx_buffer (uart_instances s3 0)) := None)"
    by (auto simp: MAX_UART_INSTANCES_def)
  have "dom (heap_live (uheap s3)) = {b + 32, b + 192}" using w(3) live2 dom1 by (simp add: others_kept_def)
  moreover have "{cb_buffer (rx_buffer (uart_instances s3 0)), cb_buffer (tx_buffer (uart_instances s3 0))} = {b + 32, b + 192}"
    using w(5) [of 0] port(1-3) op3 by (simp add: uart_bufs_def inst2 inst)
  ultimately have "heap_live h4 p = None" for p unfolding d(4) by (auto simp: domIff)
  moreover have "heap_memory h4 = b" using uart_deinit_memory [OF d(1)] w(6) by (simp add: upd_uart_def)
  ultimately have "all_free h4 b" using touches_inv [OF d(3)] by (intro all_freeI) auto
  moreover have "test_uart call data s = Some (upd_uart 0 (\<lambda>_. hd) (s3\<lparr>uheap := h4\<rparr>))"
    using r1 w(1) d(1) by (simp add: test_uart_def flip: s2_def)
  moreover have "\<not> uart_initialized (uart_instances (upd_uart 0 (\<lambda>_. hd) (s3\<lparr>uheap := h4\<rparr>)) u)" for u
    using d(2) w(4) [of u] closed [of u] by (simp add: upd_uart_def inst2 inst) (simp add: zero_uart_def)
  ultimately show thesis using that by (simp add: upd_uart_def)
qed

lemma test_semaphore_passes:
  assumes "all_free s b"
  obtains s' where "test_semaphore s = Some s'" and "all_free s' b"
proof -
  have "\<exists>s1. sem_create s 1 1 = Some (s1, b + 32) \<and> stacked s1 ([] @ [(b, 8, False)]) (b + 40) (65504 - 40)"
    by (rule sem_create_stacked [OF all_free_stacked [OF assms]]) simp
  then obtain s1 where s1: "sem_create s 1 1 = Some (s1, b + 32)" "stacked s1 [(b, 8, False)] (b + 40) 65464" by auto
  have ok1: "sem_ok s1 (b + 32)" and c1: "sem_count (mem s1) (b + 32) = 1" "sem_max_count (mem s1) (b + 32) = 1"
    using sem_create_touches [OF s1(1)] assms by (simp_all add: all_free_def)
  obtain s2 where s2: "sem_take s1 (b + 32) 0 = (s2, RTOS_OK)" "sem_ok s2 (b + 32)" "others_kept s1 s2 {b + 32}"
    "sem_count (mem s2) (b + 32) = 0" "sem_max_count (mem s2) (b + 32) = 1"
    using sem_store [OF ok1, of "\<lambda>m. sem_count m (b + 32) - 1"] c1 by (simp add: sem_take_def)
  obtain s3 where s3: "sem_give s2 (b + 32) = (s3, RTOS_OK)" "sem_ok s3 (b + 32)" "others_kept s2 s3 {b + 32}"
    using sem_store [OF s2(2), of "\<lambda>m. sem_count m (b + 32) + 1"] s2(4,5) by (simp add: sem_give_def)
  have live: "heap_live s3 = [b + 32 \<mapsto> 8]"
  proof -
    have "heap_live s3 = heap_live s1" using s2(3) s3(3) by (simp add: others_kept_def)
    moreover have "heap_live s1 = [b + 32 \<mapsto> 8]" by (rule map_eqI) (auto simp: stacked_live [OF s1(2)])
    ultimately show ?thesis by simp
  qed
  have inv3: "heap_inv s3" using s3(2) by (simp add: sem_ok_def)
  from free_merges [OF inv3, of "b + 32" 8] live obtain s4 where
    s4: "rtos_free s3 (b + 32) = Some s4" "heap_inv s4" "heap_live s4 = Map.empty" by auto
  have "heap_memory s3 = heap_memory s1"
    using s2(1) s3(1) c1 s2(4,5) by (auto simp: sem_take_def sem_give_def heap_store_def)
  then have "all_free s4 b" using s4 free_heap_memory [OF s4(1)] stacked_memory [OF s1(2)] by (intro all_freeI) auto
  moreover have "test_semaphore s = Some s4"
    using s1(1) s2(1) s3(1) s4(1) by (simp add: test_semaphore_def all_free_again [OF assms] sem_destroy_def)
  ultimately show thesis using that by blast
qed

text \<open>C10: the test program passes: from every loaded state, with its array anywhere outside the heap, no
  assertion fails, every call returns, and \<^verbatim>\<open>main\<close> returns 0; afterwards the whole heap is one free block
  again and no port is open.\<close>

theorem test_main_passes:
  assumes "fresh_heap (uheap s)" and "\<And>u. uart_instances s u = zero_uart"
    and "data \<noteq> NULL" and "outside_heap (uheap s) data 5"
  shows "\<exists>s'. test_main percent stats call data s = Some (s', 0)
    \<and> heap_blocks (uheap s') = [(heap_memory (uheap s), HEAP_SIZE - 32, True)] \<and> heap_inv (uheap s')
    \<and> (\<forall>u. \<not> uart_ready s' u)"
proof -
  define b where "b = heap_memory (uheap s)"
  obtain h1 where h1: "test_memory percent stats (uheap s) = Some h1" "all_free h1 b"
    by (rule test_memory_passes [OF fresh_all_free [OF assms(1), folded b_def]])
  have "outside_heap h1 data 5" using assms(4) h1(2) by (simp add: outside_heap_def all_free_def b_def)
  with h1(2) assms(2,3) obtain s2 where
    s2: "test_uart call data (s\<lparr>uheap := h1\<rparr>) = Some s2" "all_free (uheap s2) b" "\<And>u. \<not> uart_initialized (uart_instances s2 u)"
    by (elim test_uart_passes [of "s\<lparr>uheap := h1\<rparr>" b data, simplified, rotated -1]) auto
  obtain h3 where h3: "test_semaphore (uheap s2) = Some h3" "all_free h3 b" by (rule test_semaphore_passes [OF s2(2)])
  have "test_main percent stats call data s = Some (s2\<lparr>uheap := h3\<rparr>, 0)"
    using h1(1) s2(1) h3(1) by (simp add: test_main_def)
  moreover have "\<not> uart_ready (s2\<lparr>uheap := h3\<rparr>) u" for u using s2(3) by (auto simp: uart_ready_def split: option.splits)
  ultimately show ?thesis using h3(2) by (simp add: all_free_def b_def)
qed

theorem test_main_passes_witness:
  "\<exists>s'. test_main (\<lambda>_ _. 0) (global_stats boot_heap) (\<lambda>_ _ _ s. s) 100 \<lparr>uheap = boot_heap, uart_instances = (\<lambda>_. zero_uart)\<rparr> = Some (s', 0)
     \<and> heap_blocks (uheap s') = [(4096, 65504, True)]"
proof -
  have "heap_memory boot_heap = 4096" by (simp add: boot_heap_def)
  with test_main_passes [of "\<lparr>uheap = boot_heap, uart_instances = (\<lambda>_. zero_uart)\<rparr>" 100 "\<lambda>_ _. 0" "global_stats boot_heap" "\<lambda>_ _ _ s. s"] example_fresh
  show ?thesis by (auto simp: outside_heap_def HEAP_SIZE_def)
qed

end
