(* ===== verification/Spec2Isabelle.thy ===== *)
theory Spec2Isabelle imports Pool_Props Delay_Props I2c_Props Demo_Props Tick_Race Ipc_Race Heap_System Test_Main begin

text \<open>
  A verification library for the RTOS and driver framework of this repository: shallow models of the
  C sources under \<^verbatim>\<open>src/\<close> and the properties that make them correct.

  \<^bold>\<open>The program.\<close> A single-core kernel with 16 static task blocks and one ready list for each of 32
  priorities (\<^verbatim>\<open>kernel/scheduler.c\<close>, \<^verbatim>\<open>kernel/task.c\<close>); a best-fit heap with headers in a 64 KB
  array and block pools carved out of it (\<^verbatim>\<open>kernel/memory.c\<close>); semaphores, mutexes and message queues
  allocated in the heap (\<^verbatim>\<open>ipc/\<close>); UART, I2C and SPI drivers with four static instances each
  (\<^verbatim>\<open>drivers/\<close>) and registries of drivers and devices that open them in order of priority
  (\<^verbatim>\<open>driver_framework.c\<close>); the interrupt dispatcher, the hardware abstraction and the vector table
  of the ARM target (\<^verbatim>\<open>hal/\<close>); a boot loader with a CRC-32 (\<^verbatim>\<open>bootloader/\<close>). The IPC objects, the
  pools and the UART buffers use the heap through its interface; mutexes read the current task of the
  kernel; the framework calls the drivers through function pointers; SysTick drives the scheduler.

  \<^bold>\<open>Conventions.\<close> Machine integers are words of their width. A \<^verbatim>\<open>size_t\<close> has 64 bits; structures in memory are laid out as the 64-bit ABI of the Windows
  build does, also where a definition has the target as an argument. A pointer into a static array is an index and \<open>None\<close> is the null pointer; every other
  pointer is an address, with \<open>NULL\<close> as 0. Log output is not part of any state. Names are those of the
  source; a loop of the source is a function of its own with a name derived from its function.
  A loop over linked data that can be cyclic is a \<open>partial_function\<close> whose \<open>None\<close> is the loop that never
  ends, and an operation that runs it passes the \<open>None\<close> on; that the operations return on
  well-formed states is proved. Where C is undefined the model also answers \<open>None\<close>
  (a division by zero, an object read through a pointer of another type, a write through a null pointer).
  The functions with a measure are the scan of a pool's bitmap, the scan of an I2C bus (the address
  reaches 0x78) and the rounds of \<open>device_init_all\<close> (a round number below a 32-bit count). The rounds of
  the Windows tick thread and of the loops of the demo tasks, which never end, are counted by a parameter, and
  so are the timer interrupts that are taken between two operations of the demo application. No fuel is
  used elsewhere.

  \<^bold>\<open>Foundations.\<close>
  \<^item> \<open>Prelude\<close>: lemma collections and facts on lists and words; \<open>Rtos_Types\<close>: \<^verbatim>\<open>include/rtos_types.h\<close>;
    \<open>Address_Space\<close>: the byte memory, \<^verbatim>\<open>memcpy\<close> and \<^verbatim>\<open>memset\<close>.
  \<^item> \<open>Transitions\<close>: the locale \<open>invariant_system\<close>, reachability and invariants; it is interpreted for
    the heap, the kernel, everything that uses the heap together, the UART driver, the I2C driver and the
    driver framework.
  \<^item> \<open>Allocator\<close>: the locale \<open>allocator\<close>, what clients of the heap rely on (fresh and disjoint blocks,
    frames of the operations); \<open>Fifo\<close>: the locale \<open>bounded_fifo\<close>, with the runs of an abstract queue.

  \<^bold>\<open>Memory\<close> (\<^verbatim>\<open>kernel/memory.c\<close>).
  \<^item> \<open>Heap\<close> holds the code: headers in the byte memory, \<open>find_best_fit\<close>, \<open>split_block\<close>,
    \<open>merge_free_blocks\<close>, \<open>rtos_malloc\<close>, \<open>rtos_free\<close>, \<open>rtos_calloc\<close>, \<open>rtos_realloc\<close>, the statistics.
    \<open>Heap_Blocks\<close> abstracts the chain of headers to a list of blocks and the loops to list functions,
    \<open>Heap_Inv\<close> is the invariant, \<open>Heap_Correct\<close> and \<open>Heap_Alloc\<close> show that every operation returns,
    keeps it and satisfies the laws of \<open>allocator\<close> (interpretation \<open>heap\<close>).
  \<^item> \<open>Heap_Props\<close>: best fit, exact release and merging, round trip, contents kept by a reallocation,
    accounting, the invariant over all runs, and the wrap-around of huge requests.
  \<^item> \<open>Heap_Object\<close>: the locale \<open>heap_object\<close>, what every kind of object kept in heap blocks promises (it
    exists as long as its blocks do and nobody else writes them), and populations of objects in blocks of
    their own. \<open>Heap_User\<close>: the contract \<open>heap_user\<close> of a component that owns blocks of the heap, what it
    relies on and what it guarantees; the locale \<open>heap_users\<close> composes two such components, and the pair
    keeps the contract again (a sublocale). \<open>Heap_Population\<close>: a population of objects meets it.
    \<open>Heap_Stacked\<close>: heaps filled in one sequence
    of allocations, for the programs that are followed to their end.
  \<^item> \<open>Memory_Pool\<close>, \<open>Pool_Props\<close>: pools with their bitmap; allocation of the least free block, exact
    diagnosis of wrong releases. \<open>Pool_System\<close>: the pools as a component (interpretation \<open>pools\<close>), \<open>Client_Blocks\<close>: the
    blocks that tasks allocate for themselves (interpretation \<open>clients\<close>).

  \<^bold>\<open>Kernel\<close> (\<^verbatim>\<open>kernel/scheduler.c\<close>, \<^verbatim>\<open>kernel/task.c\<close>).
  \<^item> \<open>Kernel_State\<close> (statics and task blocks), \<open>Scheduler\<close> and \<open>Task\<close> hold the code.
  \<^item> \<open>Ready_Queues\<close> relates linked lists to queues; \<open>Sched_Spec\<close> is the scheduler on queues and the
    refinement of the code to it; \<open>Kernel_Inv\<close>, \<open>Kernel_Ops\<close> and \<open>Kernel_Run\<close> are the invariant, its
    preservation by every operation and the runs of the kernel.
  \<^item> \<open>Kernel_Props\<close>, \<open>Task_Props\<close>, \<open>Delay_Props\<close>: refinement, termination, round robin under yields,
    creation and the initial stack frame, preemption by the tick; and what the code does not do: wake a
    delayed task, rotate equal priorities by ticks, replace a task that once yielded alone by a later peer, refuse the identifier 0 of unused slots, write the
    canary the stack check looks for.
  \<^item> \<open>Tick_Race\<close>: \<^verbatim>\<open>scheduler_add_task\<close> in two halves, with a tick between them. The critical sections are
    empty macros and the Windows build ticks from a thread of its own, so this can happen.

  \<^bold>\<open>IPC\<close> (\<^verbatim>\<open>ipc/\<close>). \<open>Ipc_Sync\<close> and \<open>Message_Queue\<close> hold the code over the heap. \<open>Ipc_Props\<close>: a queue is a
  bounded FIFO over all runs (interpretation \<open>mq\<close> of \<open>bounded_fifo\<close>), a semaphore conserves its count, a
  mutex excludes. \<open>Ipc_System\<close>: all three kinds of object in one heap, as a component (interpretation \<open>objects\<close>
  of \<open>heap_user\<close>). \<open>Ipc_Race\<close>:
  \<^verbatim>\<open>sem_take\<close>, \<^verbatim>\<open>sem_give\<close>, \<^verbatim>\<open>mutex_lock\<close>, \<^verbatim>\<open>mq_send\<close> and \<^verbatim>\<open>mq_receive\<close> as a test and a write that clients may
  interleave (locale \<open>guarded_operation\<close>).

  \<^bold>\<open>Drivers.\<close>
  \<^item> \<open>Uart\<close> (\<^verbatim>\<open>drivers/uart_driver.c\<close>): circular buffers and all operations; a callback a client registers is
    a parameter. \<open>Ring_Buffer\<close>: the buffers are bounded FIFOs (interpretation \<open>cb\<close>). \<open>Uart_Props\<close>: the
    invariant of the instances and the heap over all runs, the bytes waiting for transmission after every
    labelled step, outcomes of open, close, write and read. \<open>Uart_System\<close>: the ports as a component
    (interpretation \<open>ports\<close>).
  \<^item> \<open>I2c\<close>, \<open>I2c_Props\<close> (\<^verbatim>\<open>drivers/i2c_driver.c\<close>) and \<open>Spi\<close> (\<^verbatim>\<open>drivers/spi_driver.c\<close>): all operations with
    their simulated transfers; the loops against their closed forms, the busy flag over all runs, what the
    local arrays of \<^verbatim>\<open>spi_write\<close> and \<^verbatim>\<open>spi_read\<close> bound.
  \<^item> \<open>Driver_Framework\<close> (\<^verbatim>\<open>driver_framework.c\<close>): registries, lookups, initialisation and the callbacks of
    the built-in drivers. \<open>Framework_Props\<close>: the registries over all runs, the initialisation equals a run
    in the order of a stable sort by priority, and a device that fails blocks those after it in this order.
    \<open>Framework_Typing\<close>: the discipline under which the untyped pointers are never misread.

  \<^bold>\<open>Hardware.\<close> \<open>Irq\<close> (\<^verbatim>\<open>hal/interrupt_dispatcher.c\<close>): table, dispatch, global mask; handlers are a
  parameter that may change the state in any way, nested dispatches included. \<open>Startup\<close>
  (\<^verbatim>\<open>hal/stm32f429_startup.c\<close>): weak aliases and vector table. \<open>Hal\<close> (\<^verbatim>\<open>hal/arm_cortex_m4.c\<close>): initialisation,
  SysTick, the reset handler, and which exceptions reach code.

  \<^bold>\<open>Boot loader.\<close> \<open>Bootloader\<close> (\<^verbatim>\<open>bootloader/bootloader.c\<close>): the CRC-32, its detection of bursts, and the
  verification of a header.

  \<^bold>\<open>Everything in the heap.\<close> \<open>Heap_System\<close> composes the four components that use the heap, the IPC
  objects, the ports, the pools and the blocks of tasks: in any interleaving of their operations they do
  not disturb each other and leak nothing.

  \<^bold>\<open>The whole program.\<close> \<open>Demo_App\<close> (\<^verbatim>\<open>examples/demo_app.c\<close>) is the program that puts the components together, its state
  the product of theirs. \<open>Demo_Props\<close>: its main function opens its devices and runs to the end, on both targets and with ticks
  of the timer between its operations, and leaves every component in order; its tasks, were they entered, would find null handles. \<open>Test_Main\<close>
  (\<^verbatim>\<open>tests/test_main.c\<close>) is the test program: every assertion holds, from every loaded state. \<open>Reports\<close>:
  the values that \<^verbatim>\<open>memory_print_stats\<close>, \<^verbatim>\<open>device_print_registry\<close> and \<^verbatim>\<open>irq_print_handlers\<close> print.

  \<^bold>\<open>Not modelled.\<close> Log output, and with it \<^verbatim>\<open>bootloader_init\<close> and \<^verbatim>\<open>bootloader_jump_to_app\<close>, which
  only print; of the reports the values are modelled and not their layout. The simulation of
  \<^verbatim>\<open>context_switch\<close>, which prints and sleeps: no task code runs in this build. The register sequences the
  drivers describe in comments for real hardware. The floating-point fragmentation percentage is a
  parameter. The NVIC and SCB registers, defined and not used. A counter argument of \<^verbatim>\<open>i2c_scan_bus\<close> that points into
  its array of devices. The interleavings are those of the two
  theories on races: a step there is a half of a function, not a single access to memory. The build files,
  the generated compiler check under \<^verbatim>\<open>build/\<close> and the linker script.
\<close>

end
